(* ===== verification/Prelude.thy ===== *)
theory Prelude
  imports Main "HOL-Library.Word"
begin

unbundle bit_operations_syntax

text \<open>
  Shared vocabulary of the development: the C integer types at their width, the small
  conversions the sources repeat (casts to \<open>int8_t\<close>, saturated absolute error codes,
  little-endian byte splitting), circular buffers over fixed C arrays, and the interfaces
  (locales) several components implement:
  \<^item> \<open>bounded_log\<close>: an append operation on a buffer that keeps the newest \<open>cap\<close> entries;
  \<^item> \<open>bounded_fifo\<close>: a queue that refuses what does not fit;
  \<^item> \<open>sealed_store\<close>: a record protected by magic number and checksum;
  \<^item> \<open>rate_limited\<close>: an action that may not repeat before a minimum gap has passed;
  \<^item> \<open>one_shot\<close>: an event a bit lets through once until it is reset;
  \<^item> \<open>saturating_counter\<close>: a statistic that stops at its maximum;
  \<^item> \<open>passive_observer\<close>: a linker-wrapped function that must not change the call it observes.
\<close>

named_theorems cast_simps \<open>conversions between C integer types\<close>
named_theorems inv_intros \<open>operations preserve the component invariants\<close>

section \<open>C integers\<close>

type_synonym u8 = "8 word"
type_synonym u16 = "16 word"
type_synonym u32 = "32 word"
type_synonym i8 = "8 word"

text \<open>
  An \<open>int8_t\<close> is kept as its byte; \<open>sint\<close> reads it. \<open>to_i8\<close> is the cast
  \<open>(int8_t)x\<close> of an \<open>int\<close>, \<open>to_u8\<close> the cast \<open>(uint8_t)x\<close>.
\<close>

definition to_i8 :: "int \<Rightarrow> i8" where
  "to_i8 x = word_of_int x"

definition to_u8 :: "int \<Rightarrow> u8" where
  "to_u8 x = word_of_int x"

definition bool_u8 :: "bool \<Rightarrow> u8" where
  "bool_u8 b = (if b then 1 else 0)"

text \<open>\<open>err < 0 ? 1 : err > 0 ? 2 : 0\<close> and \<open>(uint8_t)MIN(err < 0 ? -err : err, UINT8_MAX)\<close>.\<close>

definition err_class :: "int \<Rightarrow> u8" where
  "err_class err = (if err < 0 then 1 else if err > 0 then 2 else 0)"

definition err_abs_u8 :: "int \<Rightarrow> u8" where
  "err_abs_u8 err = to_u8 (min (if err < 0 then - err else err) 255)"

lemma unat_word_bound: "unat w < 2 ^ LENGTH('a)" for w :: "'a::len word"
  by (rule unsigned_less)

lemma unat_inc: "unat w < 2 ^ LENGTH('a) - 1 \<Longrightarrow> unat (w + 1) = unat w + 1"
  for w :: "'a::len word"
  by (simp add: unat_word_ariths)

lemma sint_to_i8 [cast_simps]: "- 128 \<le> x \<Longrightarrow> x < 128 \<Longrightarrow> sint (to_i8 x) = x"
  by (simp add: to_i8_def int_word_sint)

lemma uint_to_u8 [cast_simps]: "0 \<le> x \<Longrightarrow> x < 256 \<Longrightarrow> uint (to_u8 x) = x"
  by (simp add: to_u8_def uint_word_of_int)

lemma err_class_zero [simp]: "err_class err = 0 \<longleftrightarrow> err = 0"
  by (simp add: err_class_def)

lemma uint_err_abs_u8 [cast_simps]: "uint (err_abs_u8 err) = min \<bar>err\<bar> 255"
  by (simp add: err_abs_u8_def to_u8_def uint_word_of_int)

lemma err_abs_u8_zero [simp]: "err_abs_u8 err = 0 \<longleftrightarrow> err = 0"
proof -
  have "err_abs_u8 err = 0 \<longleftrightarrow> uint (err_abs_u8 err) = 0" by (simp add: uint_0_iff)
  then show ?thesis by (simp only: uint_err_abs_u8) auto
qed

text \<open>Byte \<open>k\<close> of a word, as \<open>(uint8_t)(v >> 8 * k)\<close>, and the words rebuilt from bytes.\<close>

definition byte_of :: "nat \<Rightarrow> 'a::len word \<Rightarrow> u8" where
  "byte_of k v = ucast (drop_bit (8 * k) v)"

definition le16 :: "u8 \<Rightarrow> u8 \<Rightarrow> u16" where
  "le16 lo hi = ucast lo OR push_bit 8 (ucast hi)"

definition le32 :: "u8 \<Rightarrow> u8 \<Rightarrow> u8 \<Rightarrow> u8 \<Rightarrow> u32" where
  "le32 a b c d =
     ucast a OR push_bit 8 (ucast b) OR push_bit 16 (ucast c) OR push_bit 24 (ucast d)"

definition bytes16 :: "u16 \<Rightarrow> u8 list" where
  "bytes16 v = [byte_of 0 v, byte_of 1 v]"

definition bytes32 :: "u32 \<Rightarrow> u8 list" where
  "bytes32 v = [byte_of 0 v, byte_of 1 v, byte_of 2 v, byte_of 3 v]"

lemma length_bytes [simp]: "length (bytes16 v) = 2" "length (bytes32 w) = 4"
  by (simp_all add: bytes16_def bytes32_def)

lemma le16_byte_of [simp]: "le16 (byte_of 0 v) (byte_of 1 v) = v" for v :: u16
  by (rule bit_word_eqI)
     (auto simp: le16_def byte_of_def bit_simps)

lemma le32_byte_of [simp]:
  "le32 (byte_of 0 v) (byte_of 1 v) (byte_of 2 v) (byte_of 3 v) = v" for v :: u32
proof (rule bit_word_eqI)
  fix n :: nat
  assume "n < LENGTH(32)"
  then consider "n < 8" | "8 \<le> n" "n < 16" | "16 \<le> n" "n < 24" | "24 \<le> n" "n < 32"
    by fastforce
  then show "bit (le32 (byte_of 0 v) (byte_of 1 v) (byte_of 2 v) (byte_of 3 v)) n = bit v n"
    by cases (auto simp: le32_def byte_of_def bit_simps)
qed

lemma bytes16_le16: "bytes16 (le16 a b) = [a, b]"
proof -
  have "byte_of 0 (le16 a b) = a" "byte_of 1 (le16 a b) = b"
    by (rule bit_word_eqI; auto simp: byte_of_def le16_def bit_simps dest: bit_imp_le_length)+
  then show ?thesis by (simp add: bytes16_def)
qed

lemma bytes32_le32: "bytes32 (le32 a b c d) = [a, b, c, d]"
proof -
  have "byte_of 0 (le32 a b c d) = a" "byte_of 1 (le32 a b c d) = b"
    "byte_of 2 (le32 a b c d) = c" "byte_of 3 (le32 a b c d) = d"
    by (rule bit_word_eqI; auto simp: byte_of_def le32_def bit_simps dest: bit_imp_le_length)+
  then show ?thesis by (simp add: bytes32_def)
qed

lemmas le_byte_of_Suc [simp] = le16_byte_of [unfolded One_nat_def] le32_byte_of [unfolded One_nat_def]

lemma drop_header: "length h = n \<Longrightarrow> drop (n + m) (h @ xs) = drop m xs"
  by simp

section \<open>Circular buffers over fixed arrays\<close>

text \<open>
  The sources keep queues in C arrays with a head index and a count. \<open>ring_slice buf start n\<close>
  is the loop \<open>out[i] = buf[(start + i) % CAP]\<close> for \<open>i < n\<close>.
\<close>

definition ring_slice :: "'a list \<Rightarrow> nat \<Rightarrow> nat \<Rightarrow> 'a list" where
  "ring_slice buf start n = map (\<lambda>i. buf ! ((start + i) mod length buf)) [0..<n]"

definition lastn :: "nat \<Rightarrow> 'a list \<Rightarrow> 'a list" where
  "lastn k xs = drop (length xs - k) xs"

lemma length_ring_slice [simp]: "length (ring_slice buf start n) = n"
  by (simp add: ring_slice_def)

lemma nth_ring_slice [simp]:
  "i < n \<Longrightarrow> ring_slice buf start n ! i = buf ! ((start + i) mod length buf)"
  by (simp add: ring_slice_def)

lemma ring_slice_0 [simp]: "ring_slice buf start 0 = []"
  by (simp add: ring_slice_def)

lemma mod_shift_neq:
  fixes s :: nat
  assumes "i < j" and "j < c"
  shows "(s + i) mod c \<noteq> (s + j) mod c"
proof
  assume "(s + i) mod c = (s + j) mod c"
  then have "c dvd (s + j) - (s + i)"
    using mod_eq_dvd_iff_nat [of "s + i" "s + j" c] assms by simp
  then have "c dvd j - i" by simp
  with assms show False by (auto dest: dvd_imp_le)
qed

lemma ring_slice_put:
  assumes "n < length buf"
  shows "ring_slice (buf[(start + n) mod length buf := x]) start (Suc n) = ring_slice buf start n @ [x]"
proof (rule nth_equalityI)
  fix i
  assume "i < length (ring_slice (buf[(start + n) mod length buf := x]) start (Suc n))"
  then have "i < Suc n" by simp
  have pos: "(start + n) mod length buf < length buf" using assms by (intro mod_less_divisor) linarith
  show "ring_slice (buf[(start + n) mod length buf := x]) start (Suc n) ! i
      = (ring_slice buf start n @ [x]) ! i"
  proof (cases "i = n")
    case True
    with pos show ?thesis by (simp add: nth_append)
  next
    case False
    with \<open>i < Suc n\<close> have "i < n" by simp
    with assms have "(start + i) mod length buf \<noteq> (start + n) mod length buf"
      by (intro mod_shift_neq)
    with \<open>i < n\<close> show ?thesis by (simp add: nth_append)
  qed
qed simp

lemma ring_slice_get:
  "ring_slice buf ((start + 1) mod length buf) n = tl (ring_slice buf start (Suc n))"
  by (rule nth_equalityI) (simp_all add: nth_tl mod_add_left_eq)

lemma ring_slice_hd: "ring_slice buf start (Suc n) = buf ! (start mod length buf) # tl (ring_slice buf start (Suc n))"
  by (simp add: ring_slice_def upt_conv_Cons del: upt_Suc)

lemma length_lastn [simp]: "length (lastn k xs) = min k (length xs)"
  by (simp add: lastn_def)

lemma lastn_0 [simp]: "lastn 0 xs = []"
  by (simp add: lastn_def)

lemma lastn_all [simp]: "length xs \<le> k \<Longrightarrow> lastn k xs = xs"
  by (simp add: lastn_def)

lemma lastn_append_lastn: "lastn k (lastn k xs @ ys) = lastn k (xs @ ys)"
  by (cases "length xs \<le> k") (simp_all add: lastn_def add.commute)

lemma lastn_append_long: "k \<le> length ys \<Longrightarrow> lastn k (xs @ ys) = lastn k ys"
  by (simp add: lastn_def)

lemma lastn_append_short:
  "length ys \<le> k \<Longrightarrow> lastn k (xs @ ys) = lastn (k - length ys) xs @ ys"
  by (auto simp: lastn_def)

lemma set_lastn: "set (lastn k xs) \<subseteq> set xs"
  by (simp add: lastn_def set_drop_subset)

lemma sorted_lastn: "sorted xs \<Longrightarrow> sorted (lastn k xs)"
  by (simp add: lastn_def sorted_wrt_drop)

text \<open>
  A buffer that overwrites its oldest entry: \<open>head\<close> is the next slot to write, \<open>n\<close> entries are
  live, and the code reads them oldest first from \<open>(head + CAP - n) % CAP\<close>.
\<close>

definition ring_ordered :: "'a list \<Rightarrow> nat \<Rightarrow> nat \<Rightarrow> 'a list" where
  "ring_ordered buf head n = ring_slice buf ((head + length buf - n) mod length buf) n"

lemma length_ring_ordered [simp]: "length (ring_ordered buf head n) = n"
  by (simp add: ring_ordered_def)

lemma ring_ordered_0 [simp]: "ring_ordered buf head 0 = []"
  by (simp add: ring_ordered_def)

lemma nth_ring_ordered:
  assumes "i < n" and "n \<le> length buf"
  shows "ring_ordered buf head n ! i = buf ! ((head + length buf - n + i) mod length buf)"
  using assms by (simp add: ring_ordered_def mod_add_left_eq)

lemma ring_ordered_push:
  assumes "head < length buf" and "n \<le> length buf"
  shows "ring_ordered (buf[head := x]) ((head + 1) mod length buf) (if n < length buf then n + 1 else n)
       = lastn (length buf) (ring_ordered buf head n @ [x])"
proof (cases "n < length buf")
  case True
  let ?c = "length buf" and ?st = "(head + length buf - n) mod length buf"
  have "(?st + n) mod ?c = (head + ?c - n + n) mod ?c" by (rule mod_add_left_eq)
  also have "\<dots> = head" using assms True by simp
  finally have pos: "(?st + n) mod ?c = head" .
  have "((head + 1) mod ?c + ?c - (n + 1)) mod ?c = ((head + 1) mod ?c + (?c - (n + 1))) mod ?c"
    using True by simp
  also have "\<dots> = (head + 1 + (?c - (n + 1))) mod ?c" by (rule mod_add_left_eq)
  also have "head + 1 + (?c - (n + 1)) = head + ?c - n" using True by simp
  finally have st: "((head + 1) mod ?c + ?c - (n + 1)) mod ?c = ?st" .
  have "ring_slice (buf[head := x]) ?st (Suc n) = ring_slice buf ?st n @ [x]"
    using ring_slice_put [OF True, of ?st x] by (simp add: pos)
  with True st show ?thesis by (simp add: ring_ordered_def)
next
  case False
  with assms have n: "n = length buf" by simp
  let ?c = "length buf"
  from assms n obtain m where m: "?c = Suc m" by (cases buf) auto
  have full: "ring_ordered buf head n = ring_slice buf head ?c"
    using assms n by (simp add: ring_ordered_def)
  have st: "((head + 1) mod ?c + ?c - n) mod ?c = (head + 1) mod ?c" using n by simp
  have "((head + 1) mod ?c + m) mod ?c = (head + 1 + m) mod ?c" by (rule mod_add_left_eq)
  also have "head + 1 + m = head + ?c" using m by simp
  also have "(head + ?c) mod ?c = head" using assms by simp
  finally have last: "((head + 1) mod ?c + m) mod ?c = head" .
  have "ring_slice (buf[((head + 1) mod ?c + m) mod ?c := x]) ((head + 1) mod ?c) (Suc m)
      = ring_slice buf ((head + 1) mod ?c) m @ [x]"
    by (rule ring_slice_put) (simp add: m)
  also have "ring_slice buf ((head + 1) mod ?c) m = tl (ring_slice buf head ?c)"
    by (subst m) (rule ring_slice_get)
  finally have "ring_slice (buf[head := x]) ((head + 1) mod ?c) ?c = tl (ring_slice buf head ?c) @ [x]"
    using m last by simp
  with False n st full m show ?thesis
    by (simp add: ring_ordered_def lastn_def drop_Suc)
qed

section \<open>Interfaces\<close>

subsection \<open>Logs that keep the newest entries\<close>

locale bounded_log =
  fixes push :: "'x \<Rightarrow> 's \<Rightarrow> 's"
    and entry :: "'x \<Rightarrow> 'e"
    and contents :: "'s \<Rightarrow> 'e list"
    and cap :: nat
    and invar :: "'s \<Rightarrow> bool"
  assumes push_invar: "invar s \<Longrightarrow> invar (push x s)"
    and push_contents: "invar s \<Longrightarrow> contents (push x s) = lastn cap (contents s @ [entry x])"
    and contents_bound: "invar s \<Longrightarrow> length (contents s) \<le> cap"
begin

lemma pushes_invar: "invar s \<Longrightarrow> invar (fold push xs s)"
  by (induction xs arbitrary: s) (auto intro: push_invar)

lemma pushes_contents:
  "invar s \<Longrightarrow> contents (fold push xs s) = lastn cap (contents s @ map entry xs)"
proof (induction xs arbitrary: s)
  case Nil
  then show ?case by (simp add: contents_bound)
next
  case (Cons x xs)
  then have "contents (fold push (x # xs) s) = lastn cap (contents (push x s) @ map entry xs)"
    by (simp add: push_invar)
  also have "\<dots> = lastn cap ((contents s @ [entry x]) @ map entry xs)"
    using Cons.prems by (simp only: push_contents lastn_append_lastn)
  finally show ?case by simp
qed

lemma newest_kept:
  assumes "invar s" and "length xs \<le> cap"
  shows "\<exists>older. contents (fold push xs s) = older @ map entry xs"
  using assms by (auto simp: pushes_contents lastn_append_short)

end

subsection \<open>Queues that refuse what does not fit\<close>

locale bounded_fifo =
  fixes put :: "'e \<Rightarrow> 's \<Rightarrow> 's"
    and contents :: "'s \<Rightarrow> 'e list"
    and refused :: "'s \<Rightarrow> nat"
    and cap :: nat
    and refused_max :: nat
    and invar :: "'s \<Rightarrow> bool"
  assumes put_invar: "invar s \<Longrightarrow> invar (put x s)"
    and contents_bound: "invar s \<Longrightarrow> length (contents s) \<le> cap"
    and put_room: "invar s \<Longrightarrow> length (contents s) < cap \<Longrightarrow>
      contents (put x s) = contents s @ [x] \<and> refused (put x s) = refused s"
    and put_full: "invar s \<Longrightarrow> length (contents s) = cap \<Longrightarrow>
      contents (put x s) = contents s \<and> refused (put x s) = min refused_max (refused s + 1)"
    and refused_bound: "invar s \<Longrightarrow> refused s \<le> refused_max"
begin

lemma puts_invar: "invar s \<Longrightarrow> invar (fold put xs s)"
  by (induction xs arbitrary: s) (auto intro: put_invar)

lemma puts_contents: "invar s \<Longrightarrow> contents (fold put xs s) = take cap (contents s @ xs)"
proof (induction xs arbitrary: s)
  case Nil
  then show ?case by (simp add: contents_bound)
next
  case (Cons x xs)
  then have IH: "contents (fold put (x # xs) s) = take cap (contents (put x s) @ xs)"
    by (simp add: put_invar)
  show ?case
  proof (cases "length (contents s) < cap")
    case True
    with IH Cons.prems put_room show ?thesis by simp
  next
    case False
    with Cons.prems contents_bound have "length (contents s) = cap" by (metis le_neq_implies_less)
    with IH Cons.prems put_full show ?thesis by simp
  qed
qed

lemma puts_refused:
  "invar s \<Longrightarrow> refused (fold put xs s)
     = min refused_max (refused s + (length (contents s) + length xs - cap))"
proof (induction xs arbitrary: s)
  case Nil
  then show ?case using refused_bound contents_bound by simp
next
  case (Cons x xs)
  then have IH: "refused (fold put (x # xs) s)
      = min refused_max (refused (put x s) + (length (contents (put x s)) + length xs - cap))"
    by (simp add: put_invar)
  show ?case
  proof (cases "length (contents s) < cap")
    case True
    with IH Cons.prems put_room show ?thesis by simp
  next
    case False
    with Cons.prems contents_bound have "length (contents s) = cap" by (metis le_neq_implies_less)
    with IH Cons.prems put_full show ?thesis by simp
  qed
qed

end

subsection \<open>Records protected by magic number and checksum\<close>

definition accept :: "('r \<Rightarrow> bool) \<Rightarrow> ('r \<Rightarrow> 'p) \<Rightarrow> 'r \<Rightarrow> 'p option" where
  "accept valid payload r = (if valid r then Some (payload r) else None)"

locale sealed_store =
  fixes seal :: "'r \<Rightarrow> 'r"
    and valid :: "'r \<Rightarrow> bool"
    and payload :: "'r \<Rightarrow> 'p"
  assumes seal_valid: "valid (seal r)"
    and seal_payload: "payload (seal r) = payload r"
begin

lemma accept_seal: "accept valid payload (seal r) = Some (payload r)"
  by (simp add: accept_def seal_valid seal_payload)

end

subsection \<open>Actions with a minimum gap\<close>

text \<open>
  \<open>fire_times\<close> lists the times at which a run performs the action; the locale's contract is that
  the code consults a not-before time and pushes it forward by \<open>gap\<close> when it acts.
\<close>

primrec fire_times ::
  "('e \<Rightarrow> 's \<Rightarrow> 's) \<Rightarrow> ('e \<Rightarrow> int) \<Rightarrow> ('e \<Rightarrow> 's \<Rightarrow> bool) \<Rightarrow> 'e list \<Rightarrow> 's \<Rightarrow> int list" where
  "fire_times step time fires [] s = []"
| "fire_times step time fires (e # es) s =
     (if fires e s then time e # fire_times step time fires es (step e s)
      else fire_times step time fires es (step e s))"

locale rate_limited =
  fixes step :: "'e \<Rightarrow> 's \<Rightarrow> 's"
    and time :: "'e \<Rightarrow> int"
    and fires :: "'e \<Rightarrow> 's \<Rightarrow> bool"
    and not_before :: "'s \<Rightarrow> int"
    and gap :: int
    and admissible :: "'e \<Rightarrow> bool"
    and invar :: "'s \<Rightarrow> bool"
  assumes fires_late: "admissible e \<Longrightarrow> invar s \<Longrightarrow> fires e s \<Longrightarrow> not_before s \<le> time e"
    and fires_push: "admissible e \<Longrightarrow> invar s \<Longrightarrow> fires e s \<Longrightarrow> time e + gap \<le> not_before (step e s)"
    and quiet_keeps: "admissible e \<Longrightarrow> invar s \<Longrightarrow> \<not> fires e s \<Longrightarrow> not_before s \<le> not_before (step e s)"
    and gap_nonneg: "admissible e \<Longrightarrow> 0 \<le> gap"
    and step_invar: "admissible e \<Longrightarrow> invar s \<Longrightarrow> invar (step e s)"
begin

lemma fire_times_late:
  "list_all admissible es \<Longrightarrow> invar s \<Longrightarrow> t \<in> set (fire_times step time fires es s) \<Longrightarrow> not_before s \<le> t"
proof (induction es arbitrary: s)
  case Nil
  then show ?case by simp
next
  case (Cons e es)
  have adm: "admissible e" "list_all admissible es" using Cons.prems(1) by simp_all
  note IH = Cons.IH [OF adm(2) step_invar [OF adm(1) Cons.prems(2)]]
  show ?case
  proof (cases "fires e s")
    case True
    with adm Cons.prems(2) have "not_before s \<le> time e" "time e + gap \<le> not_before (step e s)"
      by (simp_all add: fires_late fires_push)
    with True Cons.prems(3) IH gap_nonneg [OF adm(1)] show ?thesis by auto
  next
    case False
    with adm Cons.prems(2) have "not_before s \<le> not_before (step e s)" by (simp add: quiet_keeps)
    with False Cons.prems(3) IH show ?thesis by auto
  qed
qed

lemma fire_times_spaced:
  "list_all admissible es \<Longrightarrow> invar s \<Longrightarrow> sorted_wrt (\<lambda>a b. a + gap \<le> b) (fire_times step time fires es s)"
proof (induction es arbitrary: s)
  case Nil
  then show ?case by simp
next
  case (Cons e es)
  have adm: "admissible e" "list_all admissible es" using Cons.prems by simp_all
  note inv = step_invar [OF adm(1) Cons.prems(2)]
  have "time e + gap \<le> t" if "fires e s" "t \<in> set (fire_times step time fires es (step e s))" for t
    using fires_push [OF adm(1) Cons.prems(2) that(1)] fire_times_late [OF adm(2) inv that(2)] by simp
  with Cons.IH [OF adm(2) inv] show ?case by simp
qed

end

subsection \<open>One-shot events\<close>

text \<open>
  A bit that lets an event through once: the event needs the bit clear and sets it, and only a
  reset clears it.
\<close>

locale one_shot =
  fixes step :: "'e \<Rightarrow> 's \<Rightarrow> 's"
    and fires :: "'e \<Rightarrow> 's \<Rightarrow> bool"
    and resets :: "'e \<Rightarrow> bool"
    and latched :: "'s \<Rightarrow> bool"
    and invar :: "'s \<Rightarrow> bool"
  assumes fires_clear: "invar s \<Longrightarrow> fires e s \<Longrightarrow> \<not> latched s"
    and fires_latch: "invar s \<Longrightarrow> fires e s \<Longrightarrow> latched (step e s)"
    and latch_keeps: "invar s \<Longrightarrow> latched s \<Longrightarrow> \<not> resets e \<Longrightarrow> latched (step e s)"
    and step_invar: "invar s \<Longrightarrow> invar (step e s)"
begin

lemma latched_silent:
  "invar s \<Longrightarrow> latched s \<Longrightarrow> list_all (\<lambda>e. \<not> resets e) es \<Longrightarrow> fire_times step time fires es s = []"
proof (induction es arbitrary: s)
  case Nil
  then show ?case by simp
next
  case (Cons e es)
  then show ?case
    using Cons.IH [OF step_invar [OF Cons.prems(1)], of e] fires_clear [OF Cons.prems(1), of e]
      latch_keeps [OF Cons.prems(1,2), of e] by auto
qed

lemma fires_once:
  "invar s \<Longrightarrow> list_all (\<lambda>e. \<not> resets e) es \<Longrightarrow> length (fire_times step time fires es s) \<le> 1"
proof (induction es arbitrary: s)
  case Nil
  then show ?case by simp
next
  case (Cons e es)
  then show ?case
    using Cons.IH [OF step_invar [OF Cons.prems(1)], of e]
      latched_silent [OF step_invar [OF Cons.prems(1)] fires_latch [OF Cons.prems(1)], of e es time] by auto
qed

end

subsection \<open>Saturating counters\<close>

text \<open>
  A counter that stops at \<open>max\<close> instead of wrapping; each step adds its weight.
\<close>

locale saturating_counter =
  fixes step :: "'e \<Rightarrow> 's \<Rightarrow> 's"
    and counter :: "'s \<Rightarrow> nat"
    and weight :: "'e \<Rightarrow> nat"
    and max :: nat
    and invar :: "'s \<Rightarrow> bool"
  assumes step_invar: "invar s \<Longrightarrow> invar (step e s)"
    and step_counts: "invar s \<Longrightarrow> counter (step e s) = min max (counter s + weight e)"
    and counter_bound: "invar s \<Longrightarrow> counter s \<le> max"
begin

lemma steps_invar: "invar s \<Longrightarrow> invar (fold step es s)"
  by (induction es arbitrary: s) (auto intro: step_invar)

lemma steps_count: "invar s \<Longrightarrow> counter (fold step es s) = min max (counter s + sum_list (map weight es))"
proof (induction es arbitrary: s)
  case Nil
  then show ?case by (simp add: counter_bound)
next
  case (Cons e es)
  from Cons.IH [OF step_invar [OF Cons.prems, of e]] step_counts [OF Cons.prems, of e]
  show ?case by simp
qed

end

subsection \<open>Passive observers\<close>

text \<open>
  The diagnostics replace functions of the Bluetooth stack at link time (\<open>-Wl,--wrap\<close>). A
  wrapper runs on the observer's state \<open>'d\<close> and the observed world \<open>'w\<close>; it is passive when the
  result and the world are those of the real function alone, called once with the same argument.
\<close>

primrec call_seq :: "('a \<Rightarrow> 'w \<Rightarrow> 'r \<times> 'w) \<Rightarrow> 'a list \<Rightarrow> 'w \<Rightarrow> 'r list \<times> 'w" where
  "call_seq f [] w = ([], w)"
| "call_seq f (a # as) w =
     (let (r, w') = f a w; (rs, w'') = call_seq f as w' in (r # rs, w''))"

text \<open>Over any sequence of calls the caller and the world see the real function.\<close>

definition transparent :: "('a \<Rightarrow> 'w \<Rightarrow> 'r \<times> 'w) \<Rightarrow> ('a \<Rightarrow> 'd \<times> 'w \<Rightarrow> 'r \<times> ('d \<times> 'w)) \<Rightarrow> bool" where
  "transparent real wrap \<longleftrightarrow>
     (\<forall>as d w. (case call_seq wrap as (d, w) of (rs, d', w') \<Rightarrow> (rs, w')) = call_seq real as w)"

locale passive_observer =
  fixes real :: "'a \<Rightarrow> 'w \<Rightarrow> 'r \<times> 'w"
    and wrap :: "'a \<Rightarrow> 'd \<times> 'w \<Rightarrow> 'r \<times> ('d \<times> 'w)"
  assumes wrap_passive: "(fst (wrap a (d, w)), snd (snd (wrap a (d, w)))) = real a w"
begin

lemma wrap_result: "fst (wrap a (d, w)) = fst (real a w)"
  using wrap_passive [of a d w] by (metis fst_conv)

lemma wrap_world: "snd (snd (wrap a (d, w))) = snd (real a w)"
  using wrap_passive [of a d w] by (metis snd_conv)

lemma call_seq_passive:
  "fst (call_seq wrap as (d, w)) = fst (call_seq real as w)
   \<and> snd (snd (call_seq wrap as (d, w))) = snd (call_seq real as w)"
proof (induction as arbitrary: d w)
  case Nil
  then show ?case by simp
next
  case (Cons a as)
  obtain r d' w' where wrap: "wrap a (d, w) = (r, d', w')" by (metis prod.exhaust)
  with wrap_result [of a d w] wrap_world [of a d w] have "real a w = (r, w')"
    by (simp add: prod_eq_iff)
  with wrap Cons.IH [of d' w'] show ?case by (simp add: case_prod_beta)
qed

lemma wrap_transparent: "transparent real wrap"
  using call_seq_passive by (simp add: transparent_def case_prod_beta prod_eq_iff)

end

end
