(* ===== verification/Platform.thy ===== *)
theory Platform
  imports Prelude
begin

text \<open>
  The vocabulary the components share: the event kinds of
  \<open>include/totem_host_event_log.h\<close>, the options of \<open>Kconfig\<close> the code is compiled with, and
  what the code sees of ZMK and Zephyr. The Bluetooth stack, the endpoint selection and the
  clock are not part of this repository; a handler receives the values its calls return as
  fields of a record (\<open>ble_env\<close>), and the functions it calls with an effect outside
  the repository are fields of that record or arguments of the definition.
\<close>

section \<open>Event kinds\<close>

datatype totem_host_evt =
    TOTEM_HEVT_NONE | TOTEM_HEVT_DISC | TOTEM_HEVT_CONN
  | TOTEM_HEVT_CONN_FAIL | TOTEM_HEVT_SEC_OK | TOTEM_HEVT_SEC_FAIL
  | TOTEM_HEVT_BG_EVICT | TOTEM_HEVT_ACTIVE_DOWN_ARM | TOTEM_HEVT_WATCH_ARM
  | TOTEM_HEVT_WATCH_STEP | TOTEM_HEVT_PROFILE_CHANGED | TOTEM_HEVT_IDENTITY
  | TOTEM_HEVT_CLASS_A_SUSPECT | TOTEM_HEVT_THRASH_WIN | TOTEM_HEVT_BOOT
  | TOTEM_HEVT_FAULT | TOTEM_HEVT_USB | TOTEM_HEVT_ADV
  | TOTEM_HEVT_SPLIT | TOTEM_HEVT_REPEAT | TOTEM_HEVT_HID_SUBSCRIBED
  | TOTEM_HEVT_HID_FIRST_ATTEMPT | TOTEM_HEVT_HID_TX_RESULT | TOTEM_HEVT_ADV_RESULT
  | TOTEM_HEVT_SEC_REQUEST | TOTEM_HEVT_SEC_REQUEST_RESULT | TOTEM_HEVT_FLASH_BEGIN
  | TOTEM_HEVT_FLASH_END | TOTEM_HEVT_HCI_DISC | TOTEM_HEVT_CONN_HANDLE
  | TOTEM_HEVT_TIMING_DROPPED | TOTEM_HEVT_HID_COUNT | TOTEM_HEVT_HID_ERROR
  | TOTEM_HEVT_HANDOFF_PARAM | TOTEM_HEVT_HANDOFF_TERM | TOTEM_HEVT_HANDOFF_RADIO
  | TOTEM_HEVT_ENCRYPT_EVENT | TOTEM_HEVT_SECURITY_TIMING | TOTEM_HEVT_SECURITY_EXCHANGE
  | TOTEM_HEVT_HANDOFF_TX | TOTEM_HEVT_BOOT_RAW | TOTEM_HEVT_BOOT_READ_RESULT
  | TOTEM_HEVT_BOOT_FAULT_STATUS | TOTEM_HEVT_BOOT_COUNTER | TOTEM_HEVT_BOOT_PREVIOUS_UPTIME
  | TOTEM_HEVT_BOOT_PREVIOUS_STATE | TOTEM_HEVT_BOOT_RAM_STATUS | TOTEM_HEVT_HEARTBEAT

text \<open>The numeric identifiers stored in the journal.\<close>

primrec hevt_num :: "totem_host_evt \<Rightarrow> u8" where
  "hevt_num TOTEM_HEVT_NONE = 0"
| "hevt_num TOTEM_HEVT_DISC = 1"
| "hevt_num TOTEM_HEVT_CONN = 2"
| "hevt_num TOTEM_HEVT_CONN_FAIL = 3"
| "hevt_num TOTEM_HEVT_SEC_OK = 4"
| "hevt_num TOTEM_HEVT_SEC_FAIL = 5"
| "hevt_num TOTEM_HEVT_BG_EVICT = 6"
| "hevt_num TOTEM_HEVT_ACTIVE_DOWN_ARM = 7"
| "hevt_num TOTEM_HEVT_WATCH_ARM = 8"
| "hevt_num TOTEM_HEVT_WATCH_STEP = 9"
| "hevt_num TOTEM_HEVT_PROFILE_CHANGED = 10"
| "hevt_num TOTEM_HEVT_IDENTITY = 11"
| "hevt_num TOTEM_HEVT_CLASS_A_SUSPECT = 12"
| "hevt_num TOTEM_HEVT_THRASH_WIN = 13"
| "hevt_num TOTEM_HEVT_BOOT = 14"
| "hevt_num TOTEM_HEVT_FAULT = 15"
| "hevt_num TOTEM_HEVT_USB = 16"
| "hevt_num TOTEM_HEVT_ADV = 17"
| "hevt_num TOTEM_HEVT_SPLIT = 18"
| "hevt_num TOTEM_HEVT_REPEAT = 19"
| "hevt_num TOTEM_HEVT_HID_SUBSCRIBED = 20"
| "hevt_num TOTEM_HEVT_HID_FIRST_ATTEMPT = 21"
| "hevt_num TOTEM_HEVT_HID_TX_RESULT = 22"
| "hevt_num TOTEM_HEVT_ADV_RESULT = 23"
| "hevt_num TOTEM_HEVT_SEC_REQUEST = 24"
| "hevt_num TOTEM_HEVT_SEC_REQUEST_RESULT = 25"
| "hevt_num TOTEM_HEVT_FLASH_BEGIN = 26"
| "hevt_num TOTEM_HEVT_FLASH_END = 27"
| "hevt_num TOTEM_HEVT_HCI_DISC = 28"
| "hevt_num TOTEM_HEVT_CONN_HANDLE = 29"
| "hevt_num TOTEM_HEVT_TIMING_DROPPED = 30"
| "hevt_num TOTEM_HEVT_HID_COUNT = 31"
| "hevt_num TOTEM_HEVT_HID_ERROR = 32"
| "hevt_num TOTEM_HEVT_HANDOFF_PARAM = 33"
| "hevt_num TOTEM_HEVT_HANDOFF_TERM = 34"
| "hevt_num TOTEM_HEVT_HANDOFF_RADIO = 35"
| "hevt_num TOTEM_HEVT_ENCRYPT_EVENT = 36"
| "hevt_num TOTEM_HEVT_SECURITY_TIMING = 37"
| "hevt_num TOTEM_HEVT_SECURITY_EXCHANGE = 38"
| "hevt_num TOTEM_HEVT_HANDOFF_TX = 39"
| "hevt_num TOTEM_HEVT_BOOT_RAW = 40"
| "hevt_num TOTEM_HEVT_BOOT_READ_RESULT = 41"
| "hevt_num TOTEM_HEVT_BOOT_FAULT_STATUS = 42"
| "hevt_num TOTEM_HEVT_BOOT_COUNTER = 43"
| "hevt_num TOTEM_HEVT_BOOT_PREVIOUS_UPTIME = 44"
| "hevt_num TOTEM_HEVT_BOOT_PREVIOUS_STATE = 45"
| "hevt_num TOTEM_HEVT_BOOT_RAM_STATUS = 46"
| "hevt_num TOTEM_HEVT_HEARTBEAT = 47"

section \<open>Build configuration\<close>

text \<open>
  One field per \<open>CONFIG_*\<close> option (and per constant of ZMK's configuration) that the modelled
  code reads.
\<close>

record totem_config =
  ZMK_BLE_PROFILE_COUNT :: nat
  CONFIG_BT_MAX_CONN :: nat
  CONFIG_SETTINGS :: bool
  CONFIG_ZMK_USB :: bool
  RING_CAP :: nat
  BLOCK_EVENTS :: nat
  JOURNAL_SLOTS :: nat
  PERSIST_EVERY :: nat
  PERSIST_MIN_INTERVAL_MS :: int
  CONFIG_TOTEM_THRASH_DETECT :: bool
  CONFIG_TOTEM_THRASH_WINDOW_SEC :: int
  CONFIG_TOTEM_BG_EVICT_IGNORE_MS :: int
  CONFIG_TOTEM_BG_EVICT_CAP :: nat
  CONFIG_TOTEM_EVICT_REQUIRES_BONDED_ACTIVE :: bool
  CONFIG_TOTEM_BOND_HEAL :: bool
  CONFIG_TOTEM_BOND_HEAL_THRESHOLD :: nat
  EVICT_DISCONNECT_REASON :: u8
  CONFIG_TOTEM_RECONNECT_WATCH_SEC :: int
  CONFIG_TOTEM_RECONNECT_WATCH_ON_ACTIVE_DOWN :: bool
  CONFIG_ZMK_BLE_ADV_BOOST :: bool
  CONFIG_ZMK_BLE_ADV_BOOST_SEC :: int
  CONFIG_TOTEM_STUDIO_CONSOLE :: bool
  CONFIG_TOTEM_FAULT_CAPTURE :: bool
  CONFIG_ZMK_STUDIO_LOG_FAULT_CAPTURE :: bool
  CONFIG_ZMK_STUDIO_LOG_RESET_REASON :: bool
  CONFIG_TOTEM_RESET_REASON_CAPTURE :: bool
  CONFIG_HWINFO :: bool
  CONFIG_SOC_NRF52840 :: bool
  CONFIG_TOTEM_WATCHDOG :: bool
  CONFIG_TOTEM_WATCHDOG_TIMEOUT_MS :: int
  CONFIG_TOTEM_BOOT_PROFILE_DUMP :: bool
  CONFIG_TOTEM_BOOT_PROFILE_DUMP_DELAY_MS :: int
  CONFIG_TOTEM_BATTERY_LOG_INTERVAL_SEC :: int
  CONFIG_TOTEM_DIAG_HEARTBEAT_MIN :: int
  CONFIG_BT_PERIPHERAL_PREF_MIN_INT :: u16
  CONFIG_BT_PERIPHERAL_PREF_MAX_INT :: u16
  CONFIG_TOTEM_LAZY_HOST_MIN_INT :: u16
  CONFIG_TOTEM_LAZY_HOST_MAX_INT :: u16
  CONFIG_TOTEM_LAZY_HOST_LATENCY :: u16
  CONFIG_TOTEM_LAZY_HOST_TIMEOUT :: u16

text \<open>The \<open>range\<close> lines of \<open>Kconfig\<close>; array lengths are positive.\<close>

definition kconfig_ok :: "totem_config \<Rightarrow> bool" where
  "kconfig_ok c \<longleftrightarrow>
     0 < ZMK_BLE_PROFILE_COUNT c \<and> ZMK_BLE_PROFILE_COUNT c \<le> 127
   \<and> 32 \<le> RING_CAP c \<and> RING_CAP c \<le> 1024
   \<and> 8 \<le> BLOCK_EVENTS c \<and> BLOCK_EVENTS c \<le> 32
   \<and> 4 \<le> JOURNAL_SLOTS c \<and> JOURNAL_SLOTS c \<le> 8
   \<and> 1 \<le> PERSIST_EVERY c \<and> PERSIST_EVERY c \<le> 128
   \<and> 5000 \<le> PERSIST_MIN_INTERVAL_MS c \<and> PERSIST_MIN_INTERVAL_MS c \<le> 600000
   \<and> 3 \<le> CONFIG_TOTEM_THRASH_WINDOW_SEC c \<and> CONFIG_TOTEM_THRASH_WINDOW_SEC c \<le> 60
   \<and> 0 \<le> CONFIG_TOTEM_BG_EVICT_IGNORE_MS c \<and> CONFIG_TOTEM_BG_EVICT_IGNORE_MS c \<le> 60000
   \<and> 1 \<le> CONFIG_TOTEM_BG_EVICT_CAP c \<and> CONFIG_TOTEM_BG_EVICT_CAP c \<le> 16
   \<and> 2 \<le> CONFIG_TOTEM_BOND_HEAL_THRESHOLD c \<and> CONFIG_TOTEM_BOND_HEAL_THRESHOLD c \<le> 10
   \<and> 4 \<le> CONFIG_TOTEM_RECONNECT_WATCH_SEC c \<and> CONFIG_TOTEM_RECONNECT_WATCH_SEC c \<le> 30
   \<and> 2000 \<le> CONFIG_TOTEM_WATCHDOG_TIMEOUT_MS c \<and> CONFIG_TOTEM_WATCHDOG_TIMEOUT_MS c \<le> 60000
   \<and> 500 \<le> CONFIG_TOTEM_BOOT_PROFILE_DUMP_DELAY_MS c \<and> CONFIG_TOTEM_BOOT_PROFILE_DUMP_DELAY_MS c \<le> 30000
   \<and> 30 \<le> CONFIG_TOTEM_BATTERY_LOG_INTERVAL_SEC c \<and> CONFIG_TOTEM_BATTERY_LOG_INTERVAL_SEC c \<le> 3600
   \<and> 0 \<le> CONFIG_TOTEM_DIAG_HEARTBEAT_MIN c \<and> CONFIG_TOTEM_DIAG_HEARTBEAT_MIN c \<le> 1440
   \<and> 24 \<le> CONFIG_TOTEM_LAZY_HOST_MIN_INT c \<and> CONFIG_TOTEM_LAZY_HOST_MIN_INT c \<le> 320
   \<and> 24 \<le> CONFIG_TOTEM_LAZY_HOST_MAX_INT c \<and> CONFIG_TOTEM_LAZY_HOST_MAX_INT c \<le> 320
   \<and> CONFIG_TOTEM_LAZY_HOST_LATENCY c \<le> 30
   \<and> 100 \<le> CONFIG_TOTEM_LAZY_HOST_TIMEOUT c \<and> CONFIG_TOTEM_LAZY_HOST_TIMEOUT c \<le> 3200"

text \<open>
  The left half's production image: \<open>config/totem.conf\<close>, \<open>config/totem_left.conf\<close> and the snippet
  \<open>totem-studio-rpc\<close>; options these leave out have their \<open>Kconfig\<close> defaults.
\<close>

definition totem_left_config :: totem_config where
  "totem_left_config = \<lparr>
     ZMK_BLE_PROFILE_COUNT = 5, CONFIG_BT_MAX_CONN = 6,
     CONFIG_SETTINGS = True, CONFIG_ZMK_USB = True,
     RING_CAP = 1024, BLOCK_EVENTS = 16, JOURNAL_SLOTS = 8, PERSIST_EVERY = 64,
     PERSIST_MIN_INTERVAL_MS = 300000,
     CONFIG_TOTEM_THRASH_DETECT = True, CONFIG_TOTEM_THRASH_WINDOW_SEC = 10,
     CONFIG_TOTEM_BG_EVICT_IGNORE_MS = 10000, CONFIG_TOTEM_BG_EVICT_CAP = 4,
     CONFIG_TOTEM_EVICT_REQUIRES_BONDED_ACTIVE = True,
     CONFIG_TOTEM_BOND_HEAL = False, CONFIG_TOTEM_BOND_HEAL_THRESHOLD = 3,
     EVICT_DISCONNECT_REASON = 0x13,
     CONFIG_TOTEM_RECONNECT_WATCH_SEC = 8,
     CONFIG_TOTEM_RECONNECT_WATCH_ON_ACTIVE_DOWN = True,
     CONFIG_ZMK_BLE_ADV_BOOST = True, CONFIG_ZMK_BLE_ADV_BOOST_SEC = 20,
     CONFIG_TOTEM_STUDIO_CONSOLE = True, CONFIG_TOTEM_FAULT_CAPTURE = True,
     CONFIG_ZMK_STUDIO_LOG_FAULT_CAPTURE = True, CONFIG_ZMK_STUDIO_LOG_RESET_REASON = True,
     CONFIG_TOTEM_RESET_REASON_CAPTURE = True, CONFIG_HWINFO = True, CONFIG_SOC_NRF52840 = True,
     CONFIG_TOTEM_WATCHDOG = False, CONFIG_TOTEM_WATCHDOG_TIMEOUT_MS = 10000,
     CONFIG_TOTEM_BOOT_PROFILE_DUMP = True, CONFIG_TOTEM_BOOT_PROFILE_DUMP_DELAY_MS = 4000,
     CONFIG_TOTEM_BATTERY_LOG_INTERVAL_SEC = 300, CONFIG_TOTEM_DIAG_HEARTBEAT_MIN = 30,
     CONFIG_BT_PERIPHERAL_PREF_MIN_INT = 12, CONFIG_BT_PERIPHERAL_PREF_MAX_INT = 24,
     CONFIG_TOTEM_LAZY_HOST_MIN_INT = 80, CONFIG_TOTEM_LAZY_HOST_MAX_INT = 160,
     CONFIG_TOTEM_LAZY_HOST_LATENCY = 4, CONFIG_TOTEM_LAZY_HOST_TIMEOUT = 500\<rparr>"

text \<open>The smallest buffers the ranges allow, for small examples.\<close>

definition minimal_config :: totem_config where
  "minimal_config = totem_left_config\<lparr>RING_CAP := 32, BLOCK_EVENTS := 8, JOURNAL_SLOTS := 4,
     PERSIST_EVERY := 1, PERSIST_MIN_INTERVAL_MS := 5000\<rparr>"

lemma kconfig_ok_minimal: "kconfig_ok minimal_config"
  by (simp add: kconfig_ok_def minimal_config_def totem_left_config_def)

lemma kconfig_ok_totem_left: "kconfig_ok totem_left_config"
  by (simp add: kconfig_ok_def totem_left_config_def)

section \<open>What the code sees of the Bluetooth stack\<close>

datatype bt_role = BT_CONN_ROLE_CENTRAL | BT_CONN_ROLE_PERIPHERAL

primrec role_num :: "bt_role \<Rightarrow> int" where
  "role_num BT_CONN_ROLE_CENTRAL = 0"
| "role_num BT_CONN_ROLE_PERIPHERAL = 1"

datatype bt_state =
    BT_CONN_STATE_DISCONNECTED | BT_CONN_STATE_CONNECTING
  | BT_CONN_STATE_CONNECTED | BT_CONN_STATE_DISCONNECTING

datatype zmk_transport = ZMK_TRANSPORT_NONE | ZMK_TRANSPORT_USB | ZMK_TRANSPORT_BLE

text \<open>A Bluetooth address is only ever compared or printed, never inspected.\<close>

type_synonym bt_addr = nat

record bt_conn_info =
  info_le :: bool
  info_role :: bt_role
  info_state :: bt_state
  info_interval :: u16
  info_latency :: u16
  info_timeout :: u16

text \<open>
  A connection object: its slot (\<open>bt_conn_index\<close>), peer address, the answer of
  \<open>bt_conn_get_info\<close> (\<open>None\<close> when the call fails) and its security level.
\<close>

record bt_conn =
  conn_index :: nat
  conn_dst :: bt_addr
  conn_info :: "bt_conn_info option"
  conn_security :: nat

text \<open>In the peripheral role the peer is a computer, in the central role it is the right half.\<close>

definition computer_link :: "bt_conn \<Rightarrow> bool" where
  "computer_link conn \<longleftrightarrow> (case conn_info conn of None \<Rightarrow> False | Some info \<Rightarrow> info_role info = BT_CONN_ROLE_PERIPHERAL)"

definition BT_SECURITY_L2 :: nat where [simp]: "BT_SECURITY_L2 = 2"
definition BT_HCI_ERR_AUTH_FAIL :: u8 where [simp]: "BT_HCI_ERR_AUTH_FAIL = 0x05"
definition BT_HCI_ERR_REMOTE_USER_TERM_CONN :: u8 where [simp]: "BT_HCI_ERR_REMOTE_USER_TERM_CONN = 0x13"

text \<open>
  What the getters of ZMK and the Bluetooth host return while a handler runs. The uptime is the
  same for every read inside one handler; a definition whose code reads the clock before and
  after a slow call takes both times.
\<close>

record ble_env =
  k_uptime_get :: int
  zmk_ble_active_profile_index :: int
  zmk_ble_active_profile_is_open :: bool
  zmk_ble_active_profile_is_connected :: bool
  zmk_ble_host_adv_suppressed :: bool
  zmk_ble_profile_index :: "bt_addr \<Rightarrow> int"
  zmk_endpoint_selected_transport :: zmk_transport
  zmk_usb_is_powered :: bool
  bt_conn_disconnect :: "bt_conn \<Rightarrow> u8 \<Rightarrow> int"

text \<open>\<open>include/totem_usb_quiet.h\<close>.\<close>

definition totem_hid_is_usb :: "ble_env \<Rightarrow> bool" where
  "totem_hid_is_usb e \<longleftrightarrow> zmk_endpoint_selected_transport e = ZMK_TRANSPORT_USB"

definition totem_usb_cable_up :: "totem_config \<Rightarrow> ble_env \<Rightarrow> bool" where
  "totem_usb_cable_up c e \<longleftrightarrow> CONFIG_ZMK_USB c \<and> zmk_usb_is_powered e"

text \<open>The arguments of one \<open>totem_host_event_log_record\<close> call.\<close>

record log_call =
  call_type :: totem_host_evt
  call_idx :: i8
  call_active :: i8
  call_reason :: u8
  call_thrash_win :: u8
  call_extra :: u8

abbreviation log_args :: "totem_host_evt \<Rightarrow> i8 \<Rightarrow> i8 \<Rightarrow> u8 \<Rightarrow> u8 \<Rightarrow> u8 \<Rightarrow> log_call" where
  "log_args t i a r w x \<equiv> \<lparr>call_type = t, call_idx = i, call_active = a,
     call_reason = r, call_thrash_win = w, call_extra = x\<rparr>"

lemma hevt_num_inject: "hevt_num a = hevt_num b \<longleftrightarrow> a = b"
  by (cases a; cases b) simp_all

end
