(* ===== verification/Format.thy ===== *)
theory Format
  imports Prelude
begin

text \<open>
  The part of \<open>snprintk\<close> the diagnostics use: \<open>%u\<close>, \<open>%d\<close>, \<open>%08x\<close>, \<open>%c\<close> and \<open>%s\<close>. The
  definitions give the complete text; the callers compare its length with the buffer, as
  \<open>snprintk\<close>'s return value lets them.
\<close>

definition digit_char :: "nat \<Rightarrow> char" where
  "digit_char d = char_of (48 + d)"

fun dec :: "nat \<Rightarrow> string" where
  "dec n = (if n < 10 then [digit_char n] else dec (n div 10) @ [digit_char (n mod 10)])"

declare dec.simps [simp del]

definition fmt_u :: "'a::len word \<Rightarrow> string" where
  "fmt_u w = dec (unat w)"

definition fmt_d :: "int \<Rightarrow> string" where
  "fmt_d i = (if i < 0 then CHR ''-'' # dec (nat (- i)) else dec (nat i))"

definition hex_char :: "nat \<Rightarrow> char" where
  "hex_char d = (if d < 10 then char_of (48 + d) else char_of (87 + d))"

definition fmt_08x :: "u32 \<Rightarrow> string" where
  "fmt_08x w = map (\<lambda>k. hex_char (unat w div 16 ^ (7 - k) mod 16)) [0..<8]"

lemma length_dec_pos: "0 < length (dec n)"
  by (subst dec.simps) simp

lemma length_dec: "n < 10 ^ Suc k \<Longrightarrow> length (dec n) \<le> Suc k"
proof (induction k arbitrary: n)
  case 0
  then show ?case by (subst dec.simps) simp
next
  case (Suc k)
  show ?case
  proof (cases "n < 10")
    case True
    then show ?thesis by (subst dec.simps) simp
  next
    case False
    from Suc.prems have "n div 10 < 10 ^ Suc k" by (simp add: less_mult_imp_div_less)
    then have "length (dec (n div 10)) \<le> Suc k" by (rule Suc.IH)
    with False show ?thesis by (subst dec.simps) simp
  qed
qed

lemma length_fmt_u8: "length (fmt_u (w :: u8)) \<le> 3"
  using length_dec [of "unat w" 2] unat_word_bound [of w] by (simp add: fmt_u_def)

lemma length_fmt_u16: "length (fmt_u (w :: u16)) \<le> 5"
  using length_dec [of "unat w" 4] unat_word_bound [of w] by (simp add: fmt_u_def)

lemma length_fmt_u32: "length (fmt_u (w :: u32)) \<le> 10"
  using length_dec [of "unat w" 9] unat_word_bound [of w] by (simp add: fmt_u_def)

lemma length_fmt_d8: "length (fmt_d (sint (w :: i8))) \<le> 4"
proof -
  have "- 128 \<le> sint w" "sint w < 128"
    using sint_range_size [of w] by (simp_all add: word_size)
  then show ?thesis
    using length_dec [of "nat (- sint w)" 2] length_dec [of "nat (sint w)" 2]
    by (cases "sint w < 0") (simp_all add: fmt_d_def nat_less_iff)
qed

lemma length_fmt_d32: "- (2 ^ 31) \<le> i \<Longrightarrow> i < 2 ^ 31 \<Longrightarrow> length (fmt_d i) \<le> 11"
  using length_dec [of "nat (- i)" 9] length_dec [of "nat i" 9]
  by (cases "i < 0") (simp_all add: fmt_d_def nat_less_iff)

lemma length_fmt_08x [simp]: "length (fmt_08x w) = 8"
  by (simp add: fmt_08x_def)

lemmas fmt_lengths = length_fmt_u8 length_fmt_u16 length_fmt_u32 length_fmt_d8

end
