(* ===== verification/Host_Event_Log.thy ===== *)
theory Host_Event_Log
  imports Platform Format
begin

text \<open>
  The diagnostic journal, \<open>src/host_event_log.c\<close>: a RAM ring of events, and rotating
  checksummed blocks in flash (Zephyr's settings). This theory holds the ring, the writer's two
  critical sections (copy under the lock, commit after the flash write), and the restore path;
  the dump is in \<open>Journal_Dump\<close>, the composition with the boot counter in
  \<open>Boot_Diagnostics\<close>. A mutex-protected section is one atomic definition. The checksum
  \<open>crc32_ieee\<close> is Zephyr's and is a parameter \<open>crc\<close>.
\<close>

section \<open>Data\<close>

record totem_host_event =
  uptime_ms :: u32
  ev_type :: u8
  ev_idx :: i8
  ev_active :: i8
  ev_reason :: u8
  ev_thrash_win :: u8
  ev_extra :: u8

record totem_diag_block =
  blk_magic :: u32
  blk_version :: u16
  blk_slot :: u8
  blk_count :: u8
  blk_journal_seq :: u32
  blk_first_event_seq :: u32
  blk_ev :: "totem_host_event list"
  blk_crc :: u32

definition BLOCK_MAGIC :: u32 where "BLOCK_MAGIC = 0x54444C47"
definition BLOCK_VERSION :: u16 where "BLOCK_VERSION = 1"

definition zero_event :: totem_host_event where
  "zero_event = \<lparr>uptime_ms = 0, ev_type = 0, ev_idx = 0, ev_active = 0,
     ev_reason = 0, ev_thrash_win = 0, ev_extra = 0\<rparr>"

definition zero_block :: "totem_config \<Rightarrow> totem_diag_block" where
  "zero_block c = \<lparr>blk_magic = 0, blk_version = 0, blk_slot = 0, blk_count = 0,
     blk_journal_seq = 0, blk_first_event_seq = 0,
     blk_ev = replicate (BLOCK_EVENTS c) zero_event, blk_crc = 0\<rparr>"

text \<open>Delays handed to \<open>k_work_schedule\<close> / \<open>k_work_reschedule\<close> for \<open>persist_work\<close>.\<close>

datatype work_request = Work_schedule int | Work_reschedule int

record journal =
  ring :: "totem_host_event list"
  ring_head :: nat
  ring_count :: nat
  ring_seq :: u32
  persisted_event_seq :: u32
  journal_seq :: u32
  next_slot :: nat
  events_since_persist :: nat
  last_persist_uptime_ms :: int
  persist_requested :: bool
  journal_ready :: bool
  restored_blocks :: "totem_diag_block list"
  restored_valid :: "bool list"
  persist_work_requests :: "work_request list"

text \<open>The statically initialised state before any settings are loaded.\<close>

definition journal_boot :: "totem_config \<Rightarrow> journal" where
  "journal_boot c = \<lparr>
     ring = replicate (RING_CAP c) zero_event, ring_head = 0, ring_count = 0, ring_seq = 0,
     persisted_event_seq = 0, journal_seq = 0, next_slot = 0, events_since_persist = 0,
     last_persist_uptime_ms = 0, persist_requested = False,
     journal_ready = (\<not> CONFIG_SETTINGS c),
     restored_blocks = replicate (JOURNAL_SLOTS c) (zero_block c),
     restored_valid = replicate (JOURNAL_SLOTS c) False,
     persist_work_requests = []\<rparr>"

section \<open>Memory layout of a block\<close>

text \<open>Both structs are \<open>__packed\<close>; the target is little-endian.\<close>

definition event_bytes :: "totem_host_event \<Rightarrow> u8 list" where
  "event_bytes e = bytes32 (uptime_ms e) @
     [ev_type e, ev_idx e, ev_active e, ev_reason e, ev_thrash_win e, ev_extra e]"

definition event_of_bytes :: "u8 list \<Rightarrow> totem_host_event" where
  "event_of_bytes b = \<lparr>uptime_ms = le32 (b ! 0) (b ! 1) (b ! 2) (b ! 3), ev_type = b ! 4,
     ev_idx = b ! 5, ev_active = b ! 6, ev_reason = b ! 7, ev_thrash_win = b ! 8,
     ev_extra = b ! 9\<rparr>"

definition block_prefix_bytes :: "totem_diag_block \<Rightarrow> u8 list" where
  "block_prefix_bytes b = bytes32 (blk_magic b) @ bytes16 (blk_version b) @
     [blk_slot b, blk_count b] @ bytes32 (blk_journal_seq b) @ bytes32 (blk_first_event_seq b) @
     concat (map event_bytes (blk_ev b))"

definition block_bytes :: "totem_diag_block \<Rightarrow> u8 list" where
  "block_bytes b = block_prefix_bytes b @ bytes32 (blk_crc b)"

definition block_size :: "totem_config \<Rightarrow> nat" where
  "block_size c = 16 + 10 * BLOCK_EVENTS c + 4"

definition block_of_bytes :: "totem_config \<Rightarrow> u8 list \<Rightarrow> totem_diag_block" where
  "block_of_bytes c b =
     (let t = drop (16 + 10 * BLOCK_EVENTS c) b in
      \<lparr>blk_magic = le32 (b ! 0) (b ! 1) (b ! 2) (b ! 3), blk_version = le16 (b ! 4) (b ! 5),
       blk_slot = b ! 6, blk_count = b ! 7,
       blk_journal_seq = le32 (b ! 8) (b ! 9) (b ! 10) (b ! 11),
       blk_first_event_seq = le32 (b ! 12) (b ! 13) (b ! 14) (b ! 15),
       blk_ev = map (\<lambda>k. event_of_bytes (take 10 (drop (16 + 10 * k) b))) [0..<BLOCK_EVENTS c],
       blk_crc = le32 (t ! 0) (t ! 1) (t ! 2) (t ! 3)\<rparr>)"

section \<open>The ring\<close>

definition ring_get_ordered :: "journal \<Rightarrow> totem_host_event list" where
  "ring_get_ordered s = ring_ordered (ring s) (ring_head s) (ring_count s)"

definition schedule_persist_coalesced :: "totem_config \<Rightarrow> int \<Rightarrow> bool \<Rightarrow> journal \<Rightarrow> journal" where
  "schedule_persist_coalesced c now urgent s0 =
     (let s = s0\<lparr>persist_requested := True\<rparr> in
      if \<not> journal_ready s then s
      else
        let elapsed = now - last_persist_uptime_ms s;
            wait_ms = (if last_persist_uptime_ms s \<noteq> 0 \<and> elapsed < PERSIST_MIN_INTERVAL_MS c
                       then PERSIST_MIN_INTERVAL_MS c - elapsed
                       else if urgent then 0 else PERSIST_MIN_INTERVAL_MS c)
        in s\<lparr>persist_work_requests := persist_work_requests s @
               [if urgent then Work_reschedule wait_ms else Work_schedule wait_ms]\<rparr>)"

definition ring_append :: "totem_config \<Rightarrow> totem_host_event \<Rightarrow> journal \<Rightarrow> journal" where
  "ring_append c e s = s\<lparr>
     ring := (ring s)[ring_head s := e],
     ring_head := (ring_head s + 1) mod RING_CAP c,
     ring_count := (if ring_count s < RING_CAP c then ring_count s + 1 else ring_count s),
     ring_seq := ring_seq s + 1\<rparr>"

definition record_event :: "totem_config \<Rightarrow> int \<Rightarrow> totem_host_event \<Rightarrow> bool \<Rightarrow> journal \<Rightarrow> journal" where
  "record_event c now e persist s0 =
     (let s1 = ring_append c e s0;
          n = (if persist then events_since_persist s1 + 1 else events_since_persist s1);
          need_persist = (persist \<and> n \<ge> PERSIST_EVERY c);
          s2 = s1\<lparr>events_since_persist := (if need_persist then 0 else n)\<rparr>
      in if persist then schedule_persist_coalesced c now need_persist s2 else s2)"

definition call_event :: "u32 \<Rightarrow> log_call \<Rightarrow> totem_host_event" where
  "call_event t a = \<lparr>uptime_ms = t, ev_type = hevt_num (call_type a), ev_idx = call_idx a,
     ev_active = call_active a, ev_reason = call_reason a, ev_thrash_win = call_thrash_win a,
     ev_extra = call_extra a\<rparr>"

definition totem_host_event_log_record :: "totem_config \<Rightarrow> int \<Rightarrow> log_call \<Rightarrow> journal \<Rightarrow> journal" where
  "totem_host_event_log_record c now a s = record_event c now (call_event (word_of_int now) a) True s"

definition totem_host_event_log_record_timing ::
  "totem_config \<Rightarrow> int \<Rightarrow> u32 \<Rightarrow> log_call \<Rightarrow> journal \<Rightarrow> journal" where
  "totem_host_event_log_record_timing c now t a s = record_event c now (call_event t a) False s"

section \<open>The flash writer\<close>

definition first_available :: "journal \<Rightarrow> u32" where
  "first_available s = (if ring_count s \<noteq> 0 then ring_seq s - of_nat (ring_count s) + 1
                        else ring_seq s + 1)"

definition first_new :: "journal \<Rightarrow> u32" where
  "first_new s = (let f = persisted_event_seq s + 1
                  in if f < first_available s then first_available s else f)"

definition seal_block :: "(u8 list \<Rightarrow> u32) \<Rightarrow> totem_diag_block \<Rightarrow> totem_diag_block" where
  "seal_block crc b = b\<lparr>blk_crc := crc (block_prefix_bytes b)\<rparr>"

definition make_block :: "totem_config \<Rightarrow> (u8 list \<Rightarrow> u32) \<Rightarrow> nat \<Rightarrow> journal \<Rightarrow> totem_diag_block" where
  "make_block c crc count s =
     (let start = (ring_head s + RING_CAP c - ring_count s) mod RING_CAP c in
      seal_block crc \<lparr>blk_magic = BLOCK_MAGIC, blk_version = BLOCK_VERSION,
        blk_slot = of_nat (next_slot s), blk_count = of_nat count,
        blk_journal_seq = journal_seq s + 1, blk_first_event_seq = first_new s,
        blk_ev = map (\<lambda>i. let offset = unat (ucast (first_new s + of_nat i - first_available s) :: u16)
                          in ring s ! ((start + offset) mod RING_CAP c)) [0..<count]
                 @ replicate (BLOCK_EVENTS c - count) zero_event,
        blk_crc = 0\<rparr>)"

text \<open>
  \<open>persist_copy\<close> is the code up to the first unlock of \<open>ring_mu\<close>; its result says whether the
  writer returns at once (not ready, nothing to do), defers (too soon), or goes on to write
  a block to a slot.
\<close>

datatype persist_plan =
    Persist_return
  | Persist_defer
  | Persist_write nat totem_diag_block u32

definition persist_copy ::
  "totem_config \<Rightarrow> (u8 list \<Rightarrow> u32) \<Rightarrow> int \<Rightarrow> journal \<Rightarrow> persist_plan \<times> journal" where
  "persist_copy c crc now s =
     (if \<not> journal_ready s then (Persist_return, s)
      else if last_persist_uptime_ms s \<noteq> 0 \<and>
              now - last_persist_uptime_ms s < PERSIST_MIN_INTERVAL_MS c
      then (Persist_defer, s)
      else if first_new s > ring_seq s then (Persist_return, s\<lparr>persist_requested := False\<rparr>)
      else
        let pending = ring_seq s - first_new s + 1;
            count = min (unat pending) (BLOCK_EVENTS c);
            b = make_block c crc count s
        in (Persist_write (next_slot s) b (first_new s + of_nat count - 1),
            s\<lparr>journal_seq := journal_seq s + 1, persist_requested := False\<rparr>))"

text \<open>The second critical section: \<open>err\<close> is the result of \<open>settings_save_one\<close>.\<close>

definition persist_commit ::
  "totem_config \<Rightarrow> int \<Rightarrow> int \<Rightarrow> nat \<Rightarrow> totem_diag_block \<Rightarrow> u32 \<Rightarrow> journal \<Rightarrow> bool \<times> journal" where
  "persist_commit c now err slot b last_copied_seq s0 =
     (let s1 = s0\<lparr>last_persist_uptime_ms := now\<rparr>;
          s2 = (if err \<noteq> 0 then s1\<lparr>persist_requested := True\<rparr>
                else s1\<lparr>persisted_event_seq := last_copied_seq,
                        restored_blocks := (restored_blocks s1)[slot := b],
                        restored_valid := (restored_valid s1)[slot := True],
                        next_slot := (slot + 1) mod JOURNAL_SLOTS c\<rparr>)
      in (persist_requested s2 \<or> ring_seq s2 > persisted_event_seq s2, s2))"

definition slot_key :: "nat \<Rightarrow> string" where
  "slot_key slot = ''th/dlog/'' @ dec slot"

text \<open>
  The whole writer. The settings storage is a state of its own: \<open>save key value\<close> is
  \<open>settings_save_one\<close>, its error code and its effect on the storage. \<open>boot_persist\<close> is the boot
  counter's save (\<open>totem_boot_diagnostics_persist\<close>) into the same storage, with its own state;
  \<open>now'\<close> is the clock after the flash write.
\<close>

type_synonym 'f storage = "string \<Rightarrow> u8 list \<Rightarrow> 'f \<Rightarrow> int \<times> 'f"

text \<open>What the storage promises of a save that succeeded: the key has the new value, the others keep theirs.\<close>

definition keeps_values :: "'f storage \<Rightarrow> ('f \<Rightarrow> string \<rightharpoonup> u8 list) \<Rightarrow> bool" where
  "keeps_values save contents \<longleftrightarrow>
     (\<forall>key v f. fst (save key v f) = 0 \<longrightarrow> contents (snd (save key v f)) = (contents f)(key \<mapsto> v))"

definition totem_host_event_log_persist ::
  "totem_config \<Rightarrow> (u8 list \<Rightarrow> u32) \<Rightarrow> ('f \<times> 'b \<Rightarrow> int \<times> 'f \<times> 'b) \<Rightarrow> 'f storage
   \<Rightarrow> int \<Rightarrow> int \<Rightarrow> journal \<times> 'f \<times> 'b \<Rightarrow> journal \<times> 'f \<times> 'b" where
  "totem_host_event_log_persist c crc boot_persist save now now' sb =
     (let (s, fb) = sb in
      if \<not> CONFIG_SETTINGS c then (s, fb)
      else case persist_copy c crc now s of
        (Persist_return, s1) \<Rightarrow> (s1, fb)
      | (Persist_defer, s1) \<Rightarrow> (schedule_persist_coalesced c now True s1, fb)
      | (Persist_write slot blk q, s1) \<Rightarrow>
          let (counter_err, f1, b1) = boot_persist fb;
              (err, f2) = save (slot_key slot) (block_bytes blk) f1;
              (more_pending, s2) = persist_commit c now' err slot blk q s1
          in (if more_pending then schedule_persist_coalesced c now' True s2 else s2, f2, b1))"

section \<open>Restore at boot\<close>

definition ENOENT :: int where [simp]: "ENOENT = 2"

text \<open>Character \<open>i\<close> of a NUL-terminated string, as its code.\<close>

definition c_char :: "string \<Rightarrow> nat \<Rightarrow> nat" where
  "c_char name i = (if i < length name then of_char (name ! i) else 0)"

text \<open>A buffer cleared by \<open>memset\<close> into which a read stored \<open>data\<close>.\<close>

definition read_buffer :: "nat \<Rightarrow> u8 list \<Rightarrow> u8 list" where
  "read_buffer len data = take len data @ replicate (len - length data) 0"

definition block_acceptable ::
  "totem_config \<Rightarrow> (u8 list \<Rightarrow> u32) \<Rightarrow> nat \<Rightarrow> int \<Rightarrow> totem_diag_block \<Rightarrow> bool" where
  "block_acceptable c crc slot rc b \<longleftrightarrow>
     blk_magic b = BLOCK_MAGIC \<and> blk_version b = BLOCK_VERSION \<and> blk_slot b = of_nat slot \<and>
     blk_count b \<noteq> 0 \<and> unat (blk_count b) \<le> BLOCK_EVENTS c \<and> rc = int (block_size c) \<and>
     blk_crc b = crc (block_prefix_bytes b)"

text \<open>
  \<open>read_cb\<close> is the reader the settings subsystem supplies: its result and the bytes it stored.
\<close>

definition hevt_settings_set ::
  "totem_config \<Rightarrow> (u8 list \<Rightarrow> u32) \<Rightarrow> string \<Rightarrow> nat \<Rightarrow> int \<times> u8 list \<Rightarrow> journal \<Rightarrow> int \<times> journal" where
  "hevt_settings_set c crc name len read_cb s0 =
     (if take 5 name \<noteq> ''dlog/'' \<or> c_char name 5 < 48 \<or> c_char name 5 > 57 \<or> c_char name 6 \<noteq> 0
      then (- ENOENT, s0)
      else let slot = c_char name 5 - 48 in
      if slot \<ge> JOURNAL_SLOTS c \<or> len \<noteq> block_size c then (0, s0)
      else
        let (rc, data) = read_cb;
            b = block_of_bytes c (read_buffer len data);
            s = s0\<lparr>restored_blocks := (restored_blocks s0)[slot := b]\<rparr>
        in if rc < 0 then (rc, s)
        else if \<not> block_acceptable c crc slot rc b then (0, s)
        else
          let s1 = s\<lparr>restored_valid := (restored_valid s)[slot := True]\<rparr>;
              s2 = (if blk_journal_seq b \<ge> journal_seq s1
                    then s1\<lparr>journal_seq := blk_journal_seq b,
                            next_slot := (slot + 1) mod JOURNAL_SLOTS c\<rparr>
                    else s1);
              last_event_seq = blk_first_event_seq b + ucast (blk_count b) - 1
          in (0, if last_event_seq > persisted_event_seq s2
                 then s2\<lparr>persisted_event_seq := last_event_seq\<rparr> else s2))"

text \<open>What the post-load hook extracts from the restored blocks.\<close>

record boot_tail =
  previous_uptime :: u32
  previous_seq :: u32
  profile_seq :: u32
  endpoint_seq :: u32
  previous_profile :: i8
  previous_endpoint :: i8

definition has_profile :: "totem_host_event \<Rightarrow> bool" where
  "has_profile e \<longleftrightarrow>
     (hevt_num TOTEM_HEVT_DISC \<le> ev_type e \<and> ev_type e \<le> hevt_num TOTEM_HEVT_THRASH_WIN) \<or>
     (hevt_num TOTEM_HEVT_HID_SUBSCRIBED \<le> ev_type e \<and> ev_type e \<le> hevt_num TOTEM_HEVT_FLASH_END)"

definition scan_event :: "u32 \<times> totem_host_event \<Rightarrow> boot_tail \<Rightarrow> boot_tail" where
  "scan_event q t0 =
     (let (seq, event) = q;
          t1 = (if seq > previous_seq t0
                then t0\<lparr>previous_uptime := uptime_ms event, previous_seq := seq\<rparr> else t0);
          t2 = (if has_profile event \<and> sint (ev_active event) \<ge> 0 \<and> seq > profile_seq t1
                then t1\<lparr>previous_profile := ev_active event, profile_seq := seq\<rparr> else t1)
      in if ev_type event = hevt_num TOTEM_HEVT_USB \<and> ev_reason event = 255 \<and> seq > endpoint_seq t2
         then t2\<lparr>previous_endpoint := ev_extra event, endpoint_seq := seq\<rparr> else t2)"

definition block_events :: "totem_diag_block \<Rightarrow> (u32 \<times> totem_host_event) list" where
  "block_events b =
     map (\<lambda>n. (blk_first_event_seq b + of_nat n, blk_ev b ! n)) [0..<unat (blk_count b)]"

definition restored_events :: "totem_config \<Rightarrow> journal \<Rightarrow> (u32 \<times> totem_host_event) list" where
  "restored_events c s =
     concat (map (\<lambda>slot. if restored_valid s ! slot then block_events (restored_blocks s ! slot) else [])
               [0..<JOURNAL_SLOTS c])"

definition no_tail :: boot_tail where
  "no_tail = \<lparr>previous_uptime = 0, previous_seq = 0, profile_seq = 0, endpoint_seq = 0,
     previous_profile = - 1, previous_endpoint = - 1\<rparr>"

text \<open>
  The locked part of \<open>zmk_settings_loaded\<close>: the tail found, whether records are pending, and
  the state with early events numbered after the saved journal.
\<close>

definition settings_loaded_locked :: "totem_config \<Rightarrow> journal \<Rightarrow> boot_tail \<times> bool \<times> journal" where
  "settings_loaded_locked c s =
     (let (t, s') =
        (if \<not> journal_ready s
         then (fold scan_event (restored_events c s) no_tail,
               s\<lparr>ring_seq := persisted_event_seq s + of_nat (ring_count s), journal_ready := True\<rparr>)
         else (no_tail, s))
      in (t, ring_seq s' > persisted_event_seq s', s'))"

section \<open>Invariants\<close>

definition ring_inv :: "totem_config \<Rightarrow> journal \<Rightarrow> bool" where
  "ring_inv c s \<longleftrightarrow> length (ring s) = RING_CAP c \<and> ring_head s < RING_CAP c \<and> ring_count s \<le> RING_CAP c"

text \<open>
  Sequence numbers count events since the first boot; the code compares them as plain
  \<open>uint32_t\<close>, so the claims about them hold until \<open>2\<^sup>3\<^sup>2 - 2\<close> events have been recorded
  (\<open>seq_room\<close>).
\<close>

definition journal_inv :: "totem_config \<Rightarrow> journal \<Rightarrow> bool" where
  "journal_inv c s \<longleftrightarrow> ring_inv c s \<and> next_slot s < JOURNAL_SLOTS c
     \<and> length (restored_blocks s) = JOURNAL_SLOTS c \<and> length (restored_valid s) = JOURNAL_SLOTS c
     \<and> ring_count s \<le> unat (ring_seq s)
     \<and> (journal_ready s \<longrightarrow> persisted_event_seq s \<le> ring_seq s)"

definition seq_room :: "journal \<Rightarrow> bool" where
  "seq_room s \<longleftrightarrow> unat (ring_seq s) < 2 ^ 32 - 1"

lemma ring_inv_boot: "0 < RING_CAP c \<Longrightarrow> ring_inv c (journal_boot c)"
  by (simp add: ring_inv_def journal_boot_def)

lemma journal_inv_boot: "0 < RING_CAP c \<Longrightarrow> 0 < JOURNAL_SLOTS c \<Longrightarrow> journal_inv c (journal_boot c)"
  by (simp add: journal_inv_def ring_inv_def journal_boot_def)

lemma restored_events_boot [simp]: "restored_events c (journal_boot c) = []"
  by (auto simp: restored_events_def journal_boot_def)

subsection \<open>The ring is a bounded log\<close>

lemma ring_append_ordered:
  assumes "ring_inv c s"
  shows "ring_get_ordered (ring_append c e s) = lastn (RING_CAP c) (ring_get_ordered s @ [e])"
  using assms ring_ordered_push [of "ring_head s" "ring s" "ring_count s" e]
  by (simp add: ring_inv_def ring_get_ordered_def ring_append_def)

lemma ring_append_inv [inv_intros]: "ring_inv c s \<Longrightarrow> ring_inv c (ring_append c e s)"
  by (auto simp: ring_inv_def ring_append_def)

lemma schedule_persist_fields [simp]:
  "ring (schedule_persist_coalesced c now u s) = ring s"
  "ring_head (schedule_persist_coalesced c now u s) = ring_head s"
  "ring_count (schedule_persist_coalesced c now u s) = ring_count s"
  "ring_seq (schedule_persist_coalesced c now u s) = ring_seq s"
  "persisted_event_seq (schedule_persist_coalesced c now u s) = persisted_event_seq s"
  "journal_seq (schedule_persist_coalesced c now u s) = journal_seq s"
  "next_slot (schedule_persist_coalesced c now u s) = next_slot s"
  "journal_ready (schedule_persist_coalesced c now u s) = journal_ready s"
  "last_persist_uptime_ms (schedule_persist_coalesced c now u s) = last_persist_uptime_ms s"
  "restored_blocks (schedule_persist_coalesced c now u s) = restored_blocks s"
  "restored_valid (schedule_persist_coalesced c now u s) = restored_valid s"
  "persist_requested (schedule_persist_coalesced c now u s)"
  by (simp_all add: schedule_persist_coalesced_def Let_def)

lemma record_event_fields [simp]:
  "ring (record_event c now e p s) = ring (ring_append c e s)"
  "ring_head (record_event c now e p s) = ring_head (ring_append c e s)"
  "ring_count (record_event c now e p s) = ring_count (ring_append c e s)"
  "ring_seq (record_event c now e p s) = ring_seq s + 1"
  "persisted_event_seq (record_event c now e p s) = persisted_event_seq s"
  "journal_seq (record_event c now e p s) = journal_seq s"
  "next_slot (record_event c now e p s) = next_slot s"
  "journal_ready (record_event c now e p s) = journal_ready s"
  "last_persist_uptime_ms (record_event c now e p s) = last_persist_uptime_ms s"
  "restored_blocks (record_event c now e p s) = restored_blocks s"
  "restored_valid (record_event c now e p s) = restored_valid s"
  by (simp_all add: record_event_def ring_append_def Let_def)

lemma record_event_ring: "ring_get_ordered (record_event c now e p s) = ring_get_ordered (ring_append c e s)"
  by (simp add: ring_get_ordered_def)

lemma record_event_ring_inv [inv_intros]: "ring_inv c s \<Longrightarrow> ring_inv c (record_event c now e p s)"
  using ring_append_inv [of c s e] by (simp add: ring_inv_def)

text \<open>An entry of a run of records: clock, event, and whether it requests a save.\<close>

definition record_entry :: "totem_config \<Rightarrow> int \<times> totem_host_event \<times> bool \<Rightarrow> journal \<Rightarrow> journal" where
  "record_entry c r s = record_event c (fst r) (fst (snd r)) (snd (snd r)) s"

interpretation event_ring: bounded_log "record_entry c" "\<lambda>r. fst (snd r)" ring_get_ordered
  "RING_CAP c" "ring_inv c" for c
proof unfold_locales
  show "ring_inv c (record_entry c x s)" if "ring_inv c s" for s x
    using that by (simp add: record_entry_def record_event_ring_inv)
  show "ring_get_ordered (record_entry c x s) = lastn (RING_CAP c) (ring_get_ordered s @ [fst (snd x)])"
    if "ring_inv c s" for s x
    using that by (simp add: record_entry_def record_event_ring ring_append_ordered)
  show "length (ring_get_ordered s) \<le> RING_CAP c" if "ring_inv c s" for s
    using that by (simp add: ring_inv_def ring_get_ordered_def)
qed

subsection \<open>Sequence arithmetic\<close>

lemma unat_of_nat_small: "k < 2 ^ LENGTH('a) \<Longrightarrow> unat (of_nat k :: 'a::len word) = k"
  by (simp add: unat_of_nat)

lemma record_event_inv [inv_intros]:
  assumes "journal_inv c s" and "seq_room s"
  shows "journal_inv c (record_event c now e p s)"
proof -
  have "unat (ring_seq s + 1) = unat (ring_seq s) + 1"
    using assms(2) by (simp add: seq_room_def unat_inc)
  with assms show ?thesis
    using record_event_ring_inv [of c s now e p]
    by (auto simp: journal_inv_def ring_append_def word_le_nat_alt)
qed

lemma unat_first_available:
  assumes "journal_inv c s" and "seq_room s"
  shows "unat (first_available s) = unat (ring_seq s) + 1 - ring_count s"
proof -
  let ?R = "unat (ring_seq s)"
  have le: "ring_count s \<le> ?R" using assms(1) by (simp add: journal_inv_def)
  have "first_available s = of_nat ?R - of_nat (ring_count s) + 1"
    by (simp add: first_available_def)
  also have "\<dots> = of_nat (?R + 1 - ring_count s)"
    using le by (simp add: of_nat_diff Suc_diff_le)
  finally show ?thesis
    using assms(2) by (simp add: seq_room_def unat_of_nat_small)
qed

lemma unat_first_new:
  assumes "journal_inv c s" and "seq_room s" and "journal_ready s"
  shows "unat (first_new s) = max (unat (persisted_event_seq s) + 1) (unat (ring_seq s) + 1 - ring_count s)"
proof -
  have "unat (persisted_event_seq s) \<le> unat (ring_seq s)"
    using assms by (simp add: journal_inv_def word_le_nat_alt)
  then have "unat (persisted_event_seq s + 1) = unat (persisted_event_seq s) + 1"
    using assms(2) by (simp add: seq_room_def unat_inc)
  then show ?thesis
    using unat_first_available [OF assms(1,2)]
    by (simp add: first_new_def Let_def word_less_nat_alt max_def)
qed

lemma nothing_new_iff:
  assumes "journal_inv c s" and "seq_room s" and "journal_ready s"
  shows "first_new s > ring_seq s \<longleftrightarrow> ring_count s = 0 \<or> persisted_event_seq s = ring_seq s"
proof -
  have "unat (persisted_event_seq s) \<le> unat (ring_seq s)" "ring_count s \<le> unat (ring_seq s)"
    using assms by (simp_all add: journal_inv_def word_le_nat_alt)
  then have "unat (ring_seq s) < unat (first_new s)
      \<longleftrightarrow> ring_count s = 0 \<or> unat (persisted_event_seq s) = unat (ring_seq s)"
    by (simp add: unat_first_new [OF assms] max_def) linarith
  then show ?thesis by (simp add: word_less_nat_alt word_unat_eq_iff)
qed

lemma unat_distance:
  fixes a b :: "'a::len word"
  assumes "a \<le> b" and "0 < unat a"
  shows "unat (b - a + 1) = unat b + 1 - unat a"
proof -
  have "unat (b - a) = unat b - unat a" using assms(1) by (simp add: unat_sub)
  moreover have "unat b - unat a < 2 ^ LENGTH('a) - 1"
    using assms unat_word_bound [of b] unfolding word_le_nat_alt by linarith
  ultimately show ?thesis
    using assms(1) by (simp add: unat_inc word_le_nat_alt)
qed

text \<open>The block copied under the lock holds the ring's events from \<open>first_new\<close> on.\<close>

lemma make_block_event:
  assumes inv: "journal_inv c s" "seq_room s" "journal_ready s" and cap: "RING_CAP c \<le> 1024"
    and n: "n < count" and count: "unat (first_new s) + count \<le> unat (ring_seq s) + 1"
  shows "blk_ev (make_block c crc count s) ! n
       = ring_get_ordered s ! (unat (first_new s) + n - unat (first_available s))"
proof -
  let ?F = "unat (first_new s)" and ?A = "unat (first_available s)" and ?k = "unat (first_new s) + n - unat (first_available s)"
  have le: "?A \<le> ?F" "ring_count s \<le> unat (ring_seq s)"
    using unat_first_new [OF inv] unat_first_available [OF inv(1,2)] inv(1)
    by (simp_all add: journal_inv_def)
  have "first_new s + of_nat n - first_available s = of_nat ?F + of_nat n - of_nat ?A" by simp
  also have "\<dots> = of_nat ?k" using le by (simp add: of_nat_diff)
  finally have off: "first_new s + of_nat n - first_available s = of_nat ?k" .
  have k: "?k < ring_count s"
    using n count le unat_first_available [OF inv(1,2)] by linarith
  have rc: "ring_count s \<le> RING_CAP c" "length (ring s) = RING_CAP c"
    using inv by (simp_all add: journal_inv_def ring_inv_def)
  have "unat (ucast (of_nat ?k :: u32) :: u16) = ?k"
    using k rc cap by (simp add: unsigned_of_nat take_bit_nat_eq_self)
  then show ?thesis
    using n k rc off
    by (simp add: make_block_def seal_block_def Let_def nth_append ring_get_ordered_def ring_ordered_def)
qed

end
