(* ===== verification/Journal_History.thy ===== *)
theory Journal_History
  imports Host_Event_Log
begin

text \<open>
  Runs of the journal after the settings have been loaded: records from any context interleave
  with the writer, whose flash write happens between its two critical sections. The relation
  keeps, as ghost components, every event recorded since boot and every (sequence number,
  event) pair of a successful write.
\<close>

text \<open>
  \<open>persist_mu\<close> admits one writer at a time: a copy needs no block in flight. A deferred or empty
  attempt only touches the request flag and the work item.
\<close>

inductive journal_reach ::
  "totem_config \<Rightarrow> (u8 list \<Rightarrow> u32) \<Rightarrow> nat \<Rightarrow> totem_host_event list \<Rightarrow> (u32 \<times> totem_host_event) list
   \<Rightarrow> (nat \<times> totem_diag_block \<times> u32) option \<Rightarrow> journal \<Rightarrow> bool"
  for c crc base where
  loaded: "journal_inv c s0 \<Longrightarrow> \<not> journal_ready s0 \<Longrightarrow> base = unat (persisted_event_seq s0) \<Longrightarrow>
    base + ring_count s0 < 2 ^ 32 \<Longrightarrow> settings_loaded_locked c s0 = (t, pending, s) \<Longrightarrow>
    journal_reach c crc base (ring_get_ordered s0) [] None s"
| recorded: "journal_reach c crc base hist saved fl s \<Longrightarrow> seq_room s \<Longrightarrow>
    journal_reach c crc base (hist @ [e]) saved fl (record_event c now e p s)"
| copied: "journal_reach c crc base hist saved None s \<Longrightarrow> seq_room s \<Longrightarrow>
    persist_copy c crc now s = (Persist_write slot b q, s') \<Longrightarrow>
    journal_reach c crc base hist saved (Some (slot, b, q)) s'"
| not_copied: "journal_reach c crc base hist saved None s \<Longrightarrow>
    persist_copy c crc now s = (plan, s') \<Longrightarrow> plan = Persist_return \<or> plan = Persist_defer \<Longrightarrow>
    journal_reach c crc base hist saved None s'"
| scheduled: "journal_reach c crc base hist saved fl s \<Longrightarrow>
    journal_reach c crc base hist saved fl (schedule_persist_coalesced c now u s)"
| written: "journal_reach c crc base hist saved (Some (slot, b, q)) s \<Longrightarrow>
    persist_commit c now 0 slot b q s = (m, s') \<Longrightarrow>
    journal_reach c crc base hist (saved @ block_events b) None s'"
| write_failed: "journal_reach c crc base hist saved (Some (slot, b, q)) s \<Longrightarrow> err \<noteq> 0 \<Longrightarrow>
    persist_commit c now err slot b q s = (m, s') \<Longrightarrow>
    journal_reach c crc base hist saved None s'"

text \<open>A pair is true when the event is the one recorded under that number.\<close>

definition true_pair :: "nat \<Rightarrow> totem_host_event list \<Rightarrow> u32 \<times> totem_host_event \<Rightarrow> bool" where
  "true_pair base hist p \<longleftrightarrow> base < unat (fst p) \<and> unat (fst p) \<le> base + length hist
     \<and> snd p = hist ! (unat (fst p) - base - 1)"

definition block_ok ::
  "totem_config \<Rightarrow> nat \<Rightarrow> totem_host_event list \<Rightarrow> u32 \<Rightarrow> nat \<Rightarrow> totem_diag_block \<Rightarrow> u32 \<Rightarrow> bool" where
  "block_ok c base hist persisted slot b q \<longleftrightarrow> slot < JOURNAL_SLOTS c
     \<and> (\<forall>p \<in> set (block_events b). true_pair base hist p \<and> persisted < fst p \<and> fst p \<le> q)
     \<and> sorted_wrt (<) (map fst (block_events b)) \<and> persisted < q \<and> unat q \<le> base + length hist"

definition history_inv ::
  "totem_config \<Rightarrow> nat \<Rightarrow> totem_host_event list \<Rightarrow> (u32 \<times> totem_host_event) list
   \<Rightarrow> (nat \<times> totem_diag_block \<times> u32) option \<Rightarrow> journal \<Rightarrow> bool" where
  "history_inv c base hist saved fl s \<longleftrightarrow>
     journal_inv c s \<and> journal_ready s
   \<and> unat (ring_seq s) = base + length hist
   \<and> ring_get_ordered s = lastn (RING_CAP c) hist
   \<and> base \<le> unat (persisted_event_seq s)
   \<and> (\<forall>p \<in> set saved. true_pair base hist p \<and> fst p \<le> persisted_event_seq s)
   \<and> sorted_wrt (<) (map fst saved)
   \<and> (case fl of None \<Rightarrow> True | Some (slot, b, q) \<Rightarrow> block_ok c base hist (persisted_event_seq s) slot b q)"

lemma true_pair_append: "true_pair base hist p \<Longrightarrow> true_pair base (hist @ es) p"
  by (auto simp: true_pair_def nth_append)

lemma block_ok_append: "block_ok c base hist w slot b q \<Longrightarrow> block_ok c base (hist @ es) w slot b q"
  by (auto simp: block_ok_def intro: true_pair_append)

lemma history_inv_record:
  assumes "history_inv c base hist saved fl s" and "seq_room s"
  shows "history_inv c base (hist @ [e]) saved fl (record_event c now e p s)"
proof -
  have inv: "journal_inv c s" and ring: "ring_inv c s"
    using assms by (simp_all add: history_inv_def journal_inv_def)
  have "ring_get_ordered (record_event c now e p s) = lastn (RING_CAP c) (hist @ [e])"
    using assms ring by (simp add: history_inv_def record_event_ring ring_append_ordered lastn_append_lastn)
  moreover have "unat (ring_seq s + 1) = unat (ring_seq s) + 1"
    using assms(2) by (simp add: seq_room_def unat_inc)
  ultimately show ?thesis
    using assms record_event_inv [OF inv assms(2)]
    by (auto simp: history_inv_def intro: true_pair_append block_ok_append split: option.splits)
qed

lemma lastn_nth: "k < min n (length xs) \<Longrightarrow> lastn n xs ! k = xs ! (length xs - min n (length xs) + k)"
  by (auto simp: lastn_def min_def)

lemma block_events_make_block:
  assumes "count \<le> BLOCK_EVENTS c" and "BLOCK_EVENTS c \<le> 32"
  shows "block_events (make_block c crc count s)
       = map (\<lambda>n. (first_new s + of_nat n, blk_ev (make_block c crc count s) ! n)) [0..<count]"
proof -
  have "unat (of_nat count :: u8) = count" using assms by (simp add: unat_of_nat_small)
  then show ?thesis by (simp add: block_events_def make_block_def seal_block_def Let_def)
qed

lemma persist_copy_writeE:
  assumes copy: "persist_copy c crc now s = (Persist_write slot b q, s')"
    and inv: "journal_inv c s" "seq_room s" and blk: "0 < BLOCK_EVENTS c"
  obtains count where "journal_ready s" "0 < count" "count \<le> BLOCK_EVENTS c"
    "unat (first_new s) + count \<le> unat (ring_seq s) + 1"
    "b = make_block c crc count s" "slot = next_slot s" "q = first_new s + of_nat (count - 1)"
    "s' = s\<lparr>journal_seq := journal_seq s + 1, persist_requested := False\<rparr>"
    "count = min (unat (ring_seq s) + 1 - unat (first_new s)) (BLOCK_EVENTS c)"
proof -
  let ?count = "min (unat (ring_seq s - first_new s + 1)) (BLOCK_EVENTS c)"
  from copy have ready: "journal_ready s" and le: "first_new s \<le> ring_seq s"
    and b: "b = make_block c crc ?count s" and slot: "slot = next_slot s"
    and q: "q = first_new s + of_nat ?count - 1"
    and s': "s' = s\<lparr>journal_seq := journal_seq s + 1, persist_requested := False\<rparr>"
    by (auto simp: persist_copy_def Let_def not_less split: if_splits)
  have "0 < unat (first_new s)" using unat_first_new [OF inv ready] by simp
  with le have dist: "unat (ring_seq s - first_new s + 1) = unat (ring_seq s) + 1 - unat (first_new s)"
    by (rule unat_distance)
  have pos: "0 < ?count" and sum: "unat (first_new s) + ?count \<le> unat (ring_seq s) + 1"
    using le blk by (simp_all add: dist word_le_nat_alt)
  from pos q have "q = first_new s + of_nat (?count - 1)" by (simp add: of_nat_diff algebra_simps)
  with that [OF ready pos _ sum b slot _ s'] dist show ?thesis by simp
qed

text \<open>Entry \<open>n\<close> of a fresh block is the event recorded under \<open>first_new + n\<close>.\<close>

lemma fresh_entry:
  assumes hi: "history_inv c base hist saved fl s" and room: "seq_room s" and cap: "RING_CAP c \<le> 1024"
    and n: "n < count" and le: "unat (first_new s) + count \<le> unat (ring_seq s) + 1"
  shows "unat (first_new s + of_nat n) = unat (first_new s) + n"
    and "blk_ev (make_block c crc count s) ! n = hist ! (unat (first_new s) + n - base - 1)"
proof -
  let ?R = "unat (ring_seq s)" and ?F = "unat (first_new s)"
  from hi have inv: "journal_inv c s" "journal_ready s" and R: "?R = base + length hist"
    and base: "base \<le> unat (persisted_event_seq s)" and rg: "ring_get_ordered s = lastn (RING_CAP c) hist"
    by (simp_all add: history_inv_def)
  have "?F + n < 2 ^ 32" using n le room unfolding seq_room_def by linarith
  then show "unat (first_new s + of_nat n) = ?F + n" by (intro of_nat_inverse) simp_all
  have F: "?F = max (unat (persisted_event_seq s) + 1) (?R + 1 - ring_count s)"
    and A: "unat (first_available s) = ?R + 1 - ring_count s"
    by (rule unat_first_new [OF inv(1) room inv(2)], rule unat_first_available [OF inv(1) room])
  have rc: "ring_count s = min (RING_CAP c) (length hist)"
    using rg by (metis length_lastn length_ring_ordered ring_get_ordered_def)
  have "blk_ev (make_block c crc count s) ! n = ring_get_ordered s ! (?F + n - unat (first_available s))"
    by (rule make_block_event [OF inv(1) room inv(2) cap n le])
  also have "\<dots> = hist ! (length hist - ring_count s + (?F + n - unat (first_available s)))"
  proof -
    have "?F + n - unat (first_available s) < min (RING_CAP c) (length hist)"
      using n le A F R rc by linarith
    then show ?thesis by (simp add: rg rc lastn_nth)
  qed
  also have "length hist - ring_count s + (?F + n - unat (first_available s)) = ?F + n - base - 1"
    using rc A F R base by linarith
  finally show "blk_ev (make_block c crc count s) ! n = hist ! (?F + n - base - 1)" .
qed

lemma fresh_block_ok:
  assumes hi: "history_inv c base hist saved fl s" and room: "seq_room s" and ok: "kconfig_ok c"
    and count: "0 < count" "count \<le> BLOCK_EVENTS c" and le: "unat (first_new s) + count \<le> unat (ring_seq s) + 1"
  shows "block_ok c base hist (persisted_event_seq s) (next_slot s) (make_block c crc count s)
           (first_new s + of_nat (count - 1))"
proof -
  let ?b = "make_block c crc count s" and ?F = "unat (first_new s)"
  from ok have cfg: "RING_CAP c \<le> 1024" "BLOCK_EVENTS c \<le> 32" by (simp_all add: kconfig_ok_def)
  note entry = fresh_entry [OF hi room cfg(1) _ le]
  from hi have inv: "journal_inv c s" "journal_ready s" and R: "unat (ring_seq s) = base + length hist"
    and base: "base \<le> unat (persisted_event_seq s)" by (simp_all add: history_inv_def)
  have F: "unat (persisted_event_seq s) < ?F" using unat_first_new [OF inv(1) room inv(2)] by simp
  have last: "unat (first_new s + of_nat (count - 1)) = ?F + count - 1"
    using entry(1) [of "count - 1"] count(1) by simp
  have evs: "block_events ?b = map (\<lambda>n. (first_new s + of_nat n, blk_ev ?b ! n)) [0..<count]"
    using count(2) cfg(2) by (rule block_events_make_block)
  show ?thesis unfolding block_ok_def
  proof (intro conjI ballI)
    show "next_slot s < JOURNAL_SLOTS c" using inv by (simp add: journal_inv_def)
    show "sorted_wrt (<) (map fst (block_events ?b))"
      using entry(1) by (auto simp: evs sorted_wrt_iff_nth_less word_less_nat_alt)
    show "persisted_event_seq s < first_new s + of_nat (count - 1)"
      and "unat (first_new s + of_nat (count - 1)) \<le> base + length hist"
      using last F le count(1) R by (simp_all add: word_less_nat_alt)
    fix p assume "p \<in> set (block_events ?b)"
    then obtain n where n: "n < count" and p: "p = (first_new s + of_nat n, blk_ev ?b ! n)"
      by (auto simp: evs)
    then show "true_pair base hist p"
      using entry [OF n] F base le R by (simp add: true_pair_def)
    show "persisted_event_seq s < fst p" "fst p \<le> first_new s + of_nat (count - 1)"
      using p entry(1) [OF n] n F last by (simp_all add: word_less_nat_alt word_le_nat_alt)
  qed
qed

lemma history_inv_copy:
  assumes hi: "history_inv c base hist saved None s" and room: "seq_room s" and ok: "kconfig_ok c"
    and copy: "persist_copy c crc now s = (Persist_write slot b q, s')"
  shows "history_inv c base hist saved (Some (slot, b, q)) s'"
proof -
  have "journal_inv c s" "0 < BLOCK_EVENTS c" using hi ok by (simp_all add: history_inv_def kconfig_ok_def)
  with copy room obtain count where "0 < count" "count \<le> BLOCK_EVENTS c"
    "unat (first_new s) + count \<le> unat (ring_seq s) + 1"
    "b = make_block c crc count s" "slot = next_slot s" "q = first_new s + of_nat (count - 1)"
    "s' = s\<lparr>journal_seq := journal_seq s + 1, persist_requested := False\<rparr>"
    by (elim persist_copy_writeE)
  with fresh_block_ok [OF hi room ok, of count crc] hi show ?thesis
    by (simp add: history_inv_def journal_inv_def ring_inv_def ring_get_ordered_def)
qed

lemma history_inv_commit:
  assumes "history_inv c base hist saved (Some (slot, b, q)) s" and "0 < JOURNAL_SLOTS c"
  shows "history_inv c base hist (saved @ block_events b) None (snd (persist_commit c now 0 slot b q s))"
proof -
  let ?s = "snd (persist_commit c now 0 slot b q s)"
  have bo: "block_ok c base hist (persisted_event_seq s) slot b q" using assms by (simp add: history_inv_def)
  have pq: "persisted_event_seq s < q" using bo by (simp add: block_ok_def)
  have "sorted_wrt (<) (map fst (saved @ block_events b))"
    using assms(1) bo by (fastforce simp: history_inv_def block_ok_def sorted_wrt_append intro: le_less_trans)
  moreover have "\<forall>p \<in> set (saved @ block_events b). true_pair base hist p \<and> fst p \<le> q"
    using assms(1) bo pq by (auto simp: history_inv_def block_ok_def)
  moreover have "journal_inv c ?s" "base \<le> unat q"
    using assms bo by (auto simp: history_inv_def journal_inv_def ring_inv_def persist_commit_def Let_def
        block_ok_def word_le_nat_alt word_less_nat_alt)
  ultimately show ?thesis using assms(1)
    by (simp add: history_inv_def persist_commit_def Let_def ring_get_ordered_def)
qed

lemma history_inv_loaded:
  assumes "journal_inv c s0" and "\<not> journal_ready s0" and "base = unat (persisted_event_seq s0)"
    and "base + ring_count s0 < 2 ^ 32" and "settings_loaded_locked c s0 = (t, pending, s)"
  shows "history_inv c base (ring_get_ordered s0) [] None s"
proof -
  let ?seq = "persisted_event_seq s0 + of_nat (ring_count s0)"
  have seq: "unat ?seq = base + ring_count s0"
    using assms(3,4) by (intro of_nat_inverse) simp_all
  have s: "s = s0\<lparr>ring_seq := ?seq, journal_ready := True\<rparr>"
    using assms(2,5) by (simp add: settings_loaded_locked_def Let_def)
  have "ring_count s0 \<le> RING_CAP c" using assms(1) by (simp add: journal_inv_def ring_inv_def)
  then show ?thesis using assms(1,3) seq
    by (simp add: s history_inv_def journal_inv_def ring_inv_def ring_get_ordered_def word_le_nat_alt)
qed

lemma reach_history_inv:
  assumes "journal_reach c crc base hist saved fl s" and ok: "kconfig_ok c"
  shows "history_inv c base hist saved fl s"
  using assms(1)
proof induction
  case (loaded s0 t pending s)
  then show ?case by (intro history_inv_loaded)
next
  case (recorded hist saved fl s e now p)
  then show ?case by (intro history_inv_record)
next
  case (copied hist saved s now slot b q s')
  then show ?case using ok by (intro history_inv_copy)
next
  case (not_copied hist saved s now plan s')
  then have "s' = s \<or> s' = s\<lparr>persist_requested := False\<rparr>"
    by (auto simp: persist_copy_def Let_def split: if_splits)
  with not_copied.IH show ?case
    by (auto simp: history_inv_def journal_inv_def ring_inv_def ring_get_ordered_def)
next
  case (scheduled hist saved fl s now u)
  then show ?case
    by (cases fl) (auto simp: history_inv_def journal_inv_def ring_inv_def ring_get_ordered_def)
next
  case (written hist saved slot b q s now m s')
  then show ?case using history_inv_commit [of c base hist saved slot b q s now] ok
    by (simp add: kconfig_ok_def)
next
  case (write_failed hist saved slot b q s err now m s')
  then show ?case
    by (auto simp: history_inv_def journal_inv_def ring_inv_def ring_get_ordered_def persist_commit_def Let_def)
qed

section \<open>Nothing is skipped while the ring has room\<close>

definition gapless ::
  "totem_config \<Rightarrow> nat \<Rightarrow> totem_host_event list \<Rightarrow> (u32 \<times> totem_host_event) list
   \<Rightarrow> (nat \<times> totem_diag_block \<times> u32) option \<Rightarrow> journal \<Rightarrow> bool" where
  "gapless c base hist saved fl s \<longleftrightarrow> (length hist \<le> RING_CAP c \<longrightarrow>
     map (unat \<circ> fst) saved = [base + 1..<unat (persisted_event_seq s) + 1]
   \<and> (case fl of None \<Rightarrow> True
      | Some (slot, b, q) \<Rightarrow>
          map (unat \<circ> fst) (block_events b) = [unat (persisted_event_seq s) + 1..<unat q + 1]))"

lemma fresh_block_gapless:
  assumes hi: "history_inv c base hist saved fl s" and room: "seq_room s" and ok: "kconfig_ok c"
    and count: "0 < count" "count \<le> BLOCK_EVENTS c" and le: "unat (first_new s) + count \<le> unat (ring_seq s) + 1"
    and fits: "length hist \<le> RING_CAP c"
  shows "map (unat \<circ> fst) (block_events (make_block c crc count s))
       = [unat (persisted_event_seq s) + 1..<unat (first_new s + of_nat (count - 1)) + 1]"
proof -
  from ok have cfg: "RING_CAP c \<le> 1024" "BLOCK_EVENTS c \<le> 32" by (simp_all add: kconfig_ok_def)
  note entry = fresh_entry(1) [OF hi room cfg(1) _ le]
  from hi have inv: "journal_inv c s" "journal_ready s" and base: "base \<le> unat (persisted_event_seq s)"
    and R: "unat (ring_seq s) = base + length hist" and rg: "ring_get_ordered s = lastn (RING_CAP c) hist"
    by (simp_all add: history_inv_def)
  have "ring_count s = length hist"
    using rg fits by (metis lastn_all length_ring_ordered ring_get_ordered_def)
  then have F: "unat (first_new s) = unat (persisted_event_seq s) + 1"
    using unat_first_new [OF inv(1) room inv(2)] R base by simp
  have "map (unat \<circ> fst) (block_events (make_block c crc count s)) = map (\<lambda>n. unat (first_new s) + n) [0..<count]"
    using entry count(2) cfg(2) by (simp add: block_events_make_block)
  also have "\<dots> = [unat (first_new s)..<unat (first_new s) + count]" by (simp add: map_add_upt add.commute)
  also have "unat (first_new s) + count = unat (first_new s + of_nat (count - 1)) + 1"
    using entry [of "count - 1"] count(1) by simp
  finally show ?thesis by (simp only: F)
qed

lemma reach_gapless:
  assumes "journal_reach c crc base hist saved fl s" and ok: "kconfig_ok c"
  shows "gapless c base hist saved fl s"
  using assms(1)
proof induction
  case (loaded s0 t pending s)
  then show ?case by (auto simp: gapless_def settings_loaded_locked_def Let_def)
next
  case (recorded hist saved fl s e now p)
  then show ?case by (cases fl) (auto simp: gapless_def)
next
  case (copied hist saved s now slot b q s')
  have hi: "history_inv c base hist saved None s" using copied.hyps(1) ok by (rule reach_history_inv)
  then have "journal_inv c s" "0 < BLOCK_EVENTS c" using ok by (simp_all add: history_inv_def kconfig_ok_def)
  with copied.hyps obtain count where "0 < count" "count \<le> BLOCK_EVENTS c"
    "unat (first_new s) + count \<le> unat (ring_seq s) + 1"
    "b = make_block c crc count s" "q = first_new s + of_nat (count - 1)"
    "s' = s\<lparr>journal_seq := journal_seq s + 1, persist_requested := False\<rparr>"
    by (elim persist_copy_writeE)
  with fresh_block_gapless [OF hi copied.hyps(2) ok, of count crc] copied.IH show ?case
    by (simp add: gapless_def)
next
  case (not_copied hist saved s now plan s')
  then have "s' = s \<or> s' = s\<lparr>persist_requested := False\<rparr>"
    by (auto simp: persist_copy_def Let_def split: if_splits)
  with not_copied.IH show ?case by (auto simp: gapless_def)
next
  case (scheduled hist saved fl s now u)
  then show ?case by (cases fl) (auto simp: gapless_def)
next
  case (written hist saved slot b q s now m s')
  have "history_inv c base hist saved (Some (slot, b, q)) s" using written.hyps(1) ok by (rule reach_history_inv)
  then have "base \<le> unat (persisted_event_seq s)" "unat (persisted_event_seq s) < unat q"
    by (simp_all add: history_inv_def block_ok_def word_less_nat_alt)
  then have "[base + 1..<unat (persisted_event_seq s) + 1] @ [unat (persisted_event_seq s) + 1..<unat q + 1]
      = [base + 1..<unat q + 1]"
    using upt_add_eq_append [of "base + 1" "unat (persisted_event_seq s) + 1" "unat q - unat (persisted_event_seq s)"]
    by simp
  with written show ?case
    by (auto simp: gapless_def persist_commit_def Let_def simp del: upt_Suc)
next
  case (write_failed hist saved slot b q s err now m s')
  then show ?case by (auto simp: gapless_def persist_commit_def Let_def)
qed

section \<open>A small run\<close>

text \<open>Load an empty journal, record one event, copy and write it.\<close>

definition demo_loaded :: journal where
  "demo_loaded = (journal_boot minimal_config)\<lparr>journal_ready := True\<rparr>"

definition demo_recorded :: journal where
  "demo_recorded = record_event minimal_config 7 zero_event False demo_loaded"

lemmas demo_defs = demo_recorded_def demo_loaded_def journal_boot_def minimal_config_def
  totem_left_config_def record_event_def ring_append_def

lemma demo_copy: "persist_copy minimal_config (\<lambda>_. 0) 9 demo_recorded =
   (Persist_write 0 (make_block minimal_config (\<lambda>_. 0) 1 demo_recorded) 1,
    demo_recorded\<lparr>journal_seq := 1, persist_requested := False\<rparr>)"
  by (simp add: persist_copy_def first_new_def first_available_def demo_defs)

lemma demo_events: "block_events (make_block minimal_config (\<lambda>_. 0) 1 demo_recorded) = [(1, zero_event)]"
  by (simp add: block_events_def make_block_def seal_block_def first_new_def first_available_def demo_defs)

lemma demo_inv: "journal_inv minimal_config demo_recorded" "seq_room demo_recorded" "journal_ready demo_recorded"
  by (simp_all add: journal_inv_def ring_inv_def seq_room_def demo_defs)

lemma demo_run: "\<exists>s. journal_reach minimal_config (\<lambda>_. 0) 0 [zero_event] [(1, zero_event)] None s"
proof -
  have load: "settings_loaded_locked minimal_config (journal_boot minimal_config) = (no_tail, False, demo_loaded)"
    by (simp add: settings_loaded_locked_def demo_loaded_def)
      (simp add: journal_boot_def minimal_config_def totem_left_config_def)
  have "journal_reach minimal_config (\<lambda>_. 0) 0 (ring_get_ordered (journal_boot minimal_config)) [] None demo_loaded"
    by (rule journal_reach.loaded [OF _ _ _ _ load])
      (simp_all add: journal_inv_def ring_inv_def demo_defs)
  then have "journal_reach minimal_config (\<lambda>_. 0) 0 ([] @ [zero_event]) [] None demo_recorded"
    unfolding demo_recorded_def
    by (intro journal_reach.recorded) (simp_all add: ring_get_ordered_def seq_room_def demo_loaded_def journal_boot_def)
  from journal_reach.written [OF journal_reach.copied [OF this demo_inv(2) demo_copy] prod.collapse [symmetric]]
  have "journal_reach minimal_config (\<lambda>_. 0) 0 [zero_event] [(1, zero_event)] None
      (snd (persist_commit minimal_config 10 0 0 (make_block minimal_config (\<lambda>_. 0) 1 demo_recorded) 1
        (demo_recorded\<lparr>journal_seq := 1, persist_requested := False\<rparr>)))"
    by (simp only: demo_events append_Nil)
  then show ?thesis ..
qed

section \<open>Properties\<close>

text \<open>
  C1. Journal integrity under interleaving. In every run after boot, whatever records arrive
  between the copy of a block and the completion of its flash write, and whichever writes fail:
  each event in a successfully written block stands under exactly the sequence number at which
  it was recorded, and the saved numbers are strictly increasing (no event is saved twice).
\<close>

theorem journal_saves_true_history:
  assumes "journal_reach c crc base hist saved fl s" and "kconfig_ok c"
  shows "(\<forall>(q, e) \<in> set saved. base < unat q \<and> unat q \<le> base + length hist \<and> e = hist ! (unat q - base - 1))
       \<and> sorted_wrt (<) (map fst saved)"
  using reach_history_inv [OF assms] by (auto simp: history_inv_def true_pair_def)

theorem journal_saves_true_history_witness:
  "\<exists>s. journal_reach minimal_config (\<lambda>_. 0) 0 [zero_event] [(1, zero_event)] None s
     \<and> (\<forall>(q, e) \<in> set [(1 :: u32, zero_event)]. 0 < unat q \<and> unat q \<le> 0 + length [zero_event]
          \<and> e = [zero_event] ! (unat q - 0 - 1))
     \<and> sorted_wrt (<) (map fst [(1 :: u32, zero_event)])"
  using demo_run journal_saves_true_history kconfig_ok_minimal by blast

text \<open>
  No record is skipped while the ring has not overflowed: as long as at most \<open>RING_CAP\<close>
  events were recorded since boot, the saved events are exactly the first ones recorded, in
  order, with consecutive numbers.
\<close>

theorem journal_saves_prefix:
  assumes "journal_reach c crc base hist saved fl s" and "kconfig_ok c" and "length hist \<le> RING_CAP c"
  shows "map snd saved = take (length saved) hist
       \<and> map (unat \<circ> fst) saved = [base + 1..<base + length saved + 1]"
proof -
  have seqs: "map (unat \<circ> fst) saved = [base + 1..<unat (persisted_event_seq s) + 1]"
    using reach_gapless [OF assms(1,2)] assms(3) by (simp add: gapless_def)
  have hi: "history_inv c base hist saved fl s" by (rule reach_history_inv [OF assms(1,2)])
  then have base: "base \<le> unat (persisted_event_seq s)" by (simp add: history_inv_def)
  from seqs have "length [base + 1..<unat (persisted_event_seq s) + 1] = length saved"
    by (metis length_map)
  with base have P: "unat (persisted_event_seq s) = base + length saved" by (simp del: upt_Suc)
  have nth: "unat (fst (saved ! i)) = base + 1 + i" if "i < length saved" for i
  proof -
    have "map (unat \<circ> fst) saved ! i = [base + 1..<unat (persisted_event_seq s) + 1] ! i" by (simp only: seqs)
    with that P show ?thesis by (simp del: upt_Suc)
  qed
  have len: "length saved \<le> length hist"
    using hi P by (auto simp: history_inv_def journal_inv_def word_le_nat_alt)
  have "map snd saved = take (length saved) hist"
  proof (rule nth_equalityI)
    fix i assume "i < length (map snd saved)"
    then have i: "i < length saved" by simp
    then have "true_pair base hist (saved ! i)" using hi nth_mem by (auto simp: history_inv_def)
    with nth [OF i] i len show "map snd saved ! i = take (length saved) hist ! i"
      by (simp add: true_pair_def)
  qed (use len in simp)
  with seqs P show ?thesis by (simp del: upt_Suc)
qed

theorem journal_saves_prefix_witness:
  "length [zero_event] \<le> RING_CAP minimal_config
   \<and> map snd [(1 :: u32, zero_event)] = take (length [(1 :: u32, zero_event)]) [zero_event]
   \<and> map (unat \<circ> fst) [(1 :: u32, zero_event)] = [0 + 1..<0 + length [(1 :: u32, zero_event)] + 1]"
proof -
  have len: "length [zero_event] \<le> RING_CAP minimal_config" by (simp add: minimal_config_def)
  obtain s where "journal_reach minimal_config (\<lambda>_. 0) 0 [zero_event] [(1, zero_event)] None s"
    using demo_run by blast
  from journal_saves_prefix [OF this kconfig_ok_minimal len] len show ?thesis by blast
qed

end
