(* ===== verification/Journal_Calls.thy ===== *)
theory Journal_Calls
  imports Host_Event_Log
begin

text \<open>
  A sequence of \<open>totem_host_event_log_record\<close> calls made by the other components, each at its own
  time: what the ring and the counters of the journal hold afterwards. The boot sequence and the
  composition of the left half's modules send their records through this function.
\<close>

definition journal_calls :: "totem_config \<Rightarrow> (int \<times> log_call) list \<Rightarrow> journal \<Rightarrow> journal" where
  "journal_calls c = fold (\<lambda>(now, a). totem_host_event_log_record c now a)"

definition stamped :: "int \<times> log_call \<Rightarrow> totem_host_event" where
  "stamped r = call_event (word_of_int (fst r)) (snd r)"

lemma stamped_fields [simp]:
  "ev_type (stamped r) = hevt_num (call_type (snd r))" "ev_idx (stamped r) = call_idx (snd r)"
  "ev_active (stamped r) = call_active (snd r)" "ev_reason (stamped r) = call_reason (snd r)"
  "ev_thrash_win (stamped r) = call_thrash_win (snd r)" "ev_extra (stamped r) = call_extra (snd r)"
  "uptime_ms (stamped r) = word_of_int (fst r)"
  by (simp_all add: stamped_def call_event_def)

lemma journal_calls_append [simp]: "journal_calls c (xs @ ys) j = journal_calls c ys (journal_calls c xs j)"
  by (simp add: journal_calls_def)

lemma journal_calls_Nil [simp]: "journal_calls c [] j = j"
  by (simp add: journal_calls_def)

lemma journal_calls_one: "totem_host_event_log_record c now a j = journal_calls c [(now, a)] j"
  by (simp add: journal_calls_def)

lemma journal_calls_now: "fold (totem_host_event_log_record c now) calls j = journal_calls c (map (Pair now) calls) j"
  by (induction calls arbitrary: j) (simp_all add: journal_calls_def)

lemma journal_calls_entries:
  "journal_calls c calls j = fold (record_entry c) (map (\<lambda>r. (fst r, stamped r, True)) calls) j"
  by (induction calls arbitrary: j)
    (simp_all add: journal_calls_def record_entry_def stamped_def totem_host_event_log_record_def case_prod_beta)

lemma journal_calls_ring:
  "ring_inv c j \<Longrightarrow> ring_get_ordered (journal_calls c calls j) = lastn (RING_CAP c) (ring_get_ordered j @ map stamped calls)"
  by (simp add: journal_calls_entries event_ring.pushes_contents comp_def)

lemma journal_calls_ring_inv [simp]: "ring_inv c j \<Longrightarrow> ring_inv c (journal_calls c calls j)"
  by (induction calls arbitrary: j)
    (simp_all add: journal_calls_def totem_host_event_log_record_def record_event_ring_inv case_prod_beta)

lemma journal_calls_fields [simp]:
  "journal_ready (journal_calls c calls j) = journal_ready j"
  "persisted_event_seq (journal_calls c calls j) = persisted_event_seq j"
  "journal_seq (journal_calls c calls j) = journal_seq j"
  "next_slot (journal_calls c calls j) = next_slot j"
  "last_persist_uptime_ms (journal_calls c calls j) = last_persist_uptime_ms j"
  "restored_blocks (journal_calls c calls j) = restored_blocks j"
  "restored_valid (journal_calls c calls j) = restored_valid j"
  "ring_seq (journal_calls c calls j) = ring_seq j + of_nat (length calls)"
  by (induction calls arbitrary: j)
    (simp_all add: journal_calls_def totem_host_event_log_record_def case_prod_beta)

lemma journal_calls_count:
  "ring_count j \<le> RING_CAP c \<Longrightarrow> ring_count (journal_calls c calls j) = min (RING_CAP c) (ring_count j + length calls)"
  by (induction calls arbitrary: j)
    (simp_all add: journal_calls_def totem_host_event_log_record_def ring_append_def case_prod_beta)

end
