(* ===== verification/Journal_Restore.thy ===== *)
theory Journal_Restore
  imports Journal_History Journal_Calls
begin

text \<open>
  The flash side of the journal: a block's bytes parse back to the block, the settings handler
  accepts exactly the intact blocks, and loading the slots in any order after a reset restores
  every intact block, even when the write of one slot was interrupted.
\<close>

section \<open>Bytes\<close>

lemma length_event_bytes [simp]: "length (event_bytes e) = 10"
  by (simp add: event_bytes_def)

lemma event_of_bytes_inverse: "event_of_bytes (event_bytes e) = e"
  by (simp add: event_of_bytes_def event_bytes_def bytes32_def)

lemma length_concat_events [simp]: "length (concat (map event_bytes es)) = 10 * length es"
  by (induction es) simp_all

lemma nth_event_chunk:
  "k < length es \<Longrightarrow> take 10 (drop (10 * k) (concat (map event_bytes es))) = event_bytes (es ! k)"
proof (induction es arbitrary: k)
  case Nil
  then show ?case by simp
next
  case (Cons e es)
  then show ?case by (cases k) simp_all
qed

lemma length_block_bytes: "length (blk_ev b) = BLOCK_EVENTS c \<Longrightarrow> length (block_bytes b) = block_size c"
  by (simp add: block_bytes_def block_prefix_bytes_def block_size_def)

lemma block_header_bytes:
  "block_bytes b = bytes32 (blk_magic b) @ bytes16 (blk_version b) @ [blk_slot b, blk_count b]
     @ bytes32 (blk_journal_seq b) @ bytes32 (blk_first_event_seq b)
     @ concat (map event_bytes (blk_ev b)) @ bytes32 (blk_crc b)"
  by (simp add: block_bytes_def block_prefix_bytes_def)

lemma block_of_bytes_inverse:
  assumes "length (blk_ev b) = BLOCK_EVENTS c"
  shows "block_of_bytes c (block_bytes b) = b"
proof -
  let ?h = "bytes32 (blk_magic b) @ bytes16 (blk_version b) @ [blk_slot b, blk_count b]
     @ bytes32 (blk_journal_seq b) @ bytes32 (blk_first_event_seq b)"
  let ?evs = "concat (map event_bytes (blk_ev b))"
  have split: "block_bytes b = ?h @ ?evs @ bytes32 (blk_crc b)" by (simp add: block_header_bytes)
  have h: "length ?h = 16" by simp
  have chunk: "take 10 (drop (16 + 10 * k) (block_bytes b)) = event_bytes (blk_ev b ! k)"
    if "k < BLOCK_EVENTS c" for k
  proof -
    have "take 10 (drop (16 + 10 * k) (block_bytes b)) = take 10 (drop (10 * k) (?evs @ bytes32 (blk_crc b)))"
      by (simp only: split drop_header [OF h])
    also have "\<dots> = take 10 (drop (10 * k) ?evs)" using that assms by simp
    finally show ?thesis using that assms by (simp add: nth_event_chunk)
  qed
  have evs: "map (\<lambda>k. event_of_bytes (take 10 (drop (16 + 10 * k) (block_bytes b)))) [0..<BLOCK_EVENTS c] = blk_ev b"
    using assms by (intro nth_equalityI) (simp_all add: chunk event_of_bytes_inverse)
  have tail: "drop (16 + 10 * BLOCK_EVENTS c) (block_bytes b) = bytes32 (blk_crc b)"
    unfolding split drop_header [OF h] using assms by simp
  show ?thesis
    unfolding block_of_bytes_def tail evs Let_def
    by (simp add: block_header_bytes bytes32_def bytes16_def)
qed

lemma concat_chunks: "n * m \<le> length xs \<Longrightarrow> concat (map (\<lambda>k. take n (drop (n * k) xs)) [0..<m]) = take (n * m) xs"
proof (induction m)
  case 0
  then show ?case by simp
next
  case (Suc m)
  then have "concat (map (\<lambda>k. take n (drop (n * k) xs)) [0..<Suc m]) = take (n * m) xs @ take n (drop (n * m) xs)" by simp
  also have "\<dots> = take (n * m + n) xs" by (simp only: take_add)
  finally show ?case by (simp add: add.commute)
qed

lemma bytes32_nth:
  assumes "length v = 4"
  shows "bytes32 (le32 (v ! 0) (v ! 1) (v ! 2) (v ! 3)) = v"
proof -
  have "v = map ((!) v) [0..<4]" using assms by (intro nth_equalityI) auto
  also have "\<dots> = bytes32 (le32 (v ! 0) (v ! 1) (v ! 2) (v ! 3))" by (simp add: bytes32_le32 upt_rec eval_nat_numeral)
  finally show ?thesis by (rule sym)
qed

lemma event_bytes_inverse:
  assumes "length v = 10"
  shows "event_bytes (event_of_bytes v) = v"
proof -
  have "v = map ((!) v) [0..<10]" using assms by (intro nth_equalityI) auto
  also have "\<dots> = event_bytes (event_of_bytes v)"
    by (simp add: event_bytes_def event_of_bytes_def bytes32_le32 upt_rec eval_nat_numeral)
  finally show ?thesis by (rule sym)
qed

lemma block_bytes_inverse:
  assumes "length v = block_size c"
  shows "block_bytes (block_of_bytes c v) = v"
proof -
  let ?n = "BLOCK_EVENTS c" and ?t = "drop (16 + 10 * BLOCK_EVENTS c) v"
  have h: "take 16 v = map ((!) v) [0..<16]" using assms by (intro nth_equalityI) (auto simp: block_size_def)
  have head: "bytes32 (le32 (v ! 0) (v ! 1) (v ! 2) (v ! 3)) @ bytes16 (le16 (v ! 4) (v ! 5)) @ [v ! 6, v ! 7]
      @ bytes32 (le32 (v ! 8) (v ! 9) (v ! 10) (v ! 11)) @ bytes32 (le32 (v ! 12) (v ! 13) (v ! 14) (v ! 15)) = take 16 v"
    unfolding h by (simp add: bytes32_le32 bytes16_le16 upt_rec eval_nat_numeral)
  have chunk: "event_bytes (event_of_bytes (take 10 (drop (16 + 10 * k) v))) = take 10 (drop (10 * k) (drop 16 v))" if "k < ?n" for k
    using that assms by (subst event_bytes_inverse) (simp_all add: block_size_def add.commute)
  have "concat (map event_bytes (map (\<lambda>k. event_of_bytes (take 10 (drop (16 + 10 * k) v))) [0..<?n]))
      = concat (map (\<lambda>k. take 10 (drop (10 * k) (drop 16 v))) [0..<?n])"
    unfolding map_map comp_def by (rule arg_cong [where f = concat], rule map_cong [OF refl], rule chunk) simp
  also have "\<dots> = take (10 * ?n) (drop 16 v)" using assms by (intro concat_chunks) (simp add: block_size_def)
  finally have evs: "concat (map event_bytes (map (\<lambda>k. event_of_bytes (take 10 (drop (16 + 10 * k) v))) [0..<?n]))
      = take (10 * ?n) (drop 16 v)" .
  have tail: "bytes32 (le32 (?t ! 0) (?t ! 1) (?t ! 2) (?t ! 3)) = ?t"
    by (rule bytes32_nth) (simp add: assms block_size_def)
  have "block_bytes (block_of_bytes c v) = take 16 v @ take (10 * ?n) (drop 16 v) @ ?t"
    unfolding head [symmetric] evs [symmetric] by (simp add: block_header_bytes block_of_bytes_def tail [unfolded One_nat_def] Let_def)
  also have "take (10 * ?n) (drop 16 v) @ ?t = drop 16 v"
    using append_take_drop_id [of "10 * ?n" "drop 16 v"] by (simp add: add.commute)
  finally show ?thesis by simp
qed

section \<open>Which values the handler accepts\<close>

text \<open>
  What a completed write leaves behind, stated without the loader: \<open>v\<close> is the memory image of a block
  with the magic number, the version, the number of the slot and one to \<open>BLOCK_EVENTS\<close> events, and
  its last four bytes are the checksum of all bytes before them.
\<close>

definition holds_block :: "totem_config \<Rightarrow> (u8 list \<Rightarrow> u32) \<Rightarrow> nat \<Rightarrow> u8 list \<Rightarrow> totem_diag_block \<Rightarrow> bool" where
  "holds_block c crc k v b \<longleftrightarrow> v = block_bytes b \<and> length (blk_ev b) = BLOCK_EVENTS c
     \<and> blk_magic b = 0x54444C47 \<and> blk_version b = 1 \<and> blk_slot b = of_nat k
     \<and> 1 \<le> unat (blk_count b) \<and> unat (blk_count b) \<le> BLOCK_EVENTS c
     \<and> drop (length v - 4) v = bytes32 (crc (take (length v - 4) v))"

text \<open>The block that slot \<open>k\<close> holds, if it holds one.\<close>

definition flash_block ::
  "totem_config \<Rightarrow> (u8 list \<Rightarrow> u32) \<Rightarrow> (nat \<rightharpoonup> u8 list) \<Rightarrow> nat \<Rightarrow> totem_diag_block option" where
  "flash_block c crc flash k = (case flash k of
      None \<Rightarrow> None
    | Some v \<Rightarrow> if holds_block c crc k v (block_of_bytes c v) then Some (block_of_bytes c v) else None)"

lemma bytes32_inject: "bytes32 v = bytes32 w \<longleftrightarrow> v = w"
  by (metis bytes32_def le32_byte_of nth_Cons_0 nth_Cons_Suc)

lemma holds_block_iff:
  "holds_block c crc k v b \<longleftrightarrow> v = block_bytes b \<and> length (blk_ev b) = BLOCK_EVENTS c
     \<and> block_acceptable c crc k (int (block_size c)) b"
proof -
  have "drop (length (block_bytes b) - 4) (block_bytes b) = bytes32 (blk_crc b)"
    "take (length (block_bytes b) - 4) (block_bytes b) = block_prefix_bytes b"
    by (simp_all add: block_bytes_def)
  moreover have "1 \<le> unat (blk_count b) \<longleftrightarrow> blk_count b \<noteq> 0" by (simp add: Suc_le_eq unat_gt_0)
  ultimately show ?thesis
    by (auto simp: holds_block_def block_acceptable_def BLOCK_MAGIC_def BLOCK_VERSION_def bytes32_inject)
qed

lemma flash_block_holds: "flash_block c crc flash k = Some b \<longleftrightarrow> (\<exists>v. flash k = Some v \<and> holds_block c crc k v b)"
proof -
  have "block_of_bytes c v = b" if "holds_block c crc k v b" for v
    using that block_of_bytes_inverse [of b c] by (simp add: holds_block_def)
  then show ?thesis by (auto simp: flash_block_def split: option.splits if_splits)
qed

lemma flash_block_None: "flash_block c crc flash k = None \<longleftrightarrow> (\<forall>v b. flash k = Some v \<longrightarrow> \<not> holds_block c crc k v b)"
  using flash_block_holds [of c crc flash k] by (metis option.exhaust option.discI)

text \<open>The loader's view of the same: it parses the value and checks the parsed block.\<close>

lemma flash_block_code:
  "flash_block c crc flash k = (case flash k of
      None \<Rightarrow> None
    | Some v \<Rightarrow> if length v = block_size c \<and> block_acceptable c crc k (int (length v)) (block_of_bytes c v)
                then Some (block_of_bytes c v) else None)"
proof (cases "flash k")
  case None
  then show ?thesis by (simp add: flash_block_def)
next
  case (Some v)
  have ev: "length (blk_ev (block_of_bytes c v)) = BLOCK_EVENTS c" by (simp add: block_of_bytes_def Let_def)
  have "v = block_bytes (block_of_bytes c v) \<longleftrightarrow> length v = block_size c"
    using block_bytes_inverse [of v c] length_block_bytes [OF ev] by metis
  then have "holds_block c crc k v (block_of_bytes c v)
      \<longleftrightarrow> length v = block_size c \<and> block_acceptable c crc k (int (length v)) (block_of_bytes c v)"
    unfolding holds_block_iff using ev by auto
  with Some show ?thesis by (simp add: flash_block_def)
qed

definition last_seq :: "totem_diag_block \<Rightarrow> u32" where
  "last_seq b = blk_first_event_seq b + ucast (blk_count b) - 1"

text \<open>One settings callback of \<open>settings_load\<close> for slot \<open>k\<close>, and the load of the keys in a given order.\<close>

definition load_slot ::
  "totem_config \<Rightarrow> (u8 list \<Rightarrow> u32) \<Rightarrow> (nat \<rightharpoonup> u8 list) \<Rightarrow> nat \<Rightarrow> journal \<Rightarrow> journal" where
  "load_slot c crc flash k s = (case flash k of
      None \<Rightarrow> s
    | Some v \<Rightarrow> snd (hevt_settings_set c crc (''dlog/'' @ dec k) (length v) (int (length v), v) s))"

definition load_journal ::
  "totem_config \<Rightarrow> (u8 list \<Rightarrow> u32) \<Rightarrow> (nat \<rightharpoonup> u8 list) \<Rightarrow> nat list \<Rightarrow> journal" where
  "load_journal c crc flash order = fold (load_slot c crc flash) order (journal_boot c)"

interpretation block_envelope: sealed_store "seal_block crc"
  "\<lambda>b. blk_crc b = crc (block_prefix_bytes b)" "\<lambda>b. b\<lparr>blk_crc := 0\<rparr>" for crc
  by unfold_locales (simp_all add: seal_block_def block_prefix_bytes_def)

lemma dec_digit: "k < 10 \<Longrightarrow> dec k = [digit_char k]"
  by (subst dec.simps) simp

lemma slot_name:
  assumes "k < 10"
  shows "take 5 (''dlog/'' @ dec k) = ''dlog/''" "c_char (''dlog/'' @ dec k) 5 = 48 + k"
    "c_char (''dlog/'' @ dec k) 6 = 0"
  using assms by (simp_all add: dec_digit c_char_def digit_char_def)

lemma load_slot_None:
  assumes "k < JOURNAL_SLOTS c" and "JOURNAL_SLOTS c \<le> 8" and "flash_block c crc flash k = None"
  shows "\<exists>b. load_slot c crc flash k s = s\<lparr>restored_blocks := (restored_blocks s)[k := b]\<rparr>"
proof (cases "flash k")
  case None
  then show ?thesis by (intro exI [of _ "restored_blocks s ! k"]) (simp add: load_slot_def)
next
  case (Some v)
  have "k < 10" using assms by simp
  note nm = slot_name [OF this]
  show ?thesis
  proof (cases "length v = block_size c")
    case False
    with Some nm assms show ?thesis
      by (intro exI [of _ "restored_blocks s ! k"]) (simp add: load_slot_def hevt_settings_set_def Let_def)
  next
    case True
    with Some assms(3) have "\<not> block_acceptable c crc k (int (length v)) (block_of_bytes c v)"
      by (simp add: flash_block_code split: if_splits)
    with Some True nm assms show ?thesis
      by (intro exI [of _ "block_of_bytes c v"])
        (simp add: load_slot_def hevt_settings_set_def Let_def read_buffer_def)
  qed
qed

lemma load_slot_Some:
  assumes "k < JOURNAL_SLOTS c" and "JOURNAL_SLOTS c \<le> 8" and "flash_block c crc flash k = Some b"
  shows "load_slot c crc flash k s =
    s\<lparr>restored_blocks := (restored_blocks s)[k := b], restored_valid := (restored_valid s)[k := True],
      journal_seq := max (journal_seq s) (blk_journal_seq b),
      next_slot := (if journal_seq s \<le> blk_journal_seq b then (k + 1) mod JOURNAL_SLOTS c else next_slot s),
      persisted_event_seq := max (persisted_event_seq s) (last_seq b)\<rparr>"
proof -
  from assms(3) obtain v where v: "flash k = Some v" "length v = block_size c" "b = block_of_bytes c v"
    "block_acceptable c crc k (int (length v)) b"
    by (auto simp: flash_block_code split: option.splits if_splits)
  have "k < 10" using assms by simp
  note nm = slot_name [OF this]
  have set: "hevt_settings_set c crc (''dlog/'' @ dec k) (length v) (int (length v), v) s =
     (0, let s1 = s\<lparr>restored_blocks := (restored_blocks s)[k := b], restored_valid := (restored_valid s)[k := True]\<rparr>;
             s2 = (if journal_seq s1 \<le> blk_journal_seq b
                   then s1\<lparr>journal_seq := blk_journal_seq b, next_slot := (k + 1) mod JOURNAL_SLOTS c\<rparr> else s1)
         in if persisted_event_seq s2 < last_seq b then s2\<lparr>persisted_event_seq := last_seq b\<rparr> else s2)"
    using nm v(2,4) assms(1,2)
    by (simp add: hevt_settings_set_def Let_def read_buffer_def last_seq_def v(3) [symmetric])
  show ?thesis
    by (cases "journal_seq s \<le> blk_journal_seq b"; cases "persisted_event_seq s < last_seq b")
      (simp_all only: load_slot_def v(1) option.case set snd_conv, simp_all add: Let_def max_def not_le not_less)
qed

section \<open>Loading all slots\<close>

definition intact_blocks ::
  "totem_config \<Rightarrow> (u8 list \<Rightarrow> u32) \<Rightarrow> (nat \<rightharpoonup> u8 list) \<Rightarrow> nat set \<Rightarrow> totem_diag_block set" where
  "intact_blocks c crc flash ks = {b. \<exists>k\<in>ks. flash_block c crc flash k = Some b}"

lemma finite_intact_blocks [simp]: "finite ks \<Longrightarrow> finite (intact_blocks c crc flash ks)"
proof -
  assume "finite ks"
  then have "finite (the ` flash_block c crc flash ` ks)" by simp
  moreover have "intact_blocks c crc flash ks \<subseteq> the ` flash_block c crc flash ` ks"
    by (force simp: intact_blocks_def image_def)
  ultimately show ?thesis by (rule rev_finite_subset)
qed

lemma intact_blocks_empty [simp]: "intact_blocks c crc flash {} = {}"
  by (simp add: intact_blocks_def)

lemma intact_blocks_insert:
  "intact_blocks c crc flash (insert k ks)
     = (case flash_block c crc flash k of None \<Rightarrow> {} | Some b \<Rightarrow> {b}) \<union> intact_blocks c crc flash ks"
  by (auto simp: intact_blocks_def split: option.splits)

lemma load_slot_length [simp]:
  assumes "k < JOURNAL_SLOTS c" and "JOURNAL_SLOTS c \<le> 8"
  shows "length (restored_valid (load_slot c crc flash k s)) = length (restored_valid s)"
    "length (restored_blocks (load_slot c crc flash k s)) = length (restored_blocks s)"
  using load_slot_None [OF assms, of crc flash s] load_slot_Some [OF assms, of crc flash _ s]
  by (cases "flash_block c crc flash k"; auto)+

text \<open>The fields of the journal after the callbacks for the slots of \<open>order\<close>.\<close>

lemma load_slots_restored:
  assumes "JOURNAL_SLOTS c \<le> 8" and "set order \<subseteq> {..<JOURNAL_SLOTS c}" and "distinct order"
    and "length (restored_valid s) = JOURNAL_SLOTS c" and "length (restored_blocks s) = JOURNAL_SLOTS c"
    and "k < JOURNAL_SLOTS c"
  shows "restored_valid (fold (load_slot c crc flash) order s) ! k
           = (restored_valid s ! k \<or> k \<in> set order \<and> flash_block c crc flash k \<noteq> None)
    \<and> (k \<in> set order \<longrightarrow> flash_block c crc flash k = Some b \<longrightarrow>
          restored_blocks (fold (load_slot c crc flash) order s) ! k = b)
    \<and> (k \<notin> set order \<longrightarrow> restored_blocks (fold (load_slot c crc flash) order s) ! k = restored_blocks s ! k)"
  using assms
proof (induction order arbitrary: s)
  case Nil
  then show ?case by simp
next
  case (Cons j order)
  let ?s = "load_slot c crc flash j s"
  have j: "j < JOURNAL_SLOTS c" using Cons.prems by simp
  have IH: "restored_valid (fold (load_slot c crc flash) order ?s) ! k
           = (restored_valid ?s ! k \<or> k \<in> set order \<and> flash_block c crc flash k \<noteq> None)
    \<and> (k \<in> set order \<longrightarrow> flash_block c crc flash k = Some b \<longrightarrow>
          restored_blocks (fold (load_slot c crc flash) order ?s) ! k = b)
    \<and> (k \<notin> set order \<longrightarrow> restored_blocks (fold (load_slot c crc flash) order ?s) ! k = restored_blocks ?s ! k)"
    using Cons.prems j by (intro Cons.IH) simp_all
  show ?case
  proof (cases "flash_block c crc flash j")
    case None
    with load_slot_None [OF j Cons.prems(1) None, of s] IH Cons.prems show ?thesis
      by (cases "k = j") auto
  next
    case (Some b')
    with load_slot_Some [OF j Cons.prems(1) Some, of s] IH Cons.prems show ?thesis
      by (cases "k = j") auto
  qed
qed

lemma load_slots_counters:
  assumes "JOURNAL_SLOTS c \<le> 8" and "set order \<subseteq> {..<JOURNAL_SLOTS c}"
  shows "journal_seq (fold (load_slot c crc flash) order s)
      = Max (insert (journal_seq s) (blk_journal_seq ` intact_blocks c crc flash (set order)))
    \<and> persisted_event_seq (fold (load_slot c crc flash) order s)
      = Max (insert (persisted_event_seq s) (last_seq ` intact_blocks c crc flash (set order)))"
  using assms
proof (induction order arbitrary: s)
  case Nil
  then show ?case by (simp add: intact_blocks_def)
next
  case (Cons j order)
  have j: "j < JOURNAL_SLOTS c" using Cons.prems by simp
  have step: "Max (insert (max a x) A) = Max (insert a (insert x A))" if "finite A" for a x :: u32 and A
    using that by (cases "A = {}") (simp_all add: ac_simps)
  show ?case
  proof (cases "flash_block c crc flash j")
    case None
    with load_slot_None [OF j Cons.prems(1) None, of s] Cons.IH [of "load_slot c crc flash j s"] Cons.prems
    show ?thesis by (auto simp: intact_blocks_insert)
  next
    case (Some b')
    with load_slot_Some [OF j Cons.prems(1) Some, of s] Cons.IH [of "load_slot c crc flash j s"] Cons.prems
    show ?thesis by (simp add: intact_blocks_insert step del: Max_insert)
  qed
qed

lemma load_slots_next_keep:
  assumes "JOURNAL_SLOTS c \<le> 8" and "set order \<subseteq> {..<JOURNAL_SLOTS c}"
    and "\<And>b. b \<in> intact_blocks c crc flash (set order) \<Longrightarrow> blk_journal_seq b < journal_seq s"
  shows "next_slot (fold (load_slot c crc flash) order s) = next_slot s"
  using assms
proof (induction order arbitrary: s)
  case Nil
  then show ?case by simp
next
  case (Cons j order)
  have j: "j < JOURNAL_SLOTS c" using Cons.prems by simp
  show ?case
  proof (cases "flash_block c crc flash j")
    case None
    with load_slot_None [OF j Cons.prems(1) None, of s] Cons.IH [of "load_slot c crc flash j s"] Cons.prems
    show ?thesis by (auto simp: intact_blocks_insert)
  next
    case (Some b')
    then have lt: "blk_journal_seq b' < journal_seq s"
      by (intro Cons.prems(3)) (simp add: intact_blocks_insert)
    then have keep: "journal_seq (load_slot c crc flash j s) = journal_seq s"
      "next_slot (load_slot c crc flash j s) = next_slot s"
      using load_slot_Some [OF j Cons.prems(1) Some, of s] lt [unfolded not_le [symmetric]] by (simp_all add: max_def)
    then have "next_slot (fold (load_slot c crc flash) order (load_slot c crc flash j s)) = next_slot s"
      using Cons.IH [of "load_slot c crc flash j s"] Cons.prems by (simp add: intact_blocks_insert)
    then show ?thesis by simp
  qed
qed

text \<open>The write position follows the newest block, wherever it comes in the load order.\<close>

lemma load_slots_next:
  assumes "JOURNAL_SLOTS c \<le> 8" and "set order \<subseteq> {..<JOURNAL_SLOTS c}" and "distinct order"
    and "k \<in> set order" and "flash_block c crc flash k = Some b" and "journal_seq s \<le> blk_journal_seq b"
    and "\<And>b'. b' \<in> intact_blocks c crc flash (set order - {k}) \<Longrightarrow> blk_journal_seq b' < blk_journal_seq b"
  shows "next_slot (fold (load_slot c crc flash) order s) = (k + 1) mod JOURNAL_SLOTS c"
  using assms
proof (induction order arbitrary: s)
  case Nil
  then show ?case by simp
next
  case (Cons j order)
  have j: "j < JOURNAL_SLOTS c" using Cons.prems by simp
  show ?case
  proof (cases "j = k")
    case True
    then have rest: "set (j # order) - {k} = set order" using Cons.prems(3) by auto
    have "load_slot c crc flash k s = s\<lparr>restored_blocks := (restored_blocks s)[k := b],
        restored_valid := (restored_valid s)[k := True], journal_seq := blk_journal_seq b,
        next_slot := (k + 1) mod JOURNAL_SLOTS c,
        persisted_event_seq := max (persisted_event_seq s) (last_seq b)\<rparr>"
      using load_slot_Some [OF j [unfolded True] Cons.prems(1,5), of s] Cons.prems(6) by (simp add: max_def)
    then show ?thesis
      using load_slots_next_keep [of c order crc flash "load_slot c crc flash k s"] True Cons.prems(1,2,7) rest
      by simp
  next
    case False
    then have rest: "set (j # order) - {k} = insert j (set order - {k})" by auto
    have "journal_seq (load_slot c crc flash j s) \<le> blk_journal_seq b"
    proof (cases "flash_block c crc flash j")
      case None
      with load_slot_None [OF j Cons.prems(1) None, of s] Cons.prems(6) show ?thesis by auto
    next
      case (Some b')
      then have "blk_journal_seq b' < blk_journal_seq b"
        using False by (intro Cons.prems(7)) (auto simp: intact_blocks_def)
      with load_slot_Some [OF j Cons.prems(1) Some, of s] Cons.prems(6) show ?thesis by simp
    qed
    with False show ?thesis
      using Cons.IH [of "load_slot c crc flash j s"] Cons.prems rest by (auto simp: intact_blocks_insert)
  qed
qed

section \<open>A written block survives a reset\<close>

lemma make_block_acceptable:
  assumes "0 < count" and "count \<le> BLOCK_EVENTS c" and "BLOCK_EVENTS c \<le> 32"
  shows "block_acceptable c crc (next_slot s) (int (block_size c)) (make_block c crc count s)"
    and "length (blk_ev (make_block c crc count s)) = BLOCK_EVENTS c"
    and "last_seq (make_block c crc count s) = first_new s + of_nat (count - 1)"
proof -
  have u: "unat (of_nat count :: u8) = count" using assms by (simp add: unat_of_nat_small)
  then have "(of_nat count :: u8) \<noteq> 0" using assms(1) by (metis neq0_conv unat_0)
  then show "block_acceptable c crc (next_slot s) (int (block_size c)) (make_block c crc count s)"
    using assms u by (simp add: block_acceptable_def make_block_def seal_block_def block_prefix_bytes_def Let_def)
  show "length (blk_ev (make_block c crc count s)) = BLOCK_EVENTS c"
    using assms by (simp add: make_block_def seal_block_def Let_def)
  have "(ucast (of_nat count :: u8) :: u32) = of_nat (unat (of_nat count :: u8))" by (simp only: of_nat_unat)
  then show "last_seq (make_block c crc count s) = first_new s + of_nat (count - 1)"
    using assms(1) u by (simp add: last_seq_def make_block_def seal_block_def Let_def of_nat_diff algebra_simps)
qed

lemma persist_write_flash:
  assumes "persist_copy c crc now s = (Persist_write slot b q, s1)"
    and "journal_inv c s" and "seq_room s" and "kconfig_ok c"
  shows "flash_block c crc (flash(slot \<mapsto> block_bytes b)) slot = Some b" and "last_seq b = q"
    and "blk_journal_seq b = journal_seq s + 1" and "slot < JOURNAL_SLOTS c"
    and "journal_ready s" and "persisted_event_seq s \<le> q"
proof -
  have be: "0 < BLOCK_EVENTS c" "BLOCK_EVENTS c \<le> 32" using assms(4) by (simp_all add: kconfig_ok_def)
  from persist_copy_writeE [OF assms(1-3) be(1)] obtain count
    where ready: "journal_ready s" and count: "0 < count" "count \<le> BLOCK_EVENTS c"
      and sum: "unat (first_new s) + count \<le> unat (ring_seq s) + 1"
      and b: "b = make_block c crc count s" and slot: "slot = next_slot s"
      and q: "q = first_new s + of_nat (count - 1)" by metis
  note ok = make_block_acceptable [OF count be(2), of crc s, folded b slot]
  show "flash_block c crc (flash(slot \<mapsto> block_bytes b)) slot = Some b"
    using ok by (simp add: flash_block_code length_block_bytes [OF ok(2)] block_of_bytes_inverse [OF ok(2)])
  show "last_seq b = q" using ok(3) q by simp
  show "blk_journal_seq b = journal_seq s + 1" by (simp add: b make_block_def seal_block_def Let_def)
  show "slot < JOURNAL_SLOTS c" using assms(2) slot by (simp add: journal_inv_def)
  show "journal_ready s" by (rule ready)
  have "unat (first_new s) + (count - 1) < 2 ^ 32" using sum count(1) assms(3) unfolding seq_room_def by linarith
  then have "unat q = unat (first_new s) + (count - 1)" unfolding q by (intro of_nat_inverse) simp_all
  moreover have "unat (persisted_event_seq s) + 1 \<le> unat (first_new s)"
    by (simp add: unat_first_new [OF assms(2,3) ready])
  ultimately show "persisted_event_seq s \<le> q" unfolding word_le_nat_alt by linarith
qed

text \<open>The blocks in flash are older than the running journal's counters.\<close>

definition flash_within ::
  "totem_config \<Rightarrow> (u8 list \<Rightarrow> u32) \<Rightarrow> (nat \<rightharpoonup> u8 list) \<Rightarrow> journal \<Rightarrow> bool" where
  "flash_within c crc flash s \<longleftrightarrow> (\<forall>b \<in> intact_blocks c crc flash {..<JOURNAL_SLOTS c}.
     blk_journal_seq b \<le> journal_seq s \<and> last_seq b \<le> persisted_event_seq s)"

lemma flash_block_other: "j \<noteq> k \<Longrightarrow> flash_block c crc (flash(k \<mapsto> v)) j = flash_block c crc flash j"
  by (simp add: flash_block_code)

lemma load_other_fields [simp]:
  assumes "JOURNAL_SLOTS c \<le> 8" and "set order \<subseteq> {..<JOURNAL_SLOTS c}"
  shows "journal_ready (fold (load_slot c crc flash) order s) = journal_ready s
       \<and> ring_count (fold (load_slot c crc flash) order s) = ring_count s
       \<and> ring_get_ordered (fold (load_slot c crc flash) order s) = ring_get_ordered s"
  using assms(2)
proof (induction order arbitrary: s)
  case Nil
  then show ?case by simp
next
  case (Cons j order)
  have j: "j < JOURNAL_SLOTS c" using Cons.prems by simp
  have "journal_ready (load_slot c crc flash j s) = journal_ready s
      \<and> ring_count (load_slot c crc flash j s) = ring_count s
      \<and> ring_get_ordered (load_slot c crc flash j s) = ring_get_ordered s"
    using load_slot_None [OF j assms(1), of crc flash s] load_slot_Some [OF j assms(1), of crc flash _ s]
    by (cases "flash_block c crc flash j") (auto simp: ring_get_ordered_def)
  with Cons show ?case by simp
qed

text \<open>
  A second delivery of a slot whose data is no longer intact replaces the block's contents but
  leaves the slot marked as valid.
\<close>

lemma stale_valid_slot:
  assumes "1 < JOURNAL_SLOTS c" and "restored_valid s ! 1" and "length (restored_blocks s) = JOURNAL_SLOTS c"
    and "rc < 0"
  shows "restored_valid (snd (hevt_settings_set c crc ''dlog/1'' (block_size c) (rc, data) s)) ! 1
    \<and> restored_blocks (snd (hevt_settings_set c crc ''dlog/1'' (block_size c) (rc, data) s)) ! 1
        = block_of_bytes c (read_buffer (block_size c) data)"
  using assms by (simp add: hevt_settings_set_def c_char_def)

section \<open>Properties\<close>

text \<open>
  C2. A reset loses no intact block and invents none: after the settings handler was called for the
  stored slots in any order, a slot is marked valid if and only if its value is what a completed write
  leaves (the image of a block with its magic number, version, slot number, a sensible count, and the
  checksum of its bytes at its end), and then it holds that block; the journal sequence is the
  greatest of those blocks, the saved event sequence the number of the last event in any of them, so a slot
  torn by a power failure hides nothing that the others hold. Numbering resumes behind it: the
  records made since the reset, all still in the ring, get the numbers that follow.
\<close>

theorem restore_exactly_intact:
  assumes "kconfig_ok c" and "CONFIG_SETTINGS c" and "distinct order" and "set order = {..<JOURNAL_SLOTS c}"
    and "length early \<le> RING_CAP c"
    and "s = fold (load_slot c crc flash) order (journal_calls c early (journal_boot c))"
    and "intact = {b. \<exists>k<JOURNAL_SLOTS c. \<exists>v. flash k = Some v \<and> holds_block c crc k v b}"
    and "settings_loaded_locked c s = (t, pending, j)"
  shows "(\<forall>k<JOURNAL_SLOTS c. restored_valid s ! k \<longleftrightarrow> (\<exists>v b. flash k = Some v \<and> holds_block c crc k v b))
    \<and> (\<forall>k<JOURNAL_SLOTS c. \<forall>v b. flash k = Some v \<longrightarrow> holds_block c crc k v b \<longrightarrow> restored_blocks s ! k = b)
    \<and> journal_seq s = Max (insert 0 (blk_journal_seq ` intact))
    \<and> persisted_event_seq s = Max (insert 0 ((\<lambda>b. blk_first_event_seq b + ucast (blk_count b) - 1) ` intact))
    \<and> journal_ready j \<and> ring_seq j = persisted_event_seq s + of_nat (length early)
    \<and> ring_get_ordered j = map stamped early"
proof -
  have n: "JOURNAL_SLOTS c \<le> 8" and cap: "0 < RING_CAP c" using assms(1) by (simp_all add: kconfig_ok_def)
  let ?early = "journal_calls c early (journal_boot c)"
  have sub: "set order \<subseteq> {..<JOURNAL_SLOTS c}" using assms(4) by simp
  have start: "restored_valid ?early = replicate (JOURNAL_SLOTS c) False" "length (restored_blocks ?early) = JOURNAL_SLOTS c"
    "journal_seq ?early = 0" "persisted_event_seq ?early = 0" "\<not> journal_ready ?early"
    using assms(2) by (simp_all add: journal_boot_def)
  have ring: "ring_inv c (journal_boot c)" "ring_get_ordered (journal_boot c) = []"
    using cap by (simp_all add: ring_inv_def ring_get_ordered_def journal_boot_def)
  have early: "ring_get_ordered ?early = map stamped early" "ring_count ?early = length early"
    using journal_calls_ring [OF ring(1), of early] journal_calls_count [of "journal_boot c" c early] assms(5)
    by (simp_all add: ring(2)) (simp add: journal_boot_def)
  have blocks: "intact_blocks c crc flash {..<JOURNAL_SLOTS c} = intact"
    unfolding assms(7) by (auto simp: intact_blocks_def flash_block_holds)
  have r: "restored_valid s ! k = (flash_block c crc flash k \<noteq> None)
      \<and> (flash_block c crc flash k = Some b \<longrightarrow> restored_blocks s ! k = b)" if "k < JOURNAL_SLOTS c" for k b
    using load_slots_restored [OF n sub assms(3), of ?early k crc flash b] that start assms(4) by (simp add: assms(6))
  have q: "journal_seq s = Max (insert 0 (blk_journal_seq ` intact))" "persisted_event_seq s = Max (insert 0 (last_seq ` intact))"
    using load_slots_counters [OF n sub, of crc flash ?early] start(3,4) by (simp_all add: assms(4,6) blocks del: Max_insert)
  have last: "last_seq = (\<lambda>b. blk_first_event_seq b + ucast (blk_count b) - 1)" by (simp add: fun_eq_iff last_seq_def)
  have "ring_get_ordered s = ring_get_ordered ?early" "\<not> journal_ready s" "ring_count s = length early"
    using load_other_fields [OF n sub, of crc flash ?early] start(5) early(2) by (simp_all add: assms(6))
  with assms(8) early(1) have "journal_ready j" "ring_seq j = persisted_event_seq s + of_nat (length early)"
    "ring_get_ordered j = map stamped early"
    by (auto simp: settings_loaded_locked_def ring_get_ordered_def)
  with r q show ?thesis unfolding last flash_block_holds by (simp add: flash_block_None)
qed

definition demo_block :: "nat \<Rightarrow> u32 \<Rightarrow> u32 \<Rightarrow> totem_diag_block" where
  "demo_block slot js first = seal_block (\<lambda>_. 7) ((zero_block minimal_config)\<lparr>blk_magic := BLOCK_MAGIC,
     blk_version := BLOCK_VERSION, blk_slot := of_nat slot, blk_count := 1, blk_journal_seq := js,
     blk_first_event_seq := first\<rparr>)"

text \<open>Slots 0 and 1 intact, the write of slot 2 torn after three bytes, slot 3 never written.\<close>

definition demo_flash :: "nat \<rightharpoonup> u8 list" where
  "demo_flash = [0 \<mapsto> block_bytes (demo_block 0 1 1), 1 \<mapsto> block_bytes (demo_block 1 2 2), 2 \<mapsto> [71, 76, 68]]"

lemma demo_flash_block:
  "flash_block minimal_config (\<lambda>_. 7) demo_flash 0 = Some (demo_block 0 1 1)"
  "flash_block minimal_config (\<lambda>_. 7) demo_flash 1 = Some (demo_block 1 2 2)"
  "flash_block minimal_config (\<lambda>_. 7) demo_flash (Suc 0) = Some (demo_block 1 2 2)"
  "flash_block minimal_config (\<lambda>_. 7) demo_flash 2 = None"
  "flash_block minimal_config (\<lambda>_. 7) demo_flash 3 = None"
proof -
  have ev: "length (blk_ev (demo_block k js f)) = BLOCK_EVENTS minimal_config" for k js f
    by (simp add: demo_block_def seal_block_def zero_block_def)
  note rt = block_of_bytes_inverse [OF ev] length_block_bytes [OF ev]
  have ok: "block_acceptable minimal_config (\<lambda>_. 7) k (int (block_size minimal_config)) (demo_block k js f)" for k js f
    by (simp add: block_acceptable_def demo_block_def seal_block_def zero_block_def minimal_config_def)
  show "flash_block minimal_config (\<lambda>_. 7) demo_flash 0 = Some (demo_block 0 1 1)"
    and "flash_block minimal_config (\<lambda>_. 7) demo_flash 1 = Some (demo_block 1 2 2)"
    and "flash_block minimal_config (\<lambda>_. 7) demo_flash (Suc 0) = Some (demo_block 1 2 2)"
    by (simp_all add: flash_block_code demo_flash_def rt ok)
  show "flash_block minimal_config (\<lambda>_. 7) demo_flash 2 = None"
    and "flash_block minimal_config (\<lambda>_. 7) demo_flash 3 = None"
    by (simp_all add: flash_block_code demo_flash_def block_size_def)
qed

lemma demo_intact:
  "intact_blocks minimal_config (\<lambda>_. 7) demo_flash {..<4} = {demo_block 0 1 1, demo_block 1 2 2}"
proof -
  have "{..<4 :: nat} = {0, 1, 2, 3}" by auto
  then show ?thesis by (simp add: intact_blocks_insert demo_flash_block insert_commute)
qed

theorem restore_exactly_intact_witness:
  "let early = [(5, log_args TOTEM_HEVT_ADV 0 0 0 0 0)];
       s = fold (load_slot minimal_config (\<lambda>_. 7) demo_flash) [2, 1, 0, 3]
             (journal_calls minimal_config early (journal_boot minimal_config));
       j = snd (snd (settings_loaded_locked minimal_config s))
   in restored_valid s ! 1 \<and> \<not> restored_valid s ! 2 \<and> restored_blocks s ! 1 = demo_block 1 2 2
      \<and> journal_seq s = 2 \<and> persisted_event_seq s = 2 \<and> ring_seq j = 3 \<and> ring_get_ordered j = map stamped early"
proof -
  let ?e = "[(5, log_args TOTEM_HEVT_ADV 0 0 0 0 0)]"
  define s where "s = fold (load_slot minimal_config (\<lambda>_. 7) demo_flash) [2, 1, 0, 3]
     (journal_calls minimal_config ?e (journal_boot minimal_config))"
  obtain t pending j where l: "settings_loaded_locked minimal_config s = (t, pending, j)" by (metis prod.exhaust)
  have n: "JOURNAL_SLOTS minimal_config = 4" by (simp add: minimal_config_def)
  have c: "CONFIG_SETTINGS minimal_config" "length ?e \<le> RING_CAP minimal_config"
    by (simp_all add: minimal_config_def totem_left_config_def)
  have "set [2, 1, 0, 3] = {..<JOURNAL_SLOTS minimal_config}" by (auto simp: n)
  then have all: "distinct [2, 1, 0, 3 :: nat]" "set [2, 1, 0, 3] = {..<JOURNAL_SLOTS minimal_config}"
    by simp_all
  have intact: "{b. \<exists>k<JOURNAL_SLOTS minimal_config. \<exists>v. demo_flash k = Some v \<and> holds_block minimal_config (\<lambda>_. 7) k v b}
      = {demo_block 0 1 1, demo_block 1 2 2}"
    unfolding demo_intact [symmetric] n by (auto simp: intact_blocks_def flash_block_holds)
  have hold: "\<exists>v. demo_flash 1 = Some v \<and> holds_block minimal_config (\<lambda>_. 7) 1 v (demo_block 1 2 2)"
    "\<not> (\<exists>v b. demo_flash 2 = Some v \<and> holds_block minimal_config (\<lambda>_. 7) 2 v b)"
    using demo_flash_block(2,4) unfolding flash_block_holds flash_block_None by blast+
  note r = restore_exactly_intact [OF kconfig_ok_minimal c(1) all c(2) s_def refl l, unfolded intact]
  from r hold n have "restored_valid s ! 1" "\<not> restored_valid s ! 2" "restored_blocks s ! 1 = demo_block 1 2 2"
    by auto
  moreover have "journal_seq s = 2" "persisted_event_seq s = 2" "ring_seq j = 3"
    using r by (simp_all add: demo_block_def seal_block_def last_seq_def)
  ultimately show ?thesis using r unfolding Let_def s_def [symmetric] by (simp add: l)
qed

text \<open>
  C3. A reset after a completed write loses nothing of it: when the writer has stored its
  block in the slot it chose, the next boot restores that block in that slot whatever the load
  order, resumes the journal sequence at it, writes next to the following slot, and numbers
  the next event directly after the last one saved.
\<close>

theorem reboot_resumes_after_write:
  assumes "kconfig_ok c" and "CONFIG_SETTINGS c" and "journal_inv c s" and "seq_room s"
    and "unat (journal_seq s) < 2 ^ 32 - 1" and "flash_within c crc flash s"
    and "persist_copy c crc now s = (Persist_write slot b q, s1)"
    and "distinct order" and "set order = {..<JOURNAL_SLOTS c}"
    and "booted = load_journal c crc (flash(slot \<mapsto> block_bytes b)) order"
  shows "restored_valid booted ! slot \<and> restored_blocks booted ! slot = b
    \<and> journal_seq booted = journal_seq s + 1 \<and> next_slot booted = (slot + 1) mod JOURNAL_SLOTS c
    \<and> persisted_event_seq booted = q
    \<and> ring_seq (snd (snd (settings_loaded_locked c booted))) = q"
proof -
  let ?fl = "flash(slot \<mapsto> block_bytes b)"
  have n: "JOURNAL_SLOTS c \<le> 8" using assms(1) by (simp add: kconfig_ok_def)
  note w = persist_write_flash [OF assms(7,3,4,1)]
  have rest: "intact_blocks c crc ?fl ({..<JOURNAL_SLOTS c} - {slot})
      \<subseteq> intact_blocks c crc flash {..<JOURNAL_SLOTS c}"
    by (auto simp: intact_blocks_def flash_block_other)
  have all: "{..<JOURNAL_SLOTS c} = insert slot ({..<JOURNAL_SLOTS c} - {slot})" using w(4) by auto
  have inc: "journal_seq s < blk_journal_seq b"
    using assms(5) by (simp add: w(3) word_less_nat_alt unat_inc)
  have old: "blk_journal_seq b' < blk_journal_seq b \<and> last_seq b' \<le> q"
    if "b' \<in> intact_blocks c crc ?fl ({..<JOURNAL_SLOTS c} - {slot})" for b'
    using that rest assms(6) inc w(6) unfolding flash_within_def by fastforce
  have blocks: "intact_blocks c crc ?fl {..<JOURNAL_SLOTS c}
      = insert b (intact_blocks c crc ?fl ({..<JOURNAL_SLOTS c} - {slot}))"
    by (subst all) (simp only: intact_blocks_insert w(1) option.case Un_insert_left Un_empty_left)
  have "Max (insert 0 (blk_journal_seq ` intact_blocks c crc ?fl {..<JOURNAL_SLOTS c})) = blk_journal_seq b"
    using old by (intro Max_eqI) (auto simp: blocks intro: less_imp_le)
  moreover have "Max (insert 0 (last_seq ` intact_blocks c crc ?fl {..<JOURNAL_SLOTS c})) = q"
    using old w(2) by (intro Max_eqI) (auto simp: blocks)
  ultimately have js: "journal_seq booted = blk_journal_seq b" and ps: "persisted_event_seq booted = q"
    using load_slots_counters [OF n, of order crc ?fl "journal_boot c"] assms(9,10)
    by (simp_all add: load_journal_def journal_boot_def del: Max_insert)
  have rv: "restored_valid booted ! slot \<and> restored_blocks booted ! slot = b"
    using load_slots_restored [OF n _ assms(8), of "journal_boot c" slot crc ?fl b] assms(9,10) w(1,4)
    by (simp add: load_journal_def journal_boot_def)
  have ns: "next_slot booted = (slot + 1) mod JOURNAL_SLOTS c"
    unfolding assms(10) load_journal_def
    using old w(1,4) assms(8,9) by (intro load_slots_next [OF n]) (auto simp: journal_boot_def)
  have "\<not> journal_ready booted" "ring_count booted = 0"
    using load_other_fields [OF n, of order crc ?fl "journal_boot c"] assms(2,9,10)
    by (simp_all add: load_journal_def journal_boot_def)
  then have "ring_seq (snd (snd (settings_loaded_locked c booted))) = q"
    by (simp add: settings_loaded_locked_def ps)
  with rv js ps ns w(3) show ?thesis by simp
qed

theorem reboot_resumes_after_write_witness:
  "let b = make_block minimal_config (\<lambda>_. 0) 1 demo_recorded;
       booted = load_journal minimal_config (\<lambda>_. 0) [0 \<mapsto> block_bytes b] [3, 0, 2, 1]
   in restored_valid booted ! 0 \<and> restored_blocks booted ! 0 = b \<and> next_slot booted = 1
      \<and> ring_seq (snd (snd (settings_loaded_locked minimal_config booted))) = 1"
proof -
  have n: "JOURNAL_SLOTS minimal_config = 4" by (simp add: minimal_config_def)
  have set: "CONFIG_SETTINGS minimal_config" by (simp add: minimal_config_def totem_left_config_def)
  have js: "unat (journal_seq demo_recorded) < 2 ^ 32 - 1" by (simp add: demo_defs)
  have fw: "flash_within minimal_config (\<lambda>_. 0) Map.empty demo_recorded"
    by (simp add: flash_within_def intact_blocks_def flash_block_code)
  have ord: "distinct [3, 0, 2, 1 :: nat]" "set [3, 0, 2, 1] = {..<JOURNAL_SLOTS minimal_config}"
    by (auto simp: n)
  from reboot_resumes_after_write [OF kconfig_ok_minimal set demo_inv(1,2) js fw demo_copy ord refl]
  show ?thesis by (simp add: Let_def n)
qed

end
