(* ===== verification/Journal_Rate.thy ===== *)
theory Journal_Rate
  imports Journal_History
begin

text \<open>
  How often the journal writes to flash, and what happens when a write fails: a run is a
  sequence of recorded events and writer attempts, each attempt with its clock readings; what the
  storage answers to a write is up to the storage.
\<close>

datatype journal_op =
    Op_record int totem_host_event bool
  | Op_attempt int int

primrec journal_step ::
  "totem_config \<Rightarrow> (u8 list \<Rightarrow> u32) \<Rightarrow> ('f \<times> 'b \<Rightarrow> int \<times> 'f \<times> 'b) \<Rightarrow> 'f storage \<Rightarrow> journal_op
   \<Rightarrow> journal \<times> 'f \<times> 'b \<Rightarrow> journal \<times> 'f \<times> 'b" where
  "journal_step c crc bp save (Op_record now e p) sb = (record_event c now e p (fst sb), snd sb)"
| "journal_step c crc bp save (Op_attempt now now') sb = totem_host_event_log_persist c crc bp save now now' sb"

primrec op_time :: "journal_op \<Rightarrow> int" where
  "op_time (Op_record now e p) = now"
| "op_time (Op_attempt now now') = now"

text \<open>Does the operation call \<open>settings_save_one\<close> for a block?\<close>

definition would_write :: "totem_config \<Rightarrow> (u8 list \<Rightarrow> u32) \<Rightarrow> int \<Rightarrow> journal \<Rightarrow> bool" where
  "would_write c crc now s \<longleftrightarrow> CONFIG_SETTINGS c \<and>
     (case fst (persist_copy c crc now s) of Persist_write slot b q \<Rightarrow> True | _ \<Rightarrow> False)"

primrec writes_flash :: "totem_config \<Rightarrow> (u8 list \<Rightarrow> u32) \<Rightarrow> journal_op \<Rightarrow> journal \<times> 'b \<Rightarrow> bool" where
  "writes_flash c crc (Op_record now e p) sb = False"
| "writes_flash c crc (Op_attempt now now') sb = would_write c crc now (fst sb)"

primrec op_clock_ok :: "totem_config \<Rightarrow> journal_op \<Rightarrow> bool" where
  "op_clock_ok c (Op_record now e p) = (0 \<le> PERSIST_MIN_INTERVAL_MS c)"
| "op_clock_ok c (Op_attempt now now') = (0 \<le> PERSIST_MIN_INTERVAL_MS c \<and> 0 < now \<and> now \<le> now')"

definition write_not_before :: "totem_config \<Rightarrow> journal \<times> 'b \<Rightarrow> int" where
  "write_not_before c sb = (if last_persist_uptime_ms (fst sb) = 0 then 0
     else last_persist_uptime_ms (fst sb) + PERSIST_MIN_INTERVAL_MS c)"

lemma persist_copy_cases:
  obtains (idle) "persist_copy c crc now s = (Persist_return, s)"
  | (all_saved) "persist_copy c crc now s = (Persist_return, s\<lparr>persist_requested := False\<rparr>)"
  | (too_soon) "persist_copy c crc now s = (Persist_defer, s)"
      "last_persist_uptime_ms s \<noteq> 0" "now - last_persist_uptime_ms s < PERSIST_MIN_INTERVAL_MS c"
  | (go) slot b q where "persist_copy c crc now s
      = (Persist_write slot b q, s\<lparr>journal_seq := journal_seq s + 1, persist_requested := False\<rparr>)"
      "last_persist_uptime_ms s = 0 \<or> PERSIST_MIN_INTERVAL_MS c \<le> now - last_persist_uptime_ms s"
proof -
  let ?soon = "last_persist_uptime_ms s \<noteq> 0 \<and> now - last_persist_uptime_ms s < PERSIST_MIN_INTERVAL_MS c"
  consider "\<not> journal_ready s" | "journal_ready s" ?soon | "journal_ready s" "\<not> ?soon" "first_new s > ring_seq s"
    | "journal_ready s" "\<not> ?soon" "\<not> first_new s > ring_seq s" by blast
  then show ?thesis
  proof cases
    case 1
    then show ?thesis by (intro idle) (simp add: persist_copy_def)
  next
    case 2
    then show ?thesis by (intro too_soon) (simp_all add: persist_copy_def)
  next
    case 3
    then show ?thesis by (intro that(2)) (simp add: persist_copy_def)
  next
    case 4
    then show ?thesis by (intro go) (auto simp: persist_copy_def Let_def)
  qed
qed

lemma persist_commit_last [simp]:
  "last_persist_uptime_ms (snd (persist_commit c now err slot b q s)) = now"
  by (simp add: persist_commit_def Let_def)

lemma persist_last:
  "last_persist_uptime_ms (fst (totem_host_event_log_persist c crc bp save now now' sb)) =
     (if would_write c crc now (fst sb) then now' else last_persist_uptime_ms (fst sb))"
proof -
  obtain s fb where Pair: "sb = (s, fb)" by (rule prod.exhaust)
  show ?thesis
    by (rule persist_copy_cases [of c crc now s])
      (simp_all add: Pair would_write_def totem_host_event_log_persist_def case_prod_beta Let_def)
qed

interpretation flash_writer: rate_limited "journal_step c crc bp save" op_time "writes_flash c crc"
  "write_not_before c" "PERSIST_MIN_INTERVAL_MS c" "op_clock_ok c" "\<lambda>_. True" for c crc bp save
proof unfold_locales
  fix e :: journal_op and sb :: "journal \<times> 'a \<times> 'b"
  assume ok: "op_clock_ok c e"
  show "0 \<le> PERSIST_MIN_INTERVAL_MS c" using ok by (cases e) simp_all
  show "write_not_before c sb \<le> op_time e" if "writes_flash c crc e sb"
    using that ok
    by (cases e; cases rule: persist_copy_cases [of c crc "op_time e" "fst sb"])
      (auto simp: write_not_before_def would_write_def)
  show "op_time e + PERSIST_MIN_INTERVAL_MS c \<le> write_not_before c (journal_step c crc bp save e sb)"
    if "writes_flash c crc e sb"
    using that ok by (cases e) (auto simp: write_not_before_def persist_last)
  show "write_not_before c sb \<le> write_not_before c (journal_step c crc bp save e sb)"
    if "\<not> writes_flash c crc e sb"
    using that ok by (cases e) (simp_all add: write_not_before_def persist_last)
qed simp

text \<open>
  C27. Flash wear is bounded: within one boot, whatever is recorded and whether or not the
  writes succeed, two journal writes are at least \<open>PERSIST_MIN_INTERVAL_MS\<close> apart.
\<close>

theorem flash_writes_spaced:
  assumes "kconfig_ok c" and "list_all (op_clock_ok c) ops"
  shows "sorted_wrt (\<lambda>t t'. t + PERSIST_MIN_INTERVAL_MS c \<le> t')
     (fire_times (journal_step c crc bp save) op_time (writes_flash c crc) ops (s, fb))"
  by (rule flash_writer.fire_times_spaced [OF assms(2) TrueI])

theorem flash_writes_spaced_witness:
  "let ops = [Op_record 1 zero_event True, Op_attempt 5 6, Op_record 7 zero_event True,
              Op_attempt 8 8, Op_attempt 5006 5007]
   in fire_times (journal_step minimal_config (\<lambda>_. 0) (\<lambda>fb. (0, fb)) (\<lambda>_ _ f. (0, f))) op_time
        (writes_flash minimal_config (\<lambda>_. 0)) ops (demo_loaded, (), ()) = [5, 5006]
      \<and> sorted_wrt (\<lambda>t t'. t + 5000 \<le> t') [5, 5006 :: int]"
proof -
  let ?ops = "[Op_record 1 zero_event True, Op_attempt 5 6, Op_record 7 zero_event True,
              Op_attempt 8 8, Op_attempt 5006 5007]"
  let ?fires = "fire_times (journal_step minimal_config (\<lambda>_. 0) (\<lambda>fb. (0, fb)) (\<lambda>_ _ f. (0, f))) op_time
        (writes_flash minimal_config (\<lambda>_. 0)) ?ops (demo_loaded, (), ())"
  have gap: "PERSIST_MIN_INTERVAL_MS minimal_config = 5000" by (simp add: minimal_config_def)
  have "list_all (op_clock_ok minimal_config) ?ops" by (simp add: gap)
  from flash_writes_spaced [OF kconfig_ok_minimal this, of "\<lambda>_. 0" "\<lambda>fb. (0, fb)" "\<lambda>_ _ f. (0, f)" demo_loaded "((), ())"]
  have sp: "sorted_wrt (\<lambda>t t'. t + 5000 \<le> t') ?fires" by (simp only: gap)
  have "?fires = [5, 5006]" by code_simp
  with sp show ?thesis by (simp only: Let_def)
qed

section \<open>A failed write\<close>

text \<open>A storage that accepts every save and remembers the saves in their order.\<close>

definition trace_save :: "(string \<times> u8 list) list storage" where
  "trace_save key v log = (0, log @ [(key, v)])"

lemma would_writeE:
  assumes "would_write c crc now s"
  obtains slot blk q where "CONFIG_SETTINGS c" and "persist_copy c crc now s
      = (Persist_write slot blk q, s\<lparr>journal_seq := journal_seq s + 1, persist_requested := False\<rparr>)"
  using assms that by (cases rule: persist_copy_cases [of c crc now s]) (auto simp: would_write_def)

text \<open>The state after a write that failed.\<close>

lemma persist_failed:
  assumes "CONFIG_SETTINGS c" and "persist_copy c crc now s = (Persist_write slot blk q, s1)"
    and "\<And>v f. fst (save (slot_key slot) v f) \<noteq> 0" and "0 < now'" and "0 < PERSIST_MIN_INTERVAL_MS c"
    and "journal_ready s1"
  shows "fst (totem_host_event_log_persist c crc bp save now now' (s, fb))
    = s1\<lparr>last_persist_uptime_ms := now', persist_requested := True,
         persist_work_requests := persist_work_requests s1 @ [Work_reschedule (PERSIST_MIN_INTERVAL_MS c)]\<rparr>"
  using assms(1-2,4-6) assms(3) [of "block_bytes blk" "fst (snd (bp fb))"]
  by (simp add: totem_host_event_log_persist_def case_prod_beta persist_commit_def schedule_persist_coalesced_def Let_def)

text \<open>A block of the same state but for the sequence number of the block holds the same events.\<close>

lemma copy_again:
  assumes "persist_copy c crc now s = (Persist_write slot blk q, s1)"
    and "last_persist_uptime_ms s' + PERSIST_MIN_INTERVAL_MS c \<le> now2" and "journal_ready s'"
    and "next_slot s' = next_slot s" and "persisted_event_seq s' = persisted_event_seq s" and "ring s' = ring s"
    and "ring_head s' = ring_head s" and "ring_count s' = ring_count s" and "ring_seq s' = ring_seq s"
  obtains blk2 where "persist_copy c crc now2 s'
      = (Persist_write slot blk2 q, s'\<lparr>journal_seq := journal_seq s' + 1, persist_requested := False\<rparr>)"
    and "block_events blk2 = block_events blk"
proof -
  have f: "first_available s' = first_available s" "first_new s' = first_new s"
    using assms(5,8,9) by (simp_all add: first_available_def first_new_def Let_def)
  have ev: "block_events (make_block c crc n s') = block_events (make_block c crc n s)" for n
    using assms(6-8) f by (simp add: block_events_def make_block_def seal_block_def Let_def)
  from assms(1) have new: "\<not> first_new s > ring_seq s"
    and w: "slot = next_slot s" "blk = make_block c crc (min (unat (ring_seq s - first_new s + 1)) (BLOCK_EVENTS c)) s"
      "q = first_new s + of_nat (min (unat (ring_seq s - first_new s + 1)) (BLOCK_EVENTS c)) - 1"
    by (auto simp: persist_copy_def Let_def split: if_splits)
  show thesis
    by (rule that [of "make_block c crc (min (unat (ring_seq s - first_new s + 1)) (BLOCK_EVENTS c)) s'"])
      (use assms(2-4,9) f new w ev in \<open>simp_all add: persist_copy_def Let_def\<close>)
qed

text \<open>
  C28. A failed flash write loses nothing and is retried: when the writer hands a block to the storage and
  the storage refuses it, no event is marked as saved, the write position, the restored blocks and the
  ring stay, and the writer leaves its work item rescheduled after exactly the minimum interval; when it
  runs then or later, it hands over the same events for the same slot, and once that write succeeds
  they count as saved.
\<close>

theorem failed_write_retried:
  assumes "kconfig_ok c" and "would_write c crc now s"
    and "\<And>v f. fst (save (slot_key (next_slot s)) v f) \<noteq> 0" and "0 < now'"
    and "totem_host_event_log_persist c crc bp save now now' (s, fb) = (s', fb')"
    and "now' + PERSIST_MIN_INTERVAL_MS c \<le> now2"
    and "totem_host_event_log_persist c crc bp2 trace_save now2 now3 (s', log, b) = (s'', log'', b'')"
  shows "persist_requested s' \<and> persisted_event_seq s' = persisted_event_seq s
    \<and> next_slot s' = next_slot s \<and> restored_valid s' = restored_valid s \<and> restored_blocks s' = restored_blocks s
    \<and> ring_get_ordered s' = ring_get_ordered s \<and> ring_seq s' = ring_seq s
    \<and> persist_work_requests s' = persist_work_requests s @ [Work_reschedule (PERSIST_MIN_INTERVAL_MS c)]
    \<and> (\<exists>blk q s1 blk2. persist_copy c crc now s = (Persist_write (next_slot s) blk q, s1)
         \<and> log'' = fst (snd (bp2 (log, b))) @ [(slot_key (next_slot s), block_bytes blk2)]
         \<and> block_events blk2 = block_events blk \<and> persisted_event_seq s'' = q)"
proof -
  from would_writeE [OF assms(2)] obtain slot blk q where set: "CONFIG_SETTINGS c" and copy: "persist_copy c crc now s
      = (Persist_write slot blk q, s\<lparr>journal_seq := journal_seq s + 1, persist_requested := False\<rparr>)" by metis
  then have slot: "slot = next_slot s" and ready: "journal_ready s"
    by (auto simp: persist_copy_def Let_def split: if_splits)
  have pos: "0 < PERSIST_MIN_INTERVAL_MS c" using assms(1) by (simp add: kconfig_ok_def)
  have s': "s' = s\<lparr>journal_seq := journal_seq s + 1, last_persist_uptime_ms := now', persist_requested := True,
      persist_work_requests := persist_work_requests s @ [Work_reschedule (PERSIST_MIN_INTERVAL_MS c)]\<rparr>"
    using persist_failed [where save = save, OF set copy assms(3) [folded slot] assms(4) pos, of bp fb] assms(5) ready by simp
  from copy_again [OF copy, of s' now2] assms(6) ready obtain blk2 where again: "persist_copy c crc now2 s'
      = (Persist_write slot blk2 q, s'\<lparr>journal_seq := journal_seq s' + 1, persist_requested := False\<rparr>)"
    and same: "block_events blk2 = block_events blk" by (auto simp: s')
  have "log'' = fst (snd (bp2 (log, b))) @ [(slot_key slot, block_bytes blk2)] \<and> persisted_event_seq s'' = q"
    using assms(7) set
    by (auto simp: totem_host_event_log_persist_def again case_prod_beta trace_save_def persist_commit_def Let_def split: if_splits)
  with copy same show ?thesis by (auto simp: s' slot ring_get_ordered_def)
qed

theorem failed_write_retried_witness:
  "let refuse = (\<lambda>key v f. (- 5, f)); bp = (\<lambda>fb. (0, fb));
       (s', f') = totem_host_event_log_persist minimal_config (\<lambda>_. 0) bp refuse 9 11 (demo_recorded, [], ());
       (s'', log, b) = totem_host_event_log_persist minimal_config (\<lambda>_. 0) bp trace_save 5011 5012 (s', [], ())
   in persisted_event_seq s' = 0 \<and> persist_work_requests s' = [Work_reschedule 5000]
      \<and> map fst log = [''th/dlog/0''] \<and> persisted_event_seq s'' = 1"
proof -
  let ?refuse = "\<lambda>(key :: string) (v :: u8 list) f :: (string \<times> u8 list) list. (- 5 :: int, f)"
  let ?bp = "\<lambda>fb :: (string \<times> u8 list) list \<times> unit. (0 :: int, fb)"
  obtain s' f' where p: "totem_host_event_log_persist minimal_config (\<lambda>_. 0) ?bp ?refuse 9 11 (demo_recorded, [], ()) = (s', f')"
    by (metis prod.exhaust)
  obtain s'' log b where p2: "totem_host_event_log_persist minimal_config (\<lambda>_. 0) ?bp trace_save 5011 5012 (s', [], ()) = (s'', log, b)"
    by (metis prod.exhaust)
  have w: "would_write minimal_config (\<lambda>_. 0) 9 demo_recorded"
    by (simp add: would_write_def demo_copy) (simp add: minimal_config_def totem_left_config_def)
  have c: "persist_work_requests demo_recorded = []" "persisted_event_seq demo_recorded = 0" "next_slot demo_recorded = 0"
    "PERSIST_MIN_INTERVAL_MS minimal_config = 5000" by (simp_all add: demo_defs)
  have k: "slot_key 0 = ''th/dlog/0''" by code_simp
  have "fst (?refuse (slot_key (next_slot demo_recorded)) v f) \<noteq> 0" for v f by simp
  from failed_write_retried [OF kconfig_ok_minimal w this _ p _ p2] c k demo_copy show ?thesis
    by (auto simp: p p2 Let_def)
qed

end
