(* ===== verification/Boot_Diagnostics.thy ===== *)
theory Boot_Diagnostics
  imports Host_Event_Log
begin

text \<open>
  Boot observers, \<open>src/boot_diagnostics.c\<close>: the reset register, a marker in RAM that survives
  soft resets, a checksummed boot counter in settings, and the summary of the previous boot
  taken from the restored journal. \<open>zmk_settings_loaded\<close> of \<open>src/host_event_log.c\<close>, which
  calls into both, is composed here.
\<close>

section \<open>State\<close>

record boot_diag =
  boot_ram_magic :: u32
  boot_ram_inverse :: u32
  boot_counter_count :: u32
  boot_counter_crc :: u32
  raw_reset :: u32
  raw_available :: u8
  ram_survived :: u8
  counter_status :: u8
  counter_pending :: bool
  boot_loaded :: bool
  reset_read_result :: int
  fault_status :: u8
  saved_previous_uptime :: u32
  saved_previous_profile :: i8
  saved_previous_endpoint :: i8

definition BOOT_RAM_MAGIC :: u32 where "BOOT_RAM_MAGIC = 0x5442524D"

text \<open>Static initialisation; the two words of \<open>boot_ram\<close> are \<open>__noinit\<close>.\<close>

definition boot_diag_init :: "u32 \<Rightarrow> u32 \<Rightarrow> boot_diag" where
  "boot_diag_init m i = \<lparr>boot_ram_magic = m, boot_ram_inverse = i, boot_counter_count = 0,
     boot_counter_crc = 0, raw_reset = 0, raw_available = 0, ram_survived = 0, counter_status = 0,
     counter_pending = False, boot_loaded = False, reset_read_result = 0, fault_status = 0,
     saved_previous_uptime = 0, saved_previous_profile = - 1, saved_previous_endpoint = - 1\<rparr>"

section \<open>Operations\<close>

definition totem_boot_diagnostics_reset_result :: "int \<Rightarrow> boot_diag \<Rightarrow> boot_diag" where
  "totem_boot_diagnostics_reset_result result bd = bd\<lparr>reset_read_result := result\<rparr>"

definition totem_boot_diagnostics_fault_status :: "u8 \<Rightarrow> boot_diag \<Rightarrow> boot_diag" where
  "totem_boot_diagnostics_fault_status status bd = bd\<lparr>fault_status := status\<rparr>"

text \<open>The complete text; the caller's buffer of \<open>len\<close> bytes holds at most \<open>len - 1\<close> of it.\<close>

definition totem_boot_diagnostics_format :: "bool \<Rightarrow> boot_diag \<Rightarrow> string" where
  "totem_boot_diagnostics_format previous bd =
     (if previous then
        ''totem_boot previous uptime='' @ fmt_u (saved_previous_uptime bd) @
        '' profile='' @ fmt_d (sint (saved_previous_profile bd)) @
        '' endpoint='' @ fmt_d (sint (saved_previous_endpoint bd))
      else
        ''totem_boot current count='' @ fmt_u (boot_counter_count bd) @ '' raw='' @ fmt_08x (raw_reset bd) @
        '' available='' @ fmt_u (raw_available bd) @ '' read='' @ fmt_d (reset_read_result bd) @
        '' ram='' @ fmt_u (ram_survived bd) @ '' fault='' @ fmt_u (fault_status bd) @
        '' counter='' @ fmt_u (counter_status bd))"

text \<open>\<open>reason\<close> is the reset register read by \<open>nrfx_reset_reason_get\<close>.\<close>

definition boot_capture_early :: "totem_config \<Rightarrow> u32 \<Rightarrow> boot_diag \<Rightarrow> boot_diag" where
  "boot_capture_early c reason bd0 =
     (let bd = (if CONFIG_SOC_NRF52840 c then bd0\<lparr>raw_reset := reason, raw_available := 1\<rparr> else bd0)
      in bd\<lparr>ram_survived := bool_u8 (boot_ram_magic bd = BOOT_RAM_MAGIC \<and> boot_ram_inverse bd = NOT BOOT_RAM_MAGIC),
            boot_ram_magic := BOOT_RAM_MAGIC, boot_ram_inverse := NOT BOOT_RAM_MAGIC\<rparr>)"

definition counter_crc :: "(u8 list \<Rightarrow> u32) \<Rightarrow> boot_diag \<Rightarrow> u32" where
  "counter_crc crc bd = crc (bytes32 (boot_counter_count bd))"

definition boot_record_word :: "totem_host_evt \<Rightarrow> u32 \<Rightarrow> u8 \<Rightarrow> log_call" where
  "boot_record_word kind value status =
     log_args kind (byte_of 0 value) (byte_of 1 value) status (byte_of 2 value) (byte_of 3 value)"

definition totem_boot_diagnostics_loaded ::
  "totem_config \<Rightarrow> (u8 list \<Rightarrow> u32) \<Rightarrow> int \<Rightarrow> u32 \<Rightarrow> i8 \<Rightarrow> i8 \<Rightarrow> journal \<times> boot_diag \<Rightarrow> journal \<times> boot_diag" where
  "totem_boot_diagnostics_loaded c crc now prev_uptime prev_profile prev_endpoint jb =
     (let (j, bd0) = jb in
      if boot_loaded bd0 then (j, bd0)
      else
        let bd1 = bd0\<lparr>boot_loaded := True, saved_previous_uptime := prev_uptime,
                      saved_previous_profile := prev_profile,
                      saved_previous_endpoint := prev_endpoint,
                      boot_counter_count := boot_counter_count bd0 + 1\<rparr>;
            bd = bd1\<lparr>boot_counter_crc := counter_crc crc bd1, counter_pending := True\<rparr>
        in (fold (totem_host_event_log_record c now)
              [boot_record_word TOTEM_HEVT_BOOT_RAW (raw_reset bd) (raw_available bd),
               boot_record_word TOTEM_HEVT_BOOT_COUNTER (boot_counter_count bd) (counter_status bd),
               boot_record_word TOTEM_HEVT_BOOT_PREVIOUS_UPTIME prev_uptime 0,
               log_args TOTEM_HEVT_BOOT_PREVIOUS_STATE prev_profile prev_endpoint 0 0 0,
               log_args TOTEM_HEVT_BOOT_RAM_STATUS (- 1) (- 1) (ram_survived bd) 0 0] j,
            bd))"

definition counter_bytes :: "boot_diag \<Rightarrow> u8 list" where
  "counter_bytes bd = bytes32 (boot_counter_count bd) @ bytes32 (boot_counter_crc bd)"

definition totem_boot_diagnostics_persist ::
  "totem_config \<Rightarrow> 'f storage \<Rightarrow> 'f \<times> boot_diag \<Rightarrow> int \<times> 'f \<times> boot_diag" where
  "totem_boot_diagnostics_persist c save fb =
     (let (f, bd) = fb in
      if CONFIG_SETTINGS c \<and> counter_pending bd then
        let (err, f1) = save ''tboot/count'' (counter_bytes bd) f
        in if err \<noteq> 0 then (err, f1, bd) else (0, f1, bd\<lparr>counter_pending := False\<rparr>)
      else (0, f, bd))"

text \<open>The reader stores its bytes over the counter; a short read leaves the rest as it was.\<close>

definition counter_read :: "u8 list \<Rightarrow> boot_diag \<Rightarrow> boot_diag" where
  "counter_read data bd =
     (let b = take 8 data @ drop (length data) (counter_bytes bd)
      in bd\<lparr>boot_counter_count := le32 (b ! 0) (b ! 1) (b ! 2) (b ! 3),
            boot_counter_crc := le32 (b ! 4) (b ! 5) (b ! 6) (b ! 7)\<rparr>)"

definition boot_settings_set ::
  "(u8 list \<Rightarrow> u32) \<Rightarrow> string \<Rightarrow> nat \<Rightarrow> int \<times> u8 list \<Rightarrow> boot_diag \<Rightarrow> int \<times> boot_diag" where
  "boot_settings_set crc name len read_cb bd =
     (if name \<noteq> ''count'' then (- ENOENT, bd)
      else if boot_loaded bd then (0, bd)
      else if len \<noteq> 8 then (0, bd\<lparr>counter_status := 2\<rparr>)
      else
        let (rc, data) = read_cb;
            bd1 = counter_read data bd;
            bd2 = (if rc \<noteq> 8 \<or> boot_counter_crc bd1 \<noteq> counter_crc crc bd1
                   then bd1\<lparr>boot_counter_count := 0, boot_counter_crc := 0, counter_status := 2\<rparr>
                   else bd1\<lparr>counter_status := 1\<rparr>)
        in (if rc < 0 then rc else 0, bd2))"

text \<open>The post-load hook of the journal.\<close>

definition zmk_settings_loaded ::
  "totem_config \<Rightarrow> (u8 list \<Rightarrow> u32) \<Rightarrow> int \<Rightarrow> journal \<times> boot_diag \<Rightarrow> journal \<times> boot_diag" where
  "zmk_settings_loaded c crc now jb =
     (let (t, pending, j) = settings_loaded_locked c (fst jb);
          (j', bd') = totem_boot_diagnostics_loaded c crc now (previous_uptime t)
                        (previous_profile t) (previous_endpoint t) (j, snd jb)
      in (if pending then schedule_persist_coalesced c now True j' else j', bd'))"

text \<open>The journal's writer with the counter's save in its place.\<close>

definition journal_persist ::
  "totem_config \<Rightarrow> (u8 list \<Rightarrow> u32) \<Rightarrow> 'f storage \<Rightarrow> int \<Rightarrow> int
   \<Rightarrow> journal \<times> 'f \<times> boot_diag \<Rightarrow> journal \<times> 'f \<times> boot_diag" where
  "journal_persist c crc save now now' =
     totem_host_event_log_persist c crc (totem_boot_diagnostics_persist c save) save now now'"

text \<open>The work item that \<open>schedule_persist_coalesced\<close> arms.\<close>

definition persist_work_handler ::
  "totem_config \<Rightarrow> (u8 list \<Rightarrow> u32) \<Rightarrow> 'f storage \<Rightarrow> int \<Rightarrow> int
   \<Rightarrow> journal \<times> 'f \<times> boot_diag \<Rightarrow> journal \<times> 'f \<times> boot_diag" where
  "persist_work_handler c crc save now now' jfb = journal_persist c crc save now now' jfb"

section \<open>Lemmas\<close>

definition seal_counter :: "(u8 list \<Rightarrow> u32) \<Rightarrow> boot_diag \<Rightarrow> boot_diag" where
  "seal_counter crc bd = bd\<lparr>boot_counter_crc := counter_crc crc bd\<rparr>"

interpretation counter_envelope: sealed_store "seal_counter crc"
  "\<lambda>bd. boot_counter_crc bd = counter_crc crc bd" boot_counter_count for crc
  by unfold_locales (simp_all add: seal_counter_def counter_crc_def)

lemma length_counter_bytes [simp]: "length (counter_bytes bd) = 8"
  by (simp add: counter_bytes_def)

lemma counter_read_back:
  "boot_counter_count (counter_read (counter_bytes bd) bd') = boot_counter_count bd"
  "boot_counter_crc (counter_read (counter_bytes bd) bd') = boot_counter_crc bd"
  by (simp_all add: counter_read_def counter_bytes_def bytes32_def Let_def)

text \<open>The value of a completed save, byte for byte: the count and the checksum of its four bytes.\<close>

definition counter_value :: "(u8 list \<Rightarrow> u32) \<Rightarrow> u32 \<Rightarrow> u8 list" where
  "counter_value crc n = bytes32 n @ bytes32 (crc (bytes32 n))"

lemma length_counter_value [simp]: "length (counter_value crc n) = 8"
  by (simp add: counter_value_def)

lemma sealed_counter_bytes:
  "boot_counter_crc bd = counter_crc crc bd \<Longrightarrow> counter_bytes bd = counter_value crc (boot_counter_count bd)"
  by (simp add: counter_bytes_def counter_value_def counter_crc_def)

lemma counter_read_value:
  "boot_counter_count (counter_read (counter_value crc n) bd) = n"
  "boot_counter_crc (counter_read (counter_value crc n) bd) = crc (bytes32 n)"
  by (simp_all add: counter_read_def counter_value_def bytes32_def Let_def)

lemma counter_read_sealed:
  assumes "length v = 8"
  shows "boot_counter_crc (counter_read v bd) = counter_crc crc (counter_read v bd) \<longleftrightarrow> (\<exists>n. v = counter_value crc n)"
proof
  let ?n = "le32 (v ! 0) (v ! 1) (v ! 2) (v ! 3)" and ?k = "le32 (v ! 4) (v ! 5) (v ! 6) (v ! 7)"
  have "v = map ((!) v) [0..<8]" using assms by (intro nth_equalityI) auto
  also have "\<dots> = bytes32 ?n @ bytes32 ?k" by (simp add: bytes32_le32 upt_rec eval_nat_numeral)
  finally have v: "v = bytes32 ?n @ bytes32 ?k" .
  assume "boot_counter_crc (counter_read v bd) = counter_crc crc (counter_read v bd)"
  then have "?k = crc (bytes32 ?n)" using assms by (simp add: counter_read_def counter_crc_def Let_def)
  with v show "\<exists>n. v = counter_value crc n" unfolding counter_value_def by metis
qed (auto simp: counter_read_value counter_crc_def)

text \<open>What the loader makes of a value: a sealed count is taken over, anything else counts as none.\<close>

lemma settings_set_value:
  assumes "\<not> boot_loaded bd"
  shows "counter_status (snd (boot_settings_set crc ''count'' 8 (8, counter_value crc n) bd)) = 1"
    and "boot_counter_count (snd (boot_settings_set crc ''count'' 8 (8, counter_value crc n) bd)) = n"
  using assms by (simp_all add: boot_settings_set_def counter_read_value counter_crc_def)

lemma settings_set_other:
  assumes "\<not> boot_loaded bd" and "boot_counter_count bd = 0" and "rc = 8 \<Longrightarrow> length v = 8"
    and "\<not> (len = 8 \<and> rc = 8 \<and> (\<exists>n. v = counter_value crc n))"
  shows "counter_status (snd (boot_settings_set crc ''count'' len (rc, v) bd)) = 2"
    and "boot_counter_count (snd (boot_settings_set crc ''count'' len (rc, v) bd)) = 0"
proof -
  have "rc \<noteq> 8 \<or> boot_counter_crc (counter_read v bd) \<noteq> counter_crc crc (counter_read v bd)" if "len = 8"
    using that assms(3,4) counter_read_sealed [of v bd crc] by blast
  with assms(1,2) show "counter_status (snd (boot_settings_set crc ''count'' len (rc, v) bd)) = 2"
    and "boot_counter_count (snd (boot_settings_set crc ''count'' len (rc, v) bd)) = 0"
    by (auto simp: boot_settings_set_def Let_def)
qed

text \<open>The count that a stored value, or none, stands for.\<close>

definition stored_count :: "(u8 list \<Rightarrow> u32) \<Rightarrow> u8 list option \<Rightarrow> u32" where
  "stored_count crc v = (case v of None \<Rightarrow> 0
     | Some w \<Rightarrow> let n = le32 (w ! 0) (w ! 1) (w ! 2) (w ! 3) in if w = counter_value crc n then n else 0)"

lemma stored_count_value: "stored_count crc (Some (counter_value crc n)) = n"
proof -
  let ?v = "counter_value crc n"
  have "le32 (?v ! 0) (?v ! 1) (?v ! 2) (?v ! 3) = n" by (simp add: counter_value_def bytes32_def)
  then show ?thesis by (simp add: stored_count_def)
qed

lemma stored_count_other: "(\<And>n. v \<noteq> Some (counter_value crc n)) \<Longrightarrow> stored_count crc v = 0"
  by (auto simp: stored_count_def Let_def split: option.split)

lemma settings_set_stored:
  assumes "\<not> boot_loaded bd" and "boot_counter_count bd = 0"
  shows "boot_counter_count (snd (boot_settings_set crc ''count'' (length v) (int (length v), v) bd)) = stored_count crc (Some v)"
proof (cases "\<exists>n. v = counter_value crc n")
  case True
  with settings_set_value(2) [OF assms(1)] show ?thesis by (auto simp: stored_count_value)
next
  case False
  then have "stored_count crc (Some v) = 0" by (intro stored_count_other) simp
  moreover have "\<not> (length v = 8 \<and> int (length v) = 8 \<and> (\<exists>n. v = counter_value crc n))" using False by simp
  ultimately show ?thesis using settings_set_other(2) [OF assms, of "int (length v)" v "length v" crc] by simp
qed

lemma loaded_count:
  "\<not> boot_loaded bd \<Longrightarrow> boot_counter_count (snd (totem_boot_diagnostics_loaded c crc now u p e (j, bd))) = boot_counter_count bd + 1"
  by (simp add: totem_boot_diagnostics_loaded_def Let_def)

lemma counter_read_other [simp]:
  "boot_loaded (counter_read data bd) = boot_loaded bd"
  "counter_pending (counter_read data bd) = counter_pending bd"
  by (simp_all add: counter_read_def Let_def)

lemma record_calls_fields [simp]:
  "journal_ready (fold (totem_host_event_log_record c now) calls j) = journal_ready j"
  "persisted_event_seq (fold (totem_host_event_log_record c now) calls j) = persisted_event_seq j"
  "ring_seq (fold (totem_host_event_log_record c now) calls j) = ring_seq j + of_nat (length calls)"
  by (induction calls arbitrary: j) (simp_all add: totem_host_event_log_record_def)

lemma record_calls_ring:
  "ring_inv c j \<Longrightarrow> ring_get_ordered (fold (totem_host_event_log_record c now) calls j)
     = lastn (RING_CAP c) (ring_get_ordered j @ map (call_event (word_of_int now)) calls)"
proof -
  assume inv: "ring_inv c j"
  have eq: "fold (totem_host_event_log_record c now) calls j
      = fold (record_entry c) (map (\<lambda>a. (now, call_event (word_of_int now) a, True)) calls) j"
    by (induction calls arbitrary: j) (simp_all add: totem_host_event_log_record_def record_entry_def)
  show ?thesis using inv by (simp add: eq event_ring.pushes_contents comp_def)
qed

text \<open>
  A fold that remembers the entry with the greatest key among those that qualify; the scan
  of the restored events is three of them.
\<close>

lemma fold_newest:
  fixes key :: "'s \<Rightarrow> 'k::linorder"
  assumes "\<And>x s. key (f x s) = (if P x \<and> key s < k x then k x else key s)"
    and "\<And>x s. val (f x s) = (if P x \<and> key s < k x then v x else val s)"
  shows "key s \<le> key (fold f xs s) \<and> (\<forall>x\<in>set xs. P x \<longrightarrow> k x \<le> key (fold f xs s))
    \<and> (key (fold f xs s) = key s \<and> val (fold f xs s) = val s
       \<or> (\<exists>x\<in>set xs. P x \<and> k x = key (fold f xs s) \<and> val (fold f xs s) = v x))"
proof (induction xs arbitrary: s)
  case Nil
  then show ?case by simp
next
  case (Cons x xs)
  show ?case
  proof (cases "P x \<and> key s < k x")
    case True
    with Cons.IH [of "f x s"] show ?thesis by (auto simp: assms)
  next
    case False
    with Cons.IH [of "f x s"] show ?thesis by (auto simp: assms not_less)
  qed
qed

lemma scan_steps:
  "previous_seq (scan_event x t) = (if previous_seq t < fst x then fst x else previous_seq t)"
  "previous_uptime (scan_event x t) = (if previous_seq t < fst x then uptime_ms (snd x) else previous_uptime t)"
  "profile_seq (scan_event x t) = (if (has_profile (snd x) \<and> 0 \<le> sint (ev_active (snd x))) \<and> profile_seq t < fst x
     then fst x else profile_seq t)"
  "previous_profile (scan_event x t) = (if (has_profile (snd x) \<and> 0 \<le> sint (ev_active (snd x))) \<and> profile_seq t < fst x
     then ev_active (snd x) else previous_profile t)"
  by (auto simp: scan_event_def Let_def case_prod_beta)

abbreviation (input) scan_all :: "(u32 \<times> totem_host_event) list \<Rightarrow> boot_tail" where
  "scan_all evs \<equiv> fold scan_event evs no_tail"

lemma scan_newest:
  "(\<forall>x \<in> set evs. fst x \<le> previous_seq (scan_all evs))
    \<and> (previous_seq (scan_all evs) = 0 \<and> previous_uptime (scan_all evs) = 0
       \<or> (\<exists>x \<in> set evs. fst x = previous_seq (scan_all evs) \<and> previous_uptime (scan_all evs) = uptime_ms (snd x)))"
proof -
  have "previous_seq no_tail \<le> previous_seq (scan_all evs)
    \<and> (\<forall>x \<in> set evs. True \<longrightarrow> fst x \<le> previous_seq (scan_all evs))
    \<and> (previous_seq (scan_all evs) = previous_seq no_tail \<and> previous_uptime (scan_all evs) = previous_uptime no_tail
       \<or> (\<exists>x \<in> set evs. True \<and> fst x = previous_seq (scan_all evs) \<and> previous_uptime (scan_all evs) = uptime_ms (snd x)))"
    by (rule fold_newest) (simp_all add: scan_steps)
  then show ?thesis by (simp add: no_tail_def)
qed

lemma scan_profile:
  "(\<forall>x \<in> set evs. has_profile (snd x) \<and> 0 \<le> sint (ev_active (snd x)) \<longrightarrow> fst x \<le> profile_seq (scan_all evs))
    \<and> (profile_seq (scan_all evs) = 0 \<and> previous_profile (scan_all evs) = - 1
       \<or> (\<exists>x \<in> set evs. (has_profile (snd x) \<and> 0 \<le> sint (ev_active (snd x))) \<and> fst x = profile_seq (scan_all evs)
             \<and> previous_profile (scan_all evs) = ev_active (snd x)))"
proof -
  have "profile_seq no_tail \<le> profile_seq (scan_all evs)
    \<and> (\<forall>x \<in> set evs. has_profile (snd x) \<and> 0 \<le> sint (ev_active (snd x)) \<longrightarrow> fst x \<le> profile_seq (scan_all evs))
    \<and> (profile_seq (scan_all evs) = profile_seq no_tail \<and> previous_profile (scan_all evs) = previous_profile no_tail
       \<or> (\<exists>x \<in> set evs. (has_profile (snd x) \<and> 0 \<le> sint (ev_active (snd x))) \<and> fst x = profile_seq (scan_all evs)
             \<and> previous_profile (scan_all evs) = ev_active (snd x)))"
    by (rule fold_newest) (simp_all add: scan_steps)
  then show ?thesis by (simp add: no_tail_def)
qed

section \<open>Properties\<close>

text \<open>
  C32. The boot counter counts boots, across the save, the reset and the load: once the count of a boot
  is saved without an error, the storage holds a value that the next boot's loader accepts as valid,
  and that boot counts one more; nothing remains to be saved of the first. Any other stored value
  (wrong length, failed or short read, wrong checksum) is marked invalid and the count restarts at 1.
\<close>

theorem boot_counter_round_trip:
  assumes "CONFIG_SETTINGS c" and "keeps_values save contents"
    and "\<not> boot_loaded bd" and "totem_boot_diagnostics_loaded c crc now u p e (j, bd) = (j1, bd1)"
    and "totem_boot_diagnostics_persist c save (f, bd1) = (0, f1, bd2)"
    and "\<not> boot_loaded bd'" and "boot_counter_count bd' = 0"
  shows "(\<exists>v. contents f1 ''tboot/count'' = Some v
      \<and> (let bd3 = snd (boot_settings_set crc ''count'' (length v) (int (length v), v) bd')
         in counter_status bd3 = 1
          \<and> boot_counter_count (snd (totem_boot_diagnostics_loaded c crc now' u' p' e' (j', bd3))) = boot_counter_count bd1 + 1))
    \<and> boot_counter_count bd1 = boot_counter_count bd + 1 \<and> \<not> counter_pending bd2
    \<and> (\<forall>len rc w. (rc = 8 \<longrightarrow> length w = 8) \<longrightarrow> \<not> (len = 8 \<and> rc = 8 \<and> (\<exists>n. w = bytes32 n @ bytes32 (crc (bytes32 n)))) \<longrightarrow>
        (let bd3 = snd (boot_settings_set crc ''count'' len (rc, w) bd')
         in counter_status bd3 = 2
          \<and> boot_counter_count (snd (totem_boot_diagnostics_loaded c crc now' u' p' e' (j', bd3))) = 1))"
proof -
  have bd1: "counter_pending bd1" "boot_counter_crc bd1 = counter_crc crc bd1" "boot_counter_count bd1 = boot_counter_count bd + 1"
    using assms(3,4) by (auto simp: totem_boot_diagnostics_loaded_def counter_crc_def Let_def)
  note bytes = sealed_counter_bytes [OF bd1(2)]
  obtain err f2 where save: "save ''tboot/count'' (counter_value crc (boot_counter_count bd1)) f = (err, f2)"
    by (metis prod.exhaust)
  with assms(1,5) bd1(1) have ok: "err = 0" "f1 = f2" "\<not> counter_pending bd2"
    by (auto simp: totem_boot_diagnostics_persist_def bytes Let_def split: if_splits)
  then have v: "contents f1 ''tboot/count'' = Some (counter_value crc (boot_counter_count bd1))"
    using assms(2) save unfolding keeps_values_def by (metis fst_conv fun_upd_same snd_conv)
  have new: "\<not> boot_loaded (snd (boot_settings_set crc ''count'' len rd bd'))" for len rd
    using assms(6) by (simp add: boot_settings_set_def case_prod_beta Let_def)
  show ?thesis
  proof (intro conjI allI impI)
    show "\<exists>v. contents f1 ''tboot/count'' = Some v
      \<and> (let bd3 = snd (boot_settings_set crc ''count'' (length v) (int (length v), v) bd')
         in counter_status bd3 = 1
          \<and> boot_counter_count (snd (totem_boot_diagnostics_loaded c crc now' u' p' e' (j', bd3))) = boot_counter_count bd1 + 1)"
      using v settings_set_value [OF assms(6), of crc "boot_counter_count bd1"] by (simp add: loaded_count [OF new] Let_def)
    fix len :: nat and rc :: int and w :: "u8 list"
    assume "rc = 8 \<longrightarrow> length w = 8" and "\<not> (len = 8 \<and> rc = 8 \<and> (\<exists>n. w = bytes32 n @ bytes32 (crc (bytes32 n))))"
    with settings_set_other [OF assms(6,7), of rc w len crc]
    show "let bd3 = snd (boot_settings_set crc ''count'' len (rc, w) bd')
         in counter_status bd3 = 2
          \<and> boot_counter_count (snd (totem_boot_diagnostics_loaded c crc now' u' p' e' (j', bd3))) = 1"
      by (simp add: loaded_count [OF new] counter_value_def Let_def)
  qed (use bd1 ok in simp_all)
qed

text \<open>A storage that is the map of its values and never fails.\<close>

definition map_save :: "(string \<rightharpoonup> u8 list) storage" where
  "map_save key v f = (0, f(key \<mapsto> v))"

lemma map_save_keeps: "keeps_values map_save (\<lambda>f. f)"
  by (simp add: keeps_values_def map_save_def)

theorem boot_counter_round_trip_witness:
  "let crc = (\<lambda>b. 7 + ucast (hd b)); bd = (boot_diag_init 0 0)\<lparr>boot_counter_count := 41\<rparr>;
       bd1 = snd (totem_boot_diagnostics_loaded minimal_config crc 5 0 0 0 (journal_boot minimal_config, bd));
       f1 = fst (snd (totem_boot_diagnostics_persist minimal_config map_save (Map.empty, bd1)));
       v = the (f1 ''tboot/count'');
       bd3 = snd (boot_settings_set crc ''count'' (length v) (int (length v), v) (boot_diag_init 7 7))
   in counter_status bd3 = 1
      \<and> boot_counter_count (snd (totem_boot_diagnostics_loaded minimal_config crc 6 0 0 0 (journal_boot minimal_config, bd3))) = 43"
proof -
  let ?crc = "\<lambda>b :: u8 list. 7 + ucast (hd b) :: u32" and ?bd = "(boot_diag_init 0 0)\<lparr>boot_counter_count := 41\<rparr>"
  let ?l = "totem_boot_diagnostics_loaded minimal_config ?crc 5 0 0 0 (journal_boot minimal_config, ?bd)"
  let ?p = "totem_boot_diagnostics_persist minimal_config map_save (Map.empty, snd ?l)"
  have k: "CONFIG_SETTINGS minimal_config" by (simp add: minimal_config_def totem_left_config_def)
  have n: "\<not> boot_loaded ?bd" "\<not> boot_loaded (boot_diag_init 7 7)" "boot_counter_count (boot_diag_init 7 7) = 0"
    "boot_counter_count ?bd = 41" by (simp_all add: boot_diag_init_def)
  have l: "?l = (fst ?l, snd ?l)" by simp
  have "fst ?p = 0" by (simp add: totem_boot_diagnostics_persist_def map_save_def Let_def)
  then have p: "?p = (0, fst (snd ?p), snd (snd ?p))" by (metis prod.collapse)
  from boot_counter_round_trip [OF k map_save_keeps n(1) l p n(2,3), of 6 0 0 0 "journal_boot minimal_config"]
  show ?thesis by (auto simp: n(4) Let_def)
qed

text \<open>
  The counter's save never stands in the way of the journal: with a storage whose answers do not depend
  on what it holds, the journal after a write attempt does not depend on whether the counter's save
  failed; a failed save stays pending for the next attempt, and after a successful one the counter
  is not written again in this boot.
\<close>

theorem counter_save_independent:
  assumes "\<And>key v f g. fst (save key v f) = fst (save key v g)"
  shows "fst (totem_host_event_log_persist c crc (totem_boot_diagnostics_persist c save1) save now now' (j, f1, bd1))
     = fst (totem_host_event_log_persist c crc (totem_boot_diagnostics_persist c save2) save now now' (j, f2, bd2))
   \<and> counter_pending (snd (snd (totem_boot_diagnostics_persist c save (f, bd))))
       = (counter_pending bd \<and> (if CONFIG_SETTINGS c then fst (save ''tboot/count'' (counter_bytes bd) f) \<noteq> 0 else True))
   \<and> totem_boot_diagnostics_persist c save (f, bd\<lparr>counter_pending := False\<rparr>) = (0, f, bd\<lparr>counter_pending := False\<rparr>)"
proof -
  have "fst (totem_host_event_log_persist c crc (totem_boot_diagnostics_persist c save1) save now now' (j, f1, bd1))
     = fst (totem_host_event_log_persist c crc (totem_boot_diagnostics_persist c save2) save now now' (j, f2, bd2))"
    using assms by (auto simp: totem_host_event_log_persist_def case_prod_beta Let_def split: persist_plan.splits) metis+
  then show ?thesis by (auto simp: totem_boot_diagnostics_persist_def case_prod_beta Let_def)
qed

text \<open>
  The previous boot's summary is taken from the newest evidence: after the settings are
  loaded, the previous uptime is that of the restored event with the greatest sequence
  number, and the previous profile that of the newest restored event that carries one.
\<close>

theorem previous_boot_summary:
  assumes "\<not> journal_ready j" and "t = fst (settings_loaded_locked c j)"
    and "\<And>x. x \<in> set (restored_events c j) \<Longrightarrow> 0 < fst x"
  shows "(if restored_events c j = [] then previous_uptime t = 0
      else \<exists>x \<in> set (restored_events c j). previous_uptime t = uptime_ms (snd x)
            \<and> (\<forall>y \<in> set (restored_events c j). fst y \<le> fst x))
    \<and> (let carries = (\<lambda>x. has_profile (snd x) \<and> 0 \<le> sint (ev_active (snd x)));
            evs = filter carries (restored_events c j)
       in if evs = [] then previous_profile t = - 1
          else \<exists>x \<in> set evs. previous_profile t = ev_active (snd x) \<and> (\<forall>y \<in> set evs. fst y \<le> fst x))"
proof -
  let ?evs = "restored_events c j"
  have t: "t = scan_all ?evs" using assms(1,2) by (simp add: settings_loaded_locked_def)
  have pos: "x \<in> set ?evs \<Longrightarrow> \<not> fst x \<le> 0" for x using assms(3) leD by blast
  have a: "if ?evs = [] then previous_uptime t = 0
      else \<exists>x \<in> set ?evs. previous_uptime t = uptime_ms (snd x) \<and> (\<forall>y \<in> set ?evs. fst y \<le> fst x)"
  proof (cases "?evs = []")
    case True
    then show ?thesis by (simp add: t no_tail_def)
  next
    case False
    then obtain z where "z \<in> set ?evs" by (cases ?evs) auto
    with scan_newest [of ?evs] pos [of z] have "previous_seq t \<noteq> 0" unfolding t by metis
    with scan_newest [of ?evs] False show ?thesis unfolding t by force
  qed
  let ?c = "\<lambda>x. has_profile (snd x) \<and> 0 \<le> sint (ev_active (snd x))"
  have b: "if filter ?c ?evs = [] then previous_profile t = - 1
      else \<exists>x \<in> set (filter ?c ?evs). previous_profile t = ev_active (snd x) \<and> (\<forall>y \<in> set (filter ?c ?evs). fst y \<le> fst x)"
  proof (cases "filter ?c ?evs = []")
    case True
    then have none: "\<not> ?c x" if "x \<in> set ?evs" for x using that by (simp add: filter_empty_conv)
    with scan_profile [of ?evs] True show ?thesis unfolding t by auto
  next
    case False
    then obtain z where z: "z \<in> set ?evs" "?c z" by (auto simp: filter_empty_conv)
    with scan_profile [of ?evs] pos [of z] have "profile_seq t \<noteq> 0" unfolding t by metis
    with scan_profile [of ?evs] False show ?thesis unfolding t by force
  qed
  from a b show ?thesis by (simp only: Let_def)
qed

definition demo_restored :: journal where
  "demo_restored = (journal_boot minimal_config)\<lparr>
     restored_valid := [True, False, False, False],
     restored_blocks := (zero_block minimal_config)\<lparr>blk_count := 2, blk_first_event_seq := 7,
       blk_ev := [zero_event\<lparr>uptime_ms := 10, ev_type := 2, ev_active := 3\<rparr>,
                  zero_event\<lparr>uptime_ms := 90, ev_type := 28, ev_active := 1\<rparr>]\<rparr>
       # replicate 3 (zero_block minimal_config)\<rparr>"

lemma demo_restored_events:
  "restored_events minimal_config demo_restored
     = [(7, zero_event\<lparr>uptime_ms := 10, ev_type := 2, ev_active := 3\<rparr>),
        (8, zero_event\<lparr>uptime_ms := 90, ev_type := 28, ev_active := 1\<rparr>)]"
  by code_simp

theorem previous_boot_summary_witness:
  "let t = fst (settings_loaded_locked minimal_config demo_restored)
   in previous_uptime t = 90 \<and> previous_profile t = 3"
proof -
  let ?t = "fst (settings_loaded_locked minimal_config demo_restored)"
  have nr: "\<not> journal_ready demo_restored"
    by (simp add: demo_restored_def journal_boot_def minimal_config_def totem_left_config_def)
  have pos: "\<And>x. x \<in> set (restored_events minimal_config demo_restored) \<Longrightarrow> 0 < fst x"
    by (auto simp: demo_restored_events)
  show ?thesis
    using previous_boot_summary [of demo_restored ?t minimal_config, OF nr refl pos]
    by (simp add: demo_restored_events has_profile_def Let_def)
qed

lemma loaded_first:
  assumes "\<not> boot_loaded bd"
  obtains calls bd' where "totem_boot_diagnostics_loaded c crc now u p e (j, bd)
      = (fold (totem_host_event_log_record c now) calls j, bd')"
    and "map call_type calls = [TOTEM_HEVT_BOOT_RAW, TOTEM_HEVT_BOOT_COUNTER, TOTEM_HEVT_BOOT_PREVIOUS_UPTIME,
      TOTEM_HEVT_BOOT_PREVIOUS_STATE, TOTEM_HEVT_BOOT_RAM_STATUS]"
    and "boot_loaded bd'" and "boot_counter_count bd' = boot_counter_count bd + 1"
  using that [unfolded totem_boot_diagnostics_loaded_def Let_def prod.case if_not_P [OF assms], OF refl]
  by (simp add: boot_record_word_def)

lemma loaded_again:
  "boot_loaded bd \<Longrightarrow> journal_ready j \<Longrightarrow> snd (zmk_settings_loaded c crc now (j, bd)) = bd
     \<and> ring_get_ordered (fst (zmk_settings_loaded c crc now (j, bd))) = ring_get_ordered j
     \<and> ring_seq (fst (zmk_settings_loaded c crc now (j, bd))) = ring_seq j"
  by (simp add: zmk_settings_loaded_def settings_loaded_locked_def totem_boot_diagnostics_loaded_def
      ring_get_ordered_def)

text \<open>
  The hook that runs after the settings are loaded works exactly once: it makes the journal
  ready, numbers the events buffered since the reset after the saved ones, counts the boot and
  appends the five boot records; calling it again changes neither the ring nor the boot state.
\<close>

theorem settings_loaded_once:
  assumes "\<not> journal_ready j" and "\<not> boot_loaded bd" and "ring_inv c j" and "5 \<le> RING_CAP c"
    and "zmk_settings_loaded c crc now (j, bd) = (j', bd')"
  shows "journal_ready j' \<and> ring_seq j' = persisted_event_seq j + of_nat (ring_count j) + 5
    \<and> map ev_type (lastn 5 (ring_get_ordered j')) = map hevt_num [TOTEM_HEVT_BOOT_RAW, TOTEM_HEVT_BOOT_COUNTER,
        TOTEM_HEVT_BOOT_PREVIOUS_UPTIME, TOTEM_HEVT_BOOT_PREVIOUS_STATE, TOTEM_HEVT_BOOT_RAM_STATUS]
    \<and> boot_counter_count bd' = boot_counter_count bd + 1
    \<and> snd (zmk_settings_loaded c crc now2 (j', bd')) = bd'
    \<and> ring_get_ordered (fst (zmk_settings_loaded c crc now2 (j', bd'))) = ring_get_ordered j'
    \<and> ring_seq (fst (zmk_settings_loaded c crc now2 (j', bd'))) = ring_seq j'"
proof -
  obtain t pend j1 where lk: "settings_loaded_locked c j = (t, pend, j1)" by (metis prod.exhaust)
  then have j1: "j1 = j\<lparr>ring_seq := persisted_event_seq j + of_nat (ring_count j), journal_ready := True\<rparr>"
    using assms(1) by (auto simp: settings_loaded_locked_def)
  from loaded_first [OF assms(2)] obtain calls bd1
    where l: "totem_boot_diagnostics_loaded c crc now (previous_uptime t) (previous_profile t) (previous_endpoint t) (j1, bd)
        = (fold (totem_host_event_log_record c now) calls j1, bd1)"
      and types: "map call_type calls = [TOTEM_HEVT_BOOT_RAW, TOTEM_HEVT_BOOT_COUNTER, TOTEM_HEVT_BOOT_PREVIOUS_UPTIME,
        TOTEM_HEVT_BOOT_PREVIOUS_STATE, TOTEM_HEVT_BOOT_RAM_STATUS]"
      and bd1: "boot_loaded bd1" "boot_counter_count bd1 = boot_counter_count bd + 1" by metis
  let ?k = "fold (totem_host_event_log_record c now) calls j1"
  have res: "j' = (if pend then schedule_persist_coalesced c now True ?k else ?k)" "bd' = bd1"
    using assms(5) by (simp_all add: zmk_settings_loaded_def lk l)
  have len: "length calls = 5" using arg_cong [OF types, of length] by simp
  have ready: "journal_ready j'" by (simp add: res(1) j1)
  have "ring_get_ordered j' = lastn (RING_CAP c) (ring_get_ordered j1 @ map (call_event (word_of_int now)) calls)"
    using record_calls_ring [of c j1 now calls] assms(3)
    by (simp add: res(1) ring_get_ordered_def j1 ring_inv_def)
  then have "lastn 5 (ring_get_ordered j') = map (call_event (word_of_int now)) calls"
    using len assms(4) by (simp add: lastn_append_short lastn_append_long)
  moreover have "ev_type \<circ> call_event (word_of_int now) = hevt_num \<circ> call_type"
    by (simp add: fun_eq_iff call_event_def)
  ultimately have "map ev_type (lastn 5 (ring_get_ordered j')) = map hevt_num (map call_type calls)" by simp
  moreover have "ring_seq j' = persisted_event_seq j + of_nat (ring_count j) + 5"
    by (simp add: res(1) j1 len)
  ultimately show ?thesis
    using loaded_again [OF bd1(1) ready, of c crc now2] bd1(2) ready types by (simp add: res(2))
qed

theorem settings_loaded_once_witness:
  "let (j', bd') = zmk_settings_loaded minimal_config (\<lambda>_. 3) 5 (journal_boot minimal_config, boot_diag_init 0 0)
   in journal_ready j' \<and> ring_seq j' = 5 \<and> boot_counter_count bd' = 1
      \<and> snd (zmk_settings_loaded minimal_config (\<lambda>_. 3) 6 (j', bd')) = bd'"
proof -
  obtain j' bd' where z: "zmk_settings_loaded minimal_config (\<lambda>_. 3) 5 (journal_boot minimal_config, boot_diag_init 0 0)
      = (j', bd')" by (metis prod.exhaust)
  have a: "\<not> journal_ready (journal_boot minimal_config)" "\<not> boot_loaded (boot_diag_init 0 0)"
    "ring_inv minimal_config (journal_boot minimal_config)" "5 \<le> RING_CAP minimal_config"
    by (simp_all add: journal_boot_def minimal_config_def totem_left_config_def boot_diag_init_def ring_inv_def)
  have b: "persisted_event_seq (journal_boot minimal_config) = 0" "ring_count (journal_boot minimal_config) = 0"
    "boot_counter_count (boot_diag_init 0 0) = 0" by (simp_all add: journal_boot_def boot_diag_init_def)
  from settings_loaded_once [OF a z, of 6] b show ?thesis by (simp add: z)
qed

end
