(* ===== verification/Journal_Drain.thy ===== *)
theory Journal_Drain
  imports Journal_Restore Journal_Rate Boot_Diagnostics
begin

text \<open>
  The journal's work item until nothing is left to save: which events of the ring are not in flash
  yet, and that the runs of the writer hand exactly these, each once and under its own number, to a
  storage that accepts them. The writer is the one of the firmware, with the boot counter's save
  among its calls.
\<close>

section \<open>What is not saved yet\<close>

text \<open>
  The events of the ring with their sequence numbers, the newest being number \<open>ring_seq\<close>; unsaved are
  those above the last number that is in flash.
\<close>

definition unsaved_events :: "journal \<Rightarrow> (u32 \<times> totem_host_event) list" where
  "unsaved_events s = (let evs = ring_get_ordered s; n = length evs
     in filter (\<lambda>(q, e). persisted_event_seq s < q) (zip (map (\<lambda>i. ring_seq s - of_nat n + 1 + of_nat i) [0..<n]) evs))"

text \<open>Attempts (clock at the copy, clock after the write) that respect the minimum interval.\<close>

primrec spaced_attempts :: "totem_config \<Rightarrow> int \<Rightarrow> (int \<times> int) list \<Rightarrow> bool" where
  "spaced_attempts c l [] = True"
| "spaced_attempts c l (t # ts) =
     ((l = 0 \<or> l + PERSIST_MIN_INTERVAL_MS c \<le> fst t) \<and> 0 < snd t \<and> spaced_attempts c (snd t) ts)"

text \<open>The saves of journal blocks among all saves.\<close>

definition journal_saves :: "(string \<times> u8 list) list \<Rightarrow> (string \<times> u8 list) list" where
  "journal_saves log = filter (\<lambda>(key, v). take 8 key = ''th/dlog/'') log"

definition persist_runs ::
  "totem_config \<Rightarrow> (u8 list \<Rightarrow> u32) \<Rightarrow> (int \<times> int) list \<Rightarrow> journal \<times> (string \<times> u8 list) list \<times> boot_diag
   \<Rightarrow> journal \<times> (string \<times> u8 list) list \<times> boot_diag" where
  "persist_runs c crc = fold (\<lambda>t. persist_work_handler c crc trace_save (fst t) (snd t))"

text \<open>The same list, counted from \<open>first_new\<close>.\<close>

lemma unsaved_events_from_first_new:
  assumes inv: "journal_inv c s" "seq_room s" "journal_ready s"
  shows "unsaved_events s = map (\<lambda>n. (first_new s + of_nat n,
      ring_get_ordered s ! (unat (first_new s) + n - unat (first_available s)))) [0..<unat (ring_seq s) + 1 - unat (first_new s)]"
proof -
  let ?evs = "ring_get_ordered s" and ?m = "ring_count s" and ?R = "unat (ring_seq s)" and ?P = "unat (persisted_event_seq s)"
  let ?A = "unat (first_available s)" and ?F = "unat (first_new s)" and ?q = "\<lambda>i. ring_seq s - of_nat (ring_count s) + 1 + of_nat i :: u32"
  have len: "length ?evs = ?m" by (simp add: ring_get_ordered_def)
  have A: "?A = ?R + 1 - ?m" and F: "?F = max (?P + 1) ?A" and m: "?m \<le> ?R" and P: "?P \<le> ?R"
    using unat_first_available [OF inv(1,2)] unat_first_new [OF inv] inv
    by (simp_all add: journal_inv_def word_le_nat_alt)
  have q: "?q i = of_nat (?A + i)" for i
  proof -
    have "?q i = of_nat ?R - of_nat ?m + 1 + of_nat i" by simp
    also have "\<dots> = of_nat (?R + 1 - ?m + i)" using m by (simp add: of_nat_diff Suc_diff_le)
    finally show ?thesis by (simp only: A)
  qed
  have u: "unat (?q i) = ?A + i" if "i < ?m" for i
  proof -
    have "?A + i < 2 ^ 32" using that A m inv(2) unfolding seq_room_def by linarith
    then show ?thesis unfolding q by (intro of_nat_inverse) simp_all
  qed
  let ?d = "?F - ?A"
  have "unsaved_events s = filter (\<lambda>(q, e). persisted_event_seq s < q) (map (\<lambda>i. (?q i, ?evs ! i)) [0..<?m])"
  proof -
    have "zip (map ?q [0..<?m]) ?evs = map (\<lambda>i. (?q i, ?evs ! i)) [0..<?m]"
      by (rule nth_equalityI) (simp_all add: len)
    then show ?thesis by (simp add: unsaved_events_def len Let_def)
  qed
  also have "\<dots> = map (\<lambda>i. (?q i, ?evs ! i)) (filter (\<lambda>i. ?d \<le> i) [0..<?m])"
  proof -
    have "(persisted_event_seq s < ?q i) = (?d \<le> i)" if "i < ?m" for i
      unfolding word_less_nat_alt u [OF that] using F by auto
    then show ?thesis by (auto simp: filter_map comp_def intro!: arg_cong [where f = "map _"] filter_cong)
  qed
  also have "filter (\<lambda>i. ?d \<le> i) [0..<?m] = map (\<lambda>n. ?d + n) [0..<?m - ?d]"
  proof -
    have "filter (\<lambda>i. d \<le> i) [0..<n] = map (\<lambda>n. d + n) [0..<n - d]" for d n
      by (induction n) (auto simp: Suc_diff_le)
    then show ?thesis .
  qed
  also have "?m - ?d = ?R + 1 - ?F" using A F m P by auto
  finally have eq: "unsaved_events s = map (\<lambda>n. (?q (?d + n), ?evs ! (?d + n))) [0..<?R + 1 - ?F]" by (simp add: comp_def)
  have "?q (?d + n) = first_new s + of_nat n" for n
  proof -
    have "?A + (?d + n) = ?F + n" using F by simp
    then show ?thesis unfolding q by simp
  qed
  moreover have "?d + n = ?F + n - ?A" for n using F by simp
  ultimately show ?thesis unfolding eq by simp
qed

lemma unsaved_events_Nil:
  assumes "journal_inv c s" "seq_room s" "journal_ready s"
  shows "unsaved_events s = [] \<longleftrightarrow> first_new s > ring_seq s"
  by (auto simp: unsaved_events_from_first_new [OF assms] word_less_nat_alt)

lemma unsaved_events_fields [simp]:
  "unsaved_events (schedule_persist_coalesced c now u s) = unsaved_events s"
  "unsaved_events (s\<lparr>persist_requested := r\<rparr>) = unsaved_events s"
  "ring_get_ordered (schedule_persist_coalesced c now u s) = ring_get_ordered s"
  "ring_get_ordered (s\<lparr>persist_requested := r\<rparr>) = ring_get_ordered s"
  by (simp_all add: unsaved_events_def ring_get_ordered_def)

section \<open>One run of the work item\<close>

lemma slot_key_journal: "take 8 (slot_key k) = ''th/dlog/''"
  by (simp add: slot_key_def)

lemma counter_saves:
  obtains x bd' where "totem_boot_diagnostics_persist c trace_save (log, bd) = (0, log @ x, bd')" "journal_saves x = []"
proof (cases "CONFIG_SETTINGS c \<and> counter_pending bd")
  case True
  then show thesis
    by (intro that [of "[(''tboot/count'', counter_bytes bd)]" "bd\<lparr>counter_pending := False\<rparr>"])
      (simp_all add: totem_boot_diagnostics_persist_def trace_save_def journal_saves_def)
next
  case False
  then show thesis by (intro that [of "[]" bd]) (auto simp: totem_boot_diagnostics_persist_def journal_saves_def)
qed

lemma fresh_block_events:
  assumes inv: "journal_inv c s" "seq_room s" "journal_ready s" and ok: "kconfig_ok c"
    and count: "count = min (unat (ring_seq s) + 1 - unat (first_new s)) (BLOCK_EVENTS c)"
  shows "block_events (make_block c crc count s) = take (BLOCK_EVENTS c) (unsaved_events s)"
proof -
  have k: "RING_CAP c \<le> 1024" "BLOCK_EVENTS c \<le> 32" using ok by (simp_all add: kconfig_ok_def)
  have le: "unat (first_new s) + count \<le> unat (ring_seq s) + 1 \<or> count = 0" using count by auto
  have "block_events (make_block c crc count s)
      = map (\<lambda>n. (first_new s + of_nat n, blk_ev (make_block c crc count s) ! n)) [0..<count]"
    using count k(2) by (intro block_events_make_block) simp_all
  also have "\<dots> = map (\<lambda>n. (first_new s + of_nat n,
      ring_get_ordered s ! (unat (first_new s) + n - unat (first_available s)))) [0..<count]"
    using le by (intro map_cong refl) (auto simp: make_block_event [OF inv k(1)])
  moreover have "take k [0..<n] = [0..<min n k]" for k n :: nat
    by (cases "k \<le> n") (simp_all add: take_upt min_def)
  ultimately show ?thesis
    by (simp only: unsaved_events_from_first_new [OF inv] take_map count)
qed

lemma run_writes:
  assumes inv: "journal_inv c s" "seq_room s" "journal_ready s" and ok: "kconfig_ok c" "CONFIG_SETTINGS c"
    and time: "last_persist_uptime_ms s = 0 \<or> last_persist_uptime_ms s + PERSIST_MIN_INTERVAL_MS c \<le> now"
    and new: "unsaved_events s \<noteq> []"
    and res: "persist_work_handler c crc trace_save now now' (s, log, bd) = (s', log', bd')"
  obtains b where "journal_saves log' = journal_saves log @ [(slot_key (unat (blk_slot b)), block_bytes b)]"
    and "holds_block c crc (unat (blk_slot b)) (block_bytes b) b"
    and "block_events b = take (BLOCK_EVENTS c) (unsaved_events s)"
    and "unsaved_events s' = drop (BLOCK_EVENTS c) (unsaved_events s)" and "ring_get_ordered s' = ring_get_ordered s"
    and "journal_inv c s'" "seq_room s'" "journal_ready s'" "last_persist_uptime_ms s' = now'"
proof -
  have pos: "0 < BLOCK_EVENTS c" "BLOCK_EVENTS c \<le> 32" "JOURNAL_SLOTS c \<le> 8" using ok by (simp_all add: kconfig_ok_def)
  have "\<not> first_new s > ring_seq s" using new unsaved_events_Nil [OF inv] by simp
  then obtain slot b q s1 where copy: "persist_copy c crc now s = (Persist_write slot b q, s1)"
    using inv(3) time by (auto simp: persist_copy_def Let_def)
  with inv pos obtain count where count: "0 < count" "count \<le> BLOCK_EVENTS c" "unat (first_new s) + count \<le> unat (ring_seq s) + 1"
    "b = make_block c crc count s" "slot = next_slot s" "q = first_new s + of_nat (count - 1)"
    "count = min (unat (ring_seq s) + 1 - unat (first_new s)) (BLOCK_EVENTS c)"
    and s1: "s1 = s\<lparr>journal_seq := journal_seq s + 1, persist_requested := False\<rparr>"
    by (elim persist_copy_writeE)
  let ?s2 = "snd (persist_commit c now' 0 slot b q s1)"
  from counter_saves [of c log bd] obtain x bd1
    where x: "totem_boot_diagnostics_persist c trace_save (log, bd) = (0, log @ x, bd1)" "journal_saves x = []" by metis
  have s': "s' = ?s2 \<or> s' = schedule_persist_coalesced c now' True ?s2" and log': "log' = log @ x @ [(slot_key slot, block_bytes b)]"
    using res ok(2)
    by (auto simp: persist_work_handler_def journal_persist_def totem_host_event_log_persist_def copy x(1) trace_save_def
        case_prod_beta Let_def split: if_splits)
  have F: "unat (first_new s) = max (unat (persisted_event_seq s) + 1) (unat (ring_seq s) + 1 - ring_count s)"
    by (rule unat_first_new [OF inv])
  have "unat (first_new s) + (count - 1) < 2 ^ 32" using count(1,3) inv(2) unfolding seq_room_def by linarith
  then have q: "unat q = unat (first_new s) + (count - 1)" unfolding count(6) by (intro of_nat_inverse) simp_all
  have fields: "persisted_event_seq s' = q" "ring_seq s' = ring_seq s" "ring_count s' = ring_count s"
    "ring_get_ordered s' = ring_get_ordered s" "journal_ready s' = journal_ready s" "last_persist_uptime_ms s' = now'"
    using s' s1 by (auto simp: persist_commit_def ring_get_ordered_def Let_def)
  have "q \<le> ring_seq s" using q count(1,3) unfolding word_le_nat_alt by linarith
  then have "journal_inv c ?s2"
    using inv(1) pos s1 ok(1) by (simp add: journal_inv_def ring_inv_def persist_commit_def kconfig_ok_def)
  with s' have "journal_inv c s'" by (auto simp: journal_inv_def ring_inv_def)
  then have inv': "journal_inv c s'" "seq_room s'" "journal_ready s'" using inv fields by (simp_all add: seq_room_def)
  have F': "unat (first_new s') = unat (first_new s) + count"
    using unat_first_new [OF inv'] fields q F count(1) by simp
  have A': "first_available s' = first_available s" using fields by (simp add: first_available_def)
  have "first_new s' = first_new s + of_nat count" using F' by (metis of_nat_add of_nat_unat ucast_id)
  then have rest: "unsaved_events s' = drop (BLOCK_EVENTS c) (unsaved_events s)"
    unfolding unsaved_events_from_first_new [OF inv] unsaved_events_from_first_new [OF inv'] F' A' fields
    using count(7) by (auto intro!: nth_equalityI simp: ac_simps)
  have "slot < JOURNAL_SLOTS c" using inv(1) count(5) by (simp add: journal_inv_def)
  then have slot: "unat (blk_slot b) = slot"
    using pos(3) count(5) by (simp add: count(4) make_block_def seal_block_def Let_def unat_of_nat_small)
  have hold: "holds_block c crc slot (block_bytes b) b"
    unfolding holds_block_iff count(4,5) using make_block_acceptable [OF count(1,2) pos(2), of crc s] by simp
  have "journal_saves log' = journal_saves log @ [(slot_key slot, block_bytes b)]"
    using x(2) slot_key_journal [of slot] by (simp add: log' journal_saves_def)
  with hold fresh_block_events [OF inv ok(1) count(7), of crc, folded count(4)] rest fields(4,6) inv' show thesis
    by (intro that [of b]) (simp_all add: slot)
qed

lemma run_idle:
  assumes "journal_inv c s" "seq_room s" "journal_ready s" and "unsaved_events s = []"
    and "persist_work_handler c crc save now now' (s, log, bd) = (s', log', bd')"
  shows "journal_inv c s'" "seq_room s'" "journal_ready s'" "unsaved_events s' = []"
    "ring_get_ordered s' = ring_get_ordered s" "log' = log"
proof -
  have "first_new s > ring_seq s" using assms(1-4) unsaved_events_Nil by blast
  then have "s' = s \<or> s' = s\<lparr>persist_requested := False\<rparr> \<or> s' = schedule_persist_coalesced c now True s" and "log' = log"
    using assms(3,5) by (auto simp: persist_work_handler_def journal_persist_def totem_host_event_log_persist_def
        persist_copy_def split: if_splits)
  with assms(1-4) show "journal_inv c s'" "seq_room s'" "journal_ready s'" "unsaved_events s' = []"
    "ring_get_ordered s' = ring_get_ordered s" "log' = log"
    by (auto simp: journal_inv_def ring_inv_def seq_room_def)
qed

section \<open>Properties\<close>

text \<open>The blocks \<open>bs\<close> went to flash, intact, and hold the events \<open>evs\<close>.\<close>

definition blocks_saved ::
  "totem_config \<Rightarrow> (u8 list \<Rightarrow> u32) \<Rightarrow> (u32 \<times> totem_host_event) list \<Rightarrow> totem_diag_block list
   \<Rightarrow> (string \<times> u8 list) list \<Rightarrow> bool" where
  "blocks_saved c crc evs bs saves \<longleftrightarrow>
     saves = map (\<lambda>b. (slot_key (unat (blk_slot b)), block_bytes b)) bs
   \<and> (\<forall>b \<in> set bs. holds_block c crc (unat (blk_slot b)) (block_bytes b) b)
   \<and> concat (map block_events bs) = evs"

lemma runs_drain:
  assumes ok: "kconfig_ok c" "CONFIG_SETTINGS c"
  shows "journal_inv c s \<Longrightarrow> seq_room s \<Longrightarrow> journal_ready s \<Longrightarrow>
    unsaved_events s = [] \<or> spaced_attempts c (last_persist_uptime_ms s) ts \<Longrightarrow>
    length (unsaved_events s) \<le> length ts * BLOCK_EVENTS c \<Longrightarrow> persist_runs c crc ts (s, log, bd) = (s', log', bd') \<Longrightarrow>
    (\<exists>bs saves. journal_saves log' = journal_saves log @ saves \<and> blocks_saved c crc (unsaved_events s) bs saves)
    \<and> unsaved_events s' = [] \<and> ring_get_ordered s' = ring_get_ordered s"
proof (induction ts arbitrary: s log bd)
  case Nil
  then show ?case by (auto simp: persist_runs_def blocks_saved_def intro!: exI [of _ "[]"])
next
  case (Cons t ts)
  obtain s1 log1 bd1 where one: "persist_work_handler c crc trace_save (fst t) (snd t) (s, log, bd) = (s1, log1, bd1)"
    by (metis prod.exhaust)
  with Cons.prems(6) have more: "persist_runs c crc ts (s1, log1, bd1) = (s', log', bd')" by (simp add: persist_runs_def)
  show ?case
  proof (cases "unsaved_events s = []")
    case True
    note i = run_idle [OF Cons.prems(1-3) True one]
    from Cons.IH [OF i(1-3) _ _ more] i(4-6) True show ?thesis by (simp add: blocks_saved_def)
  next
    case False
    then have sp: "last_persist_uptime_ms s = 0 \<or> last_persist_uptime_ms s + PERSIST_MIN_INTERVAL_MS c \<le> fst t"
      "spaced_attempts c (snd t) ts" using Cons.prems(4) by auto
    from run_writes [OF Cons.prems(1-3) ok sp(1) False one] obtain b
      where b: "journal_saves log1 = journal_saves log @ [(slot_key (unat (blk_slot b)), block_bytes b)]"
        "holds_block c crc (unat (blk_slot b)) (block_bytes b) b" "block_events b = take (BLOCK_EVENTS c) (unsaved_events s)"
        "unsaved_events s1 = drop (BLOCK_EVENTS c) (unsaved_events s)" "ring_get_ordered s1 = ring_get_ordered s"
        "journal_inv c s1" "seq_room s1" "journal_ready s1" "last_persist_uptime_ms s1 = snd t" by metis
    have "length (unsaved_events s1) \<le> length ts * BLOCK_EVENTS c" using Cons.prems(5) by (simp add: b(4))
    with Cons.IH [OF b(6-8) _ _ more] sp(2) b(9) obtain bs saves
      where "journal_saves log' = journal_saves log1 @ saves" "blocks_saved c crc (unsaved_events s1) bs saves"
        and fin: "unsaved_events s' = []" "ring_get_ordered s' = ring_get_ordered s1" by auto
    with b(1-4) have "journal_saves log' = journal_saves log @ (slot_key (unat (blk_slot b)), block_bytes b) # saves"
      "blocks_saved c crc (unsaved_events s) (b # bs) ((slot_key (unat (blk_slot b)), block_bytes b) # saves)"
      by (simp_all add: blocks_saved_def)
    with fin b(5) show ?thesis by auto
  qed
qed

text \<open>
  C26. The backlog drains into flash: when the work item runs as often as the unsaved events need
  blocks, at times that respect the minimum interval, and the storage accepts the writes, then the
  blocks it stored, each an intact value of its slot, hold exactly the events of the ring that were
  not in flash before, in order and each under the number it was recorded with; afterwards nothing is
  left to save and the ring is as before.
\<close>

theorem journal_backlog_drains:
  assumes "kconfig_ok c" and "CONFIG_SETTINGS c" and "journal_inv c s" and "seq_room s" and "journal_ready s"
    and "spaced_attempts c (last_persist_uptime_ms s) ts"
    and "length (unsaved_events s) \<le> length ts * BLOCK_EVENTS c"
    and "fold (\<lambda>(now, now'). persist_work_handler c crc trace_save now now') ts (s, [], bd) = (s', log, bd')"
  shows "(\<exists>bs. journal_saves log = map (\<lambda>b. (slot_key (unat (blk_slot b)), block_bytes b)) bs
        \<and> (\<forall>b \<in> set bs. holds_block c crc (unat (blk_slot b)) (block_bytes b) b)
        \<and> concat (map block_events bs) = unsaved_events s)
    \<and> unsaved_events s' = [] \<and> ring_get_ordered s' = ring_get_ordered s"
proof -
  have "persist_runs c crc ts (s, [], bd) = (s', log, bd')" using assms(8) by (simp add: persist_runs_def case_prod_beta')
  from runs_drain [OF assms(1-5) _ assms(7) this] assms(6) show ?thesis
    by (simp add: blocks_saved_def journal_saves_def)
qed

theorem journal_backlog_drains_witness:
  "let (s', log, bd') = fold (\<lambda>(now, now'). persist_work_handler minimal_config (\<lambda>_. 0) trace_save now now') [(9, 10)]
         (demo_recorded, [], (boot_diag_init 0 0)\<lparr>counter_pending := True\<rparr>)
   in unsaved_events demo_recorded = [(1, zero_event)] \<and> map fst log = [''tboot/count'', ''th/dlog/0'']
      \<and> (\<exists>b. journal_saves log = [(''th/dlog/0'', block_bytes b)] \<and> block_events b = [(1, zero_event)])
      \<and> unsaved_events s' = []"
proof -
  let ?bd = "(boot_diag_init 0 0)\<lparr>counter_pending := True\<rparr>"
  let ?run = "fold (\<lambda>(now, now'). persist_work_handler minimal_config (\<lambda>_. 0) trace_save now now') [(9, 10)] (demo_recorded, [], ?bd)"
  obtain s' log bd' where r: "?run = (s', log, bd')" by (metis prod.exhaust)
  have un: "unsaved_events demo_recorded = [(1, zero_event)]" by code_simp
  have "map fst (fst (snd ?run)) = [''tboot/count'', ''th/dlog/0'']" by code_simp
  then have keys: "map fst log = [''tboot/count'', ''th/dlog/0'']" by (simp only: r snd_conv fst_conv)
  have c: "CONFIG_SETTINGS minimal_config" "spaced_attempts minimal_config (last_persist_uptime_ms demo_recorded) [(9, 10)]"
    "length (unsaved_events demo_recorded) \<le> length [(9 :: int, 10 :: int)] * BLOCK_EVENTS minimal_config"
    unfolding un by (simp_all add: demo_defs)
  from journal_backlog_drains [OF kconfig_ok_minimal c(1) demo_inv c(2,3) r] un obtain bs
    where bs: "journal_saves log = map (\<lambda>b. (slot_key (unat (blk_slot b)), block_bytes b)) bs"
      "concat (map block_events bs) = [(1, zero_event)]" "unsaved_events s' = []" by auto
  have "map fst (journal_saves log) = [''th/dlog/0'']"
  proof -
    obtain v w where "log = [(''tboot/count'', v), (''th/dlog/0'', w)]" using keys by (auto simp: map_eq_Cons_conv)
    then show ?thesis by (simp add: journal_saves_def)
  qed
  then obtain b where "bs = [b]" "slot_key (unat (blk_slot b)) = ''th/dlog/0''" unfolding bs(1) by (auto simp: map_eq_Cons_conv)
  with bs un keys show ?thesis by (simp only: r Let_def prod.case) auto
qed

end
