(* ===== verification/Fault.thy ===== *)
theory Fault
  imports Platform Format
begin

text \<open>
  Crash and hang capture, \<open>src/totem_fault.c\<close> and \<open>include/totem_fault.h\<close>: a record in RAM that
  a soft reset keeps and a power failure fills with garbage, sealed by a magic number and a
  checksum (\<open>crc\<close>, Zephyr's \<open>crc32_ieee\<close>), reported once at the next boot.
\<close>

section \<open>Data\<close>

datatype totem_fault_kind = TOTEM_FAULT_NONE | TOTEM_FAULT_CRASH | TOTEM_FAULT_TASK_WDT

primrec fault_kind_num :: "totem_fault_kind \<Rightarrow> u8" where
  "fault_kind_num TOTEM_FAULT_NONE = 0"
| "fault_kind_num TOTEM_FAULT_CRASH = 1"
| "fault_kind_num TOTEM_FAULT_TASK_WDT = 2"

record totem_fault_record =
  fr_magic :: u32
  fr_crc :: u32
  fr_kind :: u8
  fr_channel :: i8
  fr_reason :: u16
  fr_pc :: u32
  fr_lr :: u32
  fr_uptime_ms :: u32
  fr_thread :: u32
  fr_label :: string

definition TOTEM_FAULT_MAGIC :: u32 where "TOTEM_FAULT_MAGIC = 0x544F4654"

definition NUL :: char where "NUL = CHR 0x00"

definition zero_fault :: totem_fault_record where
  "zero_fault = \<lparr>fr_magic = 0, fr_crc = 0, fr_kind = 0, fr_channel = 0, fr_reason = 0, fr_pc = 0,
     fr_lr = 0, fr_uptime_ms = 0, fr_thread = 0, fr_label = replicate 20 NUL\<rparr>"

record fault_state =
  fault_rec :: totem_fault_record
  last_fault :: totem_fault_record

section \<open>Envelope\<close>

text \<open>The bytes from \<open>kind\<close> onward; the struct has no padding.\<close>

definition fault_bytes :: "totem_fault_record \<Rightarrow> u8 list" where
  "fault_bytes r = [fr_kind r, fr_channel r] @ bytes16 (fr_reason r) @ bytes32 (fr_pc r) @
     bytes32 (fr_lr r) @ bytes32 (fr_uptime_ms r) @ bytes32 (fr_thread r) @ map of_char (fr_label r)"

definition fault_crc :: "(u8 list \<Rightarrow> u32) \<Rightarrow> totem_fault_record \<Rightarrow> u32" where
  "fault_crc crc r = crc (fault_bytes r)"

definition fault_valid :: "(u8 list \<Rightarrow> u32) \<Rightarrow> totem_fault_record \<Rightarrow> bool" where
  "fault_valid crc r \<longleftrightarrow> fr_magic r = TOTEM_FAULT_MAGIC \<and> fr_crc r = fault_crc crc r"

definition fault_seal :: "(u8 list \<Rightarrow> u32) \<Rightarrow> totem_fault_record \<Rightarrow> totem_fault_record" where
  "fault_seal crc r0 = (let r = r0\<lparr>fr_magic := TOTEM_FAULT_MAGIC\<rparr> in r\<lparr>fr_crc := fault_crc crc r\<rparr>)"

section \<open>Producers\<close>

text \<open>
  \<open>strncpy(label, s, sizeof(label) - 1)\<close> followed by the terminating NUL in the last byte;
  \<open>strncpy\<close> pads with NULs.
\<close>

definition copy_label :: "string \<Rightarrow> string" where
  "copy_label s = take 19 s @ replicate (20 - min 19 (length s)) NUL"

text \<open>The text \<open>%s\<close> prints.\<close>

definition c_text :: "string \<Rightarrow> string" where
  "c_text s = takeWhile (\<lambda>ch. ch \<noteq> NUL) s"

text \<open>\<open>tid\<close> is \<open>k_current_get()\<close>, \<open>name\<close> the result of \<open>k_thread_name_get\<close>.\<close>

definition fault_fill_thread :: "u32 \<Rightarrow> string option \<Rightarrow> totem_fault_record \<Rightarrow> totem_fault_record" where
  "fault_fill_thread tid name r0 =
     (let r = r0\<lparr>fr_thread := tid, fr_label := (fr_label r0)[0 := NUL]\<rparr> in
      case name of
        None \<Rightarrow> r
      | Some s \<Rightarrow> if s = [] then r else r\<lparr>fr_label := copy_label s\<rparr>)"

definition totem_fault_note_task_wdt ::
  "(u8 list \<Rightarrow> u32) \<Rightarrow> u32 \<Rightarrow> u32 \<Rightarrow> string option \<Rightarrow> int \<Rightarrow> string option \<Rightarrow> fault_state \<Rightarrow> fault_state" where
  "totem_fault_note_task_wdt crc now tid name channel_id label fs =
     (let r = fault_fill_thread tid name (zero_fault\<lparr>fr_kind := fault_kind_num TOTEM_FAULT_TASK_WDT,
                fr_channel := to_i8 channel_id, fr_reason := 0, fr_uptime_ms := now\<rparr>);
          r' = (case label of None \<Rightarrow> r | Some l \<Rightarrow> r\<lparr>fr_label := copy_label l\<rparr>)
      in fs\<lparr>fault_rec := fault_seal crc r'\<rparr>)"

text \<open>\<open>esf\<close> is the exception frame's \<open>pc\<close> and \<open>lr\<close>, absent for fatals without an exception.\<close>

definition k_sys_fatal_error_handler ::
  "(u8 list \<Rightarrow> u32) \<Rightarrow> u32 \<Rightarrow> u32 \<Rightarrow> string option \<Rightarrow> u32 \<Rightarrow> (u32 \<times> u32) option \<Rightarrow> fault_state \<Rightarrow> fault_state" where
  "k_sys_fatal_error_handler crc now tid name reason esf fs =
     (let r = fault_fill_thread tid name (zero_fault\<lparr>fr_kind := fault_kind_num TOTEM_FAULT_CRASH,
                fr_channel := - 1, fr_reason := ucast reason, fr_uptime_ms := now\<rparr>);
          r' = (case esf of None \<Rightarrow> r | Some (pc, lr) \<Rightarrow> r\<lparr>fr_pc := pc, fr_lr := lr\<rparr>)
      in fs\<lparr>fault_rec := fault_seal crc r'\<rparr>)"

text \<open>The crash record of the zmk-studio-log module (not part of this repository).\<close>

record zmk_studio_log_fault =
  zf_reason :: u32
  zf_pc :: u32
  zf_lr :: u32
  zf_uptime_ms :: u32
  zf_thread :: u32
  zf_thread_name :: string

definition fault_import_module_crash ::
  "(u8 list \<Rightarrow> u32) \<Rightarrow> zmk_studio_log_fault option \<Rightarrow> fault_state \<Rightarrow> fault_state" where
  "fault_import_module_crash crc boot_fault fs =
     (case boot_fault of
        None \<Rightarrow> fs
      | Some crash \<Rightarrow>
          if fault_valid crc (fault_rec fs) then fs
          else fs\<lparr>fault_rec := fault_seal crc (zero_fault\<lparr>
                 fr_kind := fault_kind_num TOTEM_FAULT_CRASH, fr_channel := - 1,
                 fr_reason := ucast (zf_reason crash), fr_pc := zf_pc crash, fr_lr := zf_lr crash,
                 fr_uptime_ms := zf_uptime_ms crash, fr_thread := zf_thread crash,
                 fr_label := copy_label (zf_thread_name crash)\<rparr>)\<rparr>)"

section \<open>Report\<close>

text \<open>Zephyr's \<open>K_ERR_*\<close> values 0 to 4.\<close>

definition fault_reason_str :: "u16 \<Rightarrow> string" where
  "fault_reason_str reason =
     (if reason = 0 then ''CPU_EXCEPTION''
      else if reason = 1 then ''SPURIOUS_IRQ''
      else if reason = 2 then ''STACK_OVERFLOW''
      else if reason = 3 then ''KERNEL_OOPS''
      else if reason = 4 then ''KERNEL_PANIC''
      else ''UNKNOWN'')"

definition fault_line :: "totem_fault_record \<Rightarrow> string" where
  "fault_line r =
     (if fr_kind r = fault_kind_num TOTEM_FAULT_CRASH then
        ''totem_fault CRASH reason='' @ fmt_u (fr_reason r) @ ''('' @ fault_reason_str (fr_reason r) @
        '') pc=0x'' @ fmt_08x (fr_pc r) @ '' lr=0x'' @ fmt_08x (fr_lr r) @ '' thread='' @
        c_text (fr_label r) @ ''(0x'' @ fmt_08x (fr_thread r) @ '') at_uptime='' @
        fmt_u (fr_uptime_ms r) @ '' ms''
      else if fr_kind r = fault_kind_num TOTEM_FAULT_TASK_WDT then
        ''totem_fault HANG task_wdt channel='' @ fmt_d (sint (fr_channel r)) @ '' ('' @
        c_text (fr_label r) @ '') stopped feeding; at_uptime='' @ fmt_u (fr_uptime_ms r) @ '' ms''
      else ''totem_fault unknown kind='' @ fmt_u (fr_kind r))"

definition fault_status_of :: "(u8 list \<Rightarrow> u32) \<Rightarrow> totem_fault_record \<Rightarrow> u8" where
  "fault_status_of crc r =
     (if fr_magic r = 0 then 0
      else if fr_magic r \<noteq> TOTEM_FAULT_MAGIC then 1
      else if fault_valid crc r then 3 else 2)"

text \<open>
  What the report hands to its callees: the status byte for the boot diagnostics, the journal
  records in order, and the printed line (without its newline).
\<close>

record fault_report =
  rep_status :: u8
  rep_calls :: "log_call list"
  rep_line :: string

definition totem_fault_report_and_clear ::
  "totem_config \<Rightarrow> (u8 list \<Rightarrow> u32) \<Rightarrow> zmk_studio_log_fault option \<Rightarrow> fault_state \<Rightarrow> fault_report \<times> fault_state" where
  "totem_fault_report_and_clear c crc boot_fault fs0 =
     (let fs = (if CONFIG_ZMK_STUDIO_LOG_FAULT_CAPTURE c then fault_import_module_crash crc boot_fault fs0 else fs0);
          r = fault_rec fs;
          status = fault_status_of crc r;
          status_call = log_args TOTEM_HEVT_BOOT_FAULT_STATUS (- 1) (- 1) status (if status = 3 then fr_kind r else 0) 0
      in if \<not> fault_valid crc r
         then (\<lparr>rep_status = status, rep_calls = [status_call], rep_line = ''totem_fault none''\<rparr>, fs)
         else (\<lparr>rep_status = status,
                rep_calls = [status_call,
                  log_args TOTEM_HEVT_FAULT (fr_channel r) (- 1) (ucast (fr_reason r)) 0 (fr_kind r)],
                rep_line = fault_line r\<rparr>,
               fs\<lparr>last_fault := r, fault_rec := r\<lparr>fr_magic := 0, fr_crc := 0\<rparr>\<rparr>))"

text \<open>A soft reset keeps \<open>__noinit\<close> RAM and clears the rest.\<close>

definition fault_soft_reset :: "fault_state \<Rightarrow> fault_state" where
  "fault_soft_reset fs = fs\<lparr>last_fault := zero_fault\<rparr>"

section \<open>Lemmas\<close>

lemma length_copy_label [simp]: "length (copy_label s) = 20"
  by (simp add: copy_label_def min_def)

lemma c_text_copy_label:
  assumes "NUL \<notin> set s"
  shows "c_text (copy_label s) = take 19 s"
proof -
  have "takeWhile (\<lambda>ch. ch \<noteq> NUL) (take 19 s @ NUL # xs) = take 19 s" for xs
    using assms by (subst takeWhile_append2) (auto dest: in_set_takeD)
  moreover obtain k where "20 - min 19 (length s) = Suc k" by (cases "20 - min 19 (length s)") auto
  ultimately show ?thesis by (simp add: c_text_def copy_label_def)
qed

lemma fault_bytes_envelope [simp]:
  "fault_bytes (r\<lparr>fr_magic := m\<rparr>) = fault_bytes r" "fault_bytes (r\<lparr>fr_crc := k\<rparr>) = fault_bytes r"
  by (simp_all add: fault_bytes_def)

interpretation fault_envelope: sealed_store "fault_seal crc" "fault_valid crc"
  "\<lambda>r. r\<lparr>fr_magic := 0, fr_crc := 0\<rparr>" for crc
  by unfold_locales (simp_all add: fault_seal_def fault_valid_def fault_crc_def Let_def)

lemma fault_seal_fields [simp]:
  "fr_kind (fault_seal crc r) = fr_kind r" "fr_channel (fault_seal crc r) = fr_channel r"
  "fr_reason (fault_seal crc r) = fr_reason r" "fr_label (fault_seal crc r) = fr_label r"
  "fr_pc (fault_seal crc r) = fr_pc r" "fr_lr (fault_seal crc r) = fr_lr r"
  "fr_uptime_ms (fault_seal crc r) = fr_uptime_ms r" "fr_thread (fault_seal crc r) = fr_thread r"
  "fr_magic (fault_seal crc r) = TOTEM_FAULT_MAGIC"
  by (simp_all add: fault_seal_def Let_def)

lemma fill_thread_fields [simp]:
  "fr_kind (fault_fill_thread tid name r) = fr_kind r" "fr_channel (fault_fill_thread tid name r) = fr_channel r"
  "fr_reason (fault_fill_thread tid name r) = fr_reason r" "fr_pc (fault_fill_thread tid name r) = fr_pc r"
  "fr_lr (fault_fill_thread tid name r) = fr_lr r" "fr_uptime_ms (fault_fill_thread tid name r) = fr_uptime_ms r"
  by (simp_all add: fault_fill_thread_def Let_def split: option.splits)

lemma magic_neq_0 [simp]: "TOTEM_FAULT_MAGIC \<noteq> 0"
  by (simp add: TOTEM_FAULT_MAGIC_def)

lemma fault_status_valid: "fault_status_of crc r = 3 \<longleftrightarrow> fault_valid crc r"
  by (auto simp: fault_status_of_def fault_valid_def)

text \<open>A sealed record is reported with its own fields and then retired.\<close>

lemma report_sealed:
  assumes "fault_valid crc (fault_rec fs)"
  shows "totem_fault_report_and_clear c crc bf fs =
    (\<lparr>rep_status = 3,
      rep_calls = [log_args TOTEM_HEVT_BOOT_FAULT_STATUS (- 1) (- 1) 3 (fr_kind (fault_rec fs)) 0,
        log_args TOTEM_HEVT_FAULT (fr_channel (fault_rec fs)) (- 1) (ucast (fr_reason (fault_rec fs))) 0
          (fr_kind (fault_rec fs))],
      rep_line = fault_line (fault_rec fs)\<rparr>,
     \<lparr>fault_rec = (fault_rec fs)\<lparr>fr_magic := 0, fr_crc := 0\<rparr>, last_fault = fault_rec fs\<rparr>)"
proof -
  have "fault_import_module_crash crc bf fs = fs"
    using assms by (simp add: fault_import_module_crash_def split: option.splits)
  moreover have "fault_status_of crc (fault_rec fs) = 3" using assms by (simp add: fault_status_valid)
  ultimately show ?thesis
    using assms by (cases fs) (simp add: totem_fault_report_and_clear_def Let_def)
qed

lemma report_cleared:
  assumes "fr_magic (fault_rec fs) = 0"
  shows "totem_fault_report_and_clear c crc None fs =
    (\<lparr>rep_status = 0, rep_calls = [log_args TOTEM_HEVT_BOOT_FAULT_STATUS (- 1) (- 1) 0 0 0],
      rep_line = ''totem_fault none''\<rparr>, fs)"
  using assms
  by (simp add: totem_fault_report_and_clear_def fault_import_module_crash_def fault_valid_def
      fault_status_of_def Let_def)

text \<open>A noted hang, the soft reset, and the reports of the next two boots.\<close>

lemma noted_hang_reports:
  assumes "- 128 \<le> channel" and "channel < 128" and "NUL \<notin> set label" and "length label < 20"
    and "fs1 = fault_soft_reset (totem_fault_note_task_wdt crc now tid name channel (Some label) fs)"
    and "totem_fault_report_and_clear c crc bf fs1 = (rep1, fs2)"
    and "totem_fault_report_and_clear c crc None (fault_soft_reset fs2) = (rep2, fs3)"
  shows "rep_status rep1 = 3
    \<and> rep_line rep1 = ''totem_fault HANG task_wdt channel='' @ fmt_d channel @ '' ('' @ label
        @ '') stopped feeding; at_uptime='' @ fmt_u now @ '' ms''
    \<and> log_args TOTEM_HEVT_FAULT (to_i8 channel) (- 1) 0 0 2 \<in> set (rep_calls rep1)
    \<and> fr_label (last_fault fs2) = copy_label label
    \<and> rep_status rep2 = 0 \<and> rep_line rep2 = ''totem_fault none''
    \<and> last_fault fs3 = zero_fault"
proof -
  let ?r = "fault_rec fs1"
  have valid: "fault_valid crc ?r"
    by (simp add: assms(5) fault_soft_reset_def totem_fault_note_task_wdt_def fault_envelope.seal_valid Let_def)
  have f: "fr_kind ?r = 2" "fr_channel ?r = to_i8 channel" "fr_reason ?r = 0" "fr_uptime_ms ?r = now"
    "fr_label ?r = copy_label label"
    by (simp_all add: assms(5) fault_soft_reset_def totem_fault_note_task_wdt_def Let_def)
  have line: "fault_line ?r = ''totem_fault HANG task_wdt channel='' @ fmt_d channel @ '' ('' @ label
        @ '') stopped feeding; at_uptime='' @ fmt_u now @ '' ms''"
    using f assms(1-4) by (simp add: fault_line_def c_text_copy_label cast_simps)
  note r1 = report_sealed [OF valid, of c bf, unfolded assms(6)]
  have "fr_magic (fault_rec (fault_soft_reset fs2)) = 0" using r1 by (simp add: fault_soft_reset_def)
  from report_cleared [OF this, of c crc, unfolded assms(7)] r1 f line show ?thesis
    by (simp add: fault_soft_reset_def)
qed

section \<open>Properties\<close>

text \<open>
  A hang noted by the task watchdog survives the soft reset and is reported exactly once:
  the next boot prints a HANG line with the channel and label, records the fault in the journal
  and keeps it for the dump, and the boot after that reports no fault.
\<close>

theorem hang_reported_once:
  assumes "- 128 \<le> channel" and "channel < 128" and "NUL \<notin> set label" and "length label < 20"
    and "fs1 = fault_soft_reset (totem_fault_note_task_wdt crc now tid name channel (Some label) fs)"
    and "totem_fault_report_and_clear c crc bf fs1 = (rep1, fs2)"
    and "totem_fault_report_and_clear c crc None (fault_soft_reset fs2) = (rep2, fs3)"
  shows "rep_status rep1 = 3
    \<and> rep_line rep1 = ''totem_fault HANG task_wdt channel='' @ fmt_d channel @ '' ('' @ label
        @ '') stopped feeding; at_uptime='' @ fmt_u now @ '' ms''
    \<and> log_args TOTEM_HEVT_FAULT (to_i8 channel) (- 1) 0 0 2 \<in> set (rep_calls rep1)
    \<and> fr_label (last_fault fs2) = copy_label label
    \<and> rep_status rep2 = 0 \<and> rep_line rep2 = ''totem_fault none''
    \<and> last_fault fs3 = zero_fault"
  using assms by (rule noted_hang_reports)

theorem hang_reported_once_witness:
  "let fs = \<lparr>fault_rec = zero_fault, last_fault = zero_fault\<rparr>;
       fs1 = fault_soft_reset (totem_fault_note_task_wdt (\<lambda>_. 5) 1234 0x20001000 None 1 (Some ''sysworkq'') fs);
       (rep1, fs2) = totem_fault_report_and_clear totem_left_config (\<lambda>_. 5) None fs1;
       (rep2, fs3) = totem_fault_report_and_clear totem_left_config (\<lambda>_. 5) None (fault_soft_reset fs2)
   in rep_line rep1 = ''totem_fault HANG task_wdt channel=1 (sysworkq) stopped feeding; at_uptime=1234 ms''
      \<and> rep_line rep2 = ''totem_fault none''"
proof -
  let ?fs = "\<lparr>fault_rec = zero_fault, last_fault = zero_fault\<rparr>"
  let ?fs1 = "fault_soft_reset (totem_fault_note_task_wdt (\<lambda>_. 5) 1234 0x20001000 None 1 (Some ''sysworkq'') ?fs)"
  obtain rep1 fs2 where r1: "totem_fault_report_and_clear totem_left_config (\<lambda>_. 5) None ?fs1 = (rep1, fs2)"
    by (metis prod.exhaust)
  obtain rep2 fs3 where r2: "totem_fault_report_and_clear totem_left_config (\<lambda>_. 5) None (fault_soft_reset fs2) = (rep2, fs3)"
    by (metis prod.exhaust)
  have n: "NUL \<notin> set ''sysworkq''" "length ''sysworkq'' < 20" by (simp_all add: NUL_def)
  have d: "fmt_d 1 = ''1''" "fmt_u (1234 :: u32) = ''1234''" by code_simp+
  from hang_reported_once [OF _ _ n refl r1 r2] show ?thesis by (simp add: r1 r2 d)
qed

text \<open>
  C24. A power failure cannot invent a fault: at a boot for which the studio-log module reports no crash of
  its own, whatever the record holds, unless the magic number
  and the checksum over all other fields agree, the boot reports none, records no fault event
  and keeps no last fault; the status byte says which check failed.
\<close>

theorem garbage_never_reported:
  assumes "\<not> (fr_magic (fault_rec fs) = TOTEM_FAULT_MAGIC \<and> fr_crc (fault_rec fs) = crc (fault_bytes (fault_rec fs)))"
    and "totem_fault_report_and_clear c crc None fs = (rep, fs')"
  shows "rep_line rep = ''totem_fault none'' \<and> fs' = fs
    \<and> TOTEM_HEVT_FAULT \<notin> call_type ` set (rep_calls rep)
    \<and> rep_status rep = (if fr_magic (fault_rec fs) = 0 then 0
                        else if fr_magic (fault_rec fs) = TOTEM_FAULT_MAGIC then 2 else 1)"
proof -
  let ?r = "fault_rec fs"
  have imp: "fault_import_module_crash crc None fs = fs" by (simp add: fault_import_module_crash_def)
  have nv: "\<not> fault_valid crc ?r" using assms(1) by (simp add: fault_valid_def fault_crc_def)
  have "totem_fault_report_and_clear c crc None fs =
    (\<lparr>rep_status = fault_status_of crc ?r,
      rep_calls = [log_args TOTEM_HEVT_BOOT_FAULT_STATUS (- 1) (- 1) (fault_status_of crc ?r) 0 0],
      rep_line = ''totem_fault none''\<rparr>, fs)"
    using nv by (simp add: totem_fault_report_and_clear_def imp fault_status_valid Let_def)
  with assms(2) nv show ?thesis by (auto simp: fault_status_of_def)
qed

theorem garbage_never_reported_witness:
  "let fs = \<lparr>fault_rec = zero_fault\<lparr>fr_magic := TOTEM_FAULT_MAGIC, fr_crc := 9\<rparr>, last_fault = zero_fault\<rparr>;
       (rep, fs') = totem_fault_report_and_clear totem_left_config (\<lambda>_. 5) None fs
   in rep_status rep = 2 \<and> rep_line rep = ''totem_fault none''"
proof -
  let ?fs = "\<lparr>fault_rec = zero_fault\<lparr>fr_magic := TOTEM_FAULT_MAGIC, fr_crc := 9\<rparr>, last_fault = zero_fault\<rparr>"
  obtain rep fs' where r: "totem_fault_report_and_clear totem_left_config (\<lambda>_. 5) None ?fs = (rep, fs')"
    by (metis prod.exhaust)
  from garbage_never_reported [OF _ r] show ?thesis by (simp add: r)
qed

end
