(* ===== verification/Journal_Dump.thy ===== *)
theory Journal_Dump
  imports Fault Boot_Diagnostics
begin

text \<open>
  The dump of the journal over the console, \<open>totem_host_event_log_dump\<close> of
  \<open>src/host_event_log.c\<close>, with the sender \<open>totem_studio_send_diag_line\<close> of
  \<open>src/totem_studio_extras.c\<close>. The studio link belongs to another module: its answers (is the USB
  keyboard interface ready, and what \<open>zmk_studio_log_send_line\<close> returns) are an input list,
  consumed one per call; a line answered with 0 was accepted. An exhausted list answers
  ``not ready''.
\<close>

section \<open>The link\<close>

definition EAGAIN :: int where [simp]: "EAGAIN = 11"
definition EMSGSIZE :: int where [simp]: "EMSGSIZE = 122"

record link =
  answers :: "(bool \<times> int) list"
  sent :: "string list"

definition totem_studio_send_diag_line :: "string \<Rightarrow> link \<Rightarrow> int \<times> link" where
  "totem_studio_send_diag_line line w =
     (if line = [] then (- EMSGSIZE, w)
      else case answers w of
        [] \<Rightarrow> (- EAGAIN, w)
      | (usb_hid_ready, err) # rest \<Rightarrow>
          if \<not> usb_hid_ready then (- EAGAIN, w\<lparr>answers := rest\<rparr>)
          else (err, w\<lparr>answers := rest, sent := (if err = 0 then sent w @ [line] else sent w)\<rparr>))"

primrec send_attempts :: "nat \<Rightarrow> string \<Rightarrow> link \<Rightarrow> int \<times> link" where
  "send_attempts 0 line w = (- EAGAIN, w)"
| "send_attempts (Suc n) line w =
     (let (err, w1) = totem_studio_send_diag_line line w
      in if err \<noteq> - EAGAIN then (err, w1) else send_attempts n line w1)"

definition dump_send :: "totem_config \<Rightarrow> string \<Rightarrow> link \<Rightarrow> int \<times> link" where
  "dump_send c line w =
     (if CONFIG_TOTEM_STUDIO_CONSOLE c then send_attempts 40 line w
      else (0, w\<lparr>sent := sent w @ [line]\<rparr>))"

section \<open>Lines\<close>

definition data_line :: "u32 \<Rightarrow> u32 \<Rightarrow> string \<Rightarrow> string" where
  "data_line did ordinal detail =
     ''totem_diag d='' @ fmt_u did @ '' n='' @ fmt_u ordinal @ '' '' @ detail"

definition event_detail :: "totem_host_event \<Rightarrow> char \<Rightarrow> u8 \<Rightarrow> u32 \<Rightarrow> string" where
  "event_detail e source slot seq =
     ''e s='' @ [source] @ fmt_u slot @ '' q='' @ fmt_u seq @ '' t='' @ fmt_u (uptime_ms e)
     @ '' k='' @ fmt_u (ev_type e) @ '' i='' @ fmt_d (sint (ev_idx e)) @ '' a='' @ fmt_d (sint (ev_active e))
     @ '' r='' @ fmt_u (ev_reason e) @ '' w='' @ fmt_u (ev_thrash_win e) @ '' x='' @ fmt_u (ev_extra e)"

definition block_detail :: "u8 \<Rightarrow> totem_diag_block \<Rightarrow> string" where
  "block_detail slot b =
     ''b s='' @ fmt_u slot @ '' j='' @ fmt_u (blk_journal_seq b) @ '' first='' @ fmt_u (blk_first_event_seq b)
     @ '' count='' @ fmt_u (blk_count b)"

definition begin_line :: "u32 \<Rightarrow> u32 \<Rightarrow> u8 \<Rightarrow> u32 \<Rightarrow> u16 \<Rightarrow> u32 \<Rightarrow> string" where
  "begin_line did expected blocks persisted n seq =
     ''totem_diag begin id='' @ fmt_u did @ '' lines='' @ fmt_u expected @ '' blocks='' @ fmt_u blocks
     @ '' persisted='' @ fmt_u persisted @ '' ram='' @ fmt_u n @ '' seq='' @ fmt_u seq"

definition end_line :: "u32 \<Rightarrow> u32 \<Rightarrow> string" where
  "end_line did ordinal = ''totem_diag end id='' @ fmt_u did @ '' lines='' @ fmt_u ordinal @ '' status=ok''"

definition saved_fault_line :: "totem_fault_record \<Rightarrow> string" where
  "saved_fault_line r =
     ''totem_fault saved kind='' @ fmt_u (fr_kind r) @ '' reason='' @ fmt_u (fr_reason r) @ '' pc='' @ fmt_08x (fr_pc r)
     @ '' lr='' @ fmt_08x (fr_lr r) @ '' thread='' @ fmt_08x (fr_thread r) @ '' at='' @ fmt_u (fr_uptime_ms r)"

text \<open>\<open>snprintk\<close> into a buffer whose length is not checked afterwards keeps the first bytes.\<close>

definition clipped :: "nat \<Rightarrow> string \<Rightarrow> string" where
  "clipped len s = take (len - 1) s"

section \<open>The dump\<close>

definition dump_data :: "totem_config \<Rightarrow> u32 \<Rightarrow> string \<Rightarrow> u32 \<Rightarrow> link \<Rightarrow> int \<times> u32 \<times> link" where
  "dump_data c did detail ordinal w =
     (let line = data_line did ordinal detail in
      if length line \<ge> 120 then (- EMSGSIZE, ordinal, w)
      else let (err, w1) = dump_send c line w in (err, (if err = 0 then ordinal + 1 else ordinal), w1))"

definition dump_event ::
  "totem_config \<Rightarrow> u32 \<Rightarrow> totem_host_event \<Rightarrow> char \<Rightarrow> u8 \<Rightarrow> u32 \<Rightarrow> u32 \<Rightarrow> link \<Rightarrow> int \<times> u32 \<times> link" where
  "dump_event c did e source slot seq ordinal w =
     (let detail = event_detail e source slot seq in
      if length detail \<ge> 90 then (- EMSGSIZE, ordinal, w) else dump_data c did detail ordinal w)"

text \<open>The loop over (sequence number, event) pairs; the first error leaves the dump.\<close>

primrec dump_events ::
  "totem_config \<Rightarrow> u32 \<Rightarrow> char \<Rightarrow> u8 \<Rightarrow> (u32 \<times> totem_host_event) list \<Rightarrow> u32 \<Rightarrow> link \<Rightarrow> int \<times> u32 \<times> link" where
  "dump_events c did source slot [] ordinal w = (0, ordinal, w)"
| "dump_events c did source slot (q # qs) ordinal w =
     (let (err, ordinal1, w1) = dump_event c did (snd q) source slot (fst q) ordinal w
      in if err \<noteq> 0 then (err, ordinal1, w1) else dump_events c did source slot qs ordinal1 w1)"

primrec dump_slots ::
  "totem_config \<Rightarrow> u32 \<Rightarrow> journal \<Rightarrow> nat list \<Rightarrow> u32 \<Rightarrow> link \<Rightarrow> int \<times> u32 \<times> link" where
  "dump_slots c did j [] ordinal w = (0, ordinal, w)"
| "dump_slots c did j (slot # slots) ordinal w =
     (if \<not> restored_valid j ! slot then dump_slots c did j slots ordinal w
      else
        let b = restored_blocks j ! slot; detail = block_detail (of_nat slot) b in
        if length detail \<ge> 90 then (- EMSGSIZE, ordinal, w)
        else
          let (err, ordinal1, w1) = dump_data c did detail ordinal w in
          if err \<noteq> 0 then (err, ordinal1, w1)
          else
            let (err2, ordinal2, w2) = dump_events c did CHR ''p'' (of_nat slot) (block_events b) ordinal1 w1
            in if err2 \<noteq> 0 then (err2, ordinal2, w2) else dump_slots c did j slots ordinal2 w2)"

definition ram_events :: "journal \<Rightarrow> (u32 \<times> totem_host_event) list" where
  "ram_events j = (let es = ring_get_ordered j in
     map (\<lambda>i. (ring_seq j - of_nat (length es) + of_nat i + 1, es ! i)) [0..<length es])"

definition dump_slot_order :: "totem_config \<Rightarrow> journal \<Rightarrow> nat list" where
  "dump_slot_order c j = map (\<lambda>off. (next_slot j + off) mod JOURNAL_SLOTS c) [0..<JOURNAL_SLOTS c]"

definition dump_blocks_count :: "totem_config \<Rightarrow> journal \<Rightarrow> u8" where
  "dump_blocks_count c j =
     fold (\<lambda>slot n. if restored_valid j ! slot then n + 1 else n) [0..<JOURNAL_SLOTS c] 0"

definition dump_persistent_events :: "totem_config \<Rightarrow> journal \<Rightarrow> u32" where
  "dump_persistent_events c j =
     fold (\<lambda>slot n. if restored_valid j ! slot then n + ucast (blk_count (restored_blocks j ! slot)) else n)
       [0..<JOURNAL_SLOTS c] 0"

definition dump_expected :: "totem_config \<Rightarrow> journal \<Rightarrow> u32" where
  "dump_expected c j = ucast (dump_blocks_count c j) + dump_persistent_events c j + of_nat (ring_count j)"

text \<open>Everything after the fault line, on the snapshot \<open>j\<close> taken under the ring's lock.\<close>

definition dump_journal :: "totem_config \<Rightarrow> u32 \<Rightarrow> journal \<Rightarrow> link \<Rightarrow> link" where
  "dump_journal c did j w =
     (let line = begin_line did (dump_expected c j) (dump_blocks_count c j) (dump_persistent_events c j)
                   (of_nat (ring_count j)) (ring_seq j) in
      if length line \<ge> 120 then w
      else
        let (err, w1) = dump_send c line w in
        if err \<noteq> 0 then w1
        else
          let (err2, ordinal2, w2) = dump_slots c did j (dump_slot_order c j) 0 w1 in
          if err2 \<noteq> 0 then w2
          else
            let (err3, ordinal, w3) = dump_events c did CHR ''r'' 0 (ram_events j) ordinal2 w2 in
            if err3 \<noteq> 0 then w3
            else if ordinal = dump_expected c j \<and> length (end_line did ordinal) < 120
            then snd (dump_send c (end_line did ordinal) w3) else w3)"

definition totem_host_event_log_dump ::
  "totem_config \<Rightarrow> u32 \<Rightarrow> boot_diag \<Rightarrow> fault_state \<Rightarrow> journal \<Rightarrow> link \<Rightarrow> link" where
  "totem_host_event_log_dump c did bd fs j w =
     (let (err, w1) = dump_send c (clipped 120 (totem_boot_diagnostics_format False bd)) w in
      if err \<noteq> 0 then w1
      else
        let (err2, w2) = dump_send c (clipped 120 (totem_boot_diagnostics_format True bd)) w1 in
        if err2 \<noteq> 0 then w2
        else if CONFIG_TOTEM_FAULT_CAPTURE c \<and> fr_kind (last_fault fs) \<noteq> fault_kind_num TOTEM_FAULT_NONE
        then
          let (err3, w3) = dump_send c (clipped 120 (saved_fault_line (last_fault fs))) w2
          in if err3 \<noteq> 0 then w3 else dump_journal c did j w3
        else dump_journal c did j w2)"

section \<open>What is sent\<close>

text \<open>
  The abstract dump: a list of details, numbered consecutively. A dumping operation
  \<^emph>\<open>emits\<close> a list of details if it sends a prefix of their numbered lines, advances the ordinal by
  the length of that prefix, and reports success exactly when the prefix is everything; and if
  the link is patient enough (it accepts each of the lines within 40 attempts), it succeeds.
\<close>

primrec numbered :: "u32 \<Rightarrow> u32 \<Rightarrow> string list \<Rightarrow> string list" where
  "numbered did ordinal [] = []"
| "numbered did ordinal (d # ds) = data_line did ordinal d # numbered did (ordinal + 1) ds"

fun patient :: "nat \<Rightarrow> nat \<Rightarrow> (bool \<times> int) list \<Rightarrow> bool" where
  "patient 0 budget as = True"
| "patient (Suc k) budget [] = False"
| "patient (Suc k) budget (a # as) =
     (if a = (True, 0) then patient k 40 as
      else (\<not> fst a \<or> snd a = - EAGAIN) \<and> 1 < budget \<and> patient (Suc k) (budget - 1) as)"

definition link_patient :: "totem_config \<Rightarrow> nat \<Rightarrow> link \<Rightarrow> bool" where
  "link_patient c k w \<longleftrightarrow> \<not> CONFIG_TOTEM_STUDIO_CONSOLE c \<or> patient k 40 (answers w)"

definition emits ::
  "totem_config \<Rightarrow> u32 \<Rightarrow> (u32 \<Rightarrow> link \<Rightarrow> int \<times> u32 \<times> link) \<Rightarrow> string list \<Rightarrow> bool" where
  "emits c did f ds \<longleftrightarrow> (\<forall>ordinal w err ordinal' w'. f ordinal w = (err, ordinal', w') \<longrightarrow>
     (\<exists>n \<le> length ds. sent w' = sent w @ take n (numbered did ordinal ds) \<and> ordinal' = ordinal + of_nat n
        \<and> (err = 0 \<longleftrightarrow> n = length ds))
   \<and> (\<forall>k. link_patient c (length ds + k) w \<longrightarrow> err = 0 \<and> link_patient c k w'))"

lemma length_numbered [simp]: "length (numbered did ordinal ds) = length ds"
  by (induction ds arbitrary: ordinal) simp_all

lemma numbered_append:
  "numbered did ordinal (ds @ es) = numbered did ordinal ds @ numbered did (ordinal + of_nat (length ds)) es"
  by (induction ds arbitrary: ordinal) (simp_all add: algebra_simps)

lemma send_attempts_sent:
  assumes "send_attempts n line w = (err, w')" and "line \<noteq> []"
  shows "sent w' = sent w @ (if err = 0 then [line] else [])"
  using assms
proof (induction n arbitrary: w)
  case 0
  then show ?case by auto
next
  case (Suc n)
  obtain e w1 where s: "totem_studio_send_diag_line line w = (e, w1)" by (metis prod.exhaust)
  then have w1: "sent w1 = sent w @ (if e = 0 then [line] else [])"
    using Suc.prems(2) by (auto simp: totem_studio_send_diag_line_def split: list.splits prod.splits if_splits)
  show ?case
  proof (cases "e = - EAGAIN")
    case True
    with Suc.prems s have "send_attempts n line w1 = (err, w')" by simp
    with Suc.IH Suc.prems(2) w1 True show ?thesis by simp
  next
    case False
    with Suc.prems s w1 show ?thesis by auto
  qed
qed

lemma send_attempts_patient:
  assumes "patient (Suc k) n (answers w)" and "0 < n" and "line \<noteq> []"
  shows "\<exists>w'. send_attempts n line w = (0, w') \<and> patient k 40 (answers w')"
  using assms
proof (induction n arbitrary: w)
  case 0
  then show ?case by simp
next
  case (Suc n)
  from Suc.prems(1) obtain r e as where a: "answers w = (r, e) # as" by (cases "answers w") auto
  show ?case
  proof (cases "(r, e) = (True, 0)")
    case True
    with a Suc.prems show ?thesis by (simp add: totem_studio_send_diag_line_def)
  next
    case False
    with a Suc.prems(1) have busy: "\<not> r \<or> e = - 11" "0 < n" "patient (Suc k) n as" by (auto split: if_splits)
    then have "totem_studio_send_diag_line line w = (- 11, w\<lparr>answers := as\<rparr>)"
      using a Suc.prems(3) by (auto simp: totem_studio_send_diag_line_def)
    with Suc.IH [of "w\<lparr>answers := as\<rparr>"] busy Suc.prems(3) show ?thesis by simp
  qed
qed

lemma dump_send_sent:
  assumes "dump_send c line w = (err, w')" and "line \<noteq> []"
  shows "sent w' = sent w @ (if err = 0 then [line] else [])"
  using assms send_attempts_sent [of 40 line w err w'] by (auto simp: dump_send_def split: if_splits)

lemma dump_send_patient:
  assumes "dump_send c line w = (err, w')" and "line \<noteq> []" and "link_patient c (Suc k) w"
  shows "err = 0 \<and> link_patient c k w'"
  using assms send_attempts_patient [of k 40 w line]
  by (auto simp: dump_send_def link_patient_def split: if_splits)

lemma emitsI:
  assumes "\<And>ordinal w err ordinal' w'. f ordinal w = (err, ordinal', w') \<Longrightarrow>
      \<exists>n \<le> length ds. sent w' = sent w @ take n (numbered did ordinal ds) \<and> ordinal' = ordinal + of_nat n
        \<and> (err = 0 \<longleftrightarrow> n = length ds)"
    and "\<And>ordinal w err ordinal' w' k. f ordinal w = (err, ordinal', w') \<Longrightarrow> link_patient c (length ds + k) w \<Longrightarrow>
      err = 0 \<and> link_patient c k w'"
  shows "emits c did f ds"
  using assms by (fastforce simp: emits_def)

lemma emitsE:
  assumes "emits c did f ds" and "f ordinal w = (err, ordinal', w')"
  obtains n where "n \<le> length ds" "sent w' = sent w @ take n (numbered did ordinal ds)"
    "ordinal' = ordinal + of_nat n" "err = 0 \<longleftrightarrow> n = length ds"
    "\<And>k. link_patient c (length ds + k) w \<Longrightarrow> err = 0 \<and> link_patient c k w'"
  using assms unfolding emits_def by blast

lemma emits_nil: "emits c did (\<lambda>ordinal w. (0, ordinal, w)) []"
  by (rule emitsI) simp_all

lemma emits_seq:
  assumes f: "emits c did f ds" and g: "emits c did g es"
  shows "emits c did (\<lambda>ordinal w. let (err, ordinal1, w1) = f ordinal w
           in if err \<noteq> 0 then (err, ordinal1, w1) else g ordinal1 w1) (ds @ es)"
proof (rule emitsI)
  fix ordinal w err ordinal' w'
  assume run: "(let (err, ordinal1, w1) = f ordinal w
     in if err \<noteq> 0 then (err, ordinal1, w1) else g ordinal1 w1) = (err, ordinal', w')"
  obtain e1 o1 w1 where f1: "f ordinal w = (e1, o1, w1)" by (metis prod.exhaust)
  from emitsE [OF f f1] obtain n where n: "n \<le> length ds" "sent w1 = sent w @ take n (numbered did ordinal ds)"
    "o1 = ordinal + of_nat n" "e1 = 0 \<longleftrightarrow> n = length ds" by metis
  show "\<exists>n \<le> length (ds @ es). sent w' = sent w @ take n (numbered did ordinal (ds @ es))
     \<and> ordinal' = ordinal + of_nat n \<and> (err = 0 \<longleftrightarrow> n = length (ds @ es))"
  proof (cases "e1 = 0")
    case True
    with run f1 have g1: "g o1 w1 = (err, ordinal', w')" by simp
    from emitsE [OF g g1] obtain m where "m \<le> length es" "sent w' = sent w1 @ take m (numbered did o1 es)"
      "ordinal' = o1 + of_nat m" "err = 0 \<longleftrightarrow> m = length es" by metis
    with n True show ?thesis
      by (intro exI [of _ "length ds + m"]) (simp add: numbered_append)
  next
    case False
    with run f1 n show ?thesis
      by (intro exI [of _ n]) (auto simp: numbered_append)
  qed
  fix k
  assume "link_patient c (length (ds @ es) + k) w"
  then have "e1 = 0" "link_patient c (length es + k) w1"
    using emitsE [OF f f1] by (metis add.assoc length_append)+
  moreover from this run f1 have "g o1 w1 = (err, ordinal', w')" by simp
  ultimately show "err = 0 \<and> link_patient c k w'" using emitsE [OF g] by metis
qed

subsection \<open>Line lengths\<close>

lemma event_detail_length: "length (event_detail e source slot seq) \<le> 72"
  using length_fmt_u8 [of slot] length_fmt_u32 [of seq] length_fmt_u32 [of "uptime_ms e"] length_fmt_u8 [of "ev_type e"]
    length_fmt_d8 [of "ev_idx e"] length_fmt_d8 [of "ev_active e"] length_fmt_u8 [of "ev_reason e"]
    length_fmt_u8 [of "ev_thrash_win e"] length_fmt_u8 [of "ev_extra e"]
  by (simp add: event_detail_def)

lemma block_detail_length: "length (block_detail slot b) \<le> 47"
  using length_fmt_u8 [of slot] length_fmt_u32 [of "blk_journal_seq b"] length_fmt_u32 [of "blk_first_event_seq b"]
    length_fmt_u8 [of "blk_count b"]
  by (simp add: block_detail_def)

lemma data_line_length: "length d \<le> 72 \<Longrightarrow> length (data_line did ordinal d) < 120"
  using length_fmt_u32 [of did] length_fmt_u32 [of ordinal] by (simp add: data_line_def)

lemma begin_line_length: "length (begin_line did e b p n q) < 120"
  using length_fmt_u32 [of did] length_fmt_u32 [of e] length_fmt_u8 [of b] length_fmt_u32 [of p] length_fmt_u16 [of n]
    length_fmt_u32 [of q]
  by (simp add: begin_line_def)

lemma end_line_length: "length (end_line did n) < 120"
  using length_fmt_u32 [of did] length_fmt_u32 [of n] by (simp add: end_line_def)

lemma end_line_nonempty: "end_line did n \<noteq> []"
  by (simp add: end_line_def)

lemma saved_fault_line_length: "length (saved_fault_line r) < 120"
  using length_fmt_u8 [of "fr_kind r"] length_fmt_u16 [of "fr_reason r"] length_fmt_u32 [of "fr_uptime_ms r"]
  by (simp add: saved_fault_line_def)

lemma boot_format_length:
  assumes "- (2 ^ 31) \<le> reset_read_result bd" and "reset_read_result bd < 2 ^ 31"
  shows "length (totem_boot_diagnostics_format previous bd) < 120"
  using length_fmt_u32 [of "saved_previous_uptime bd"] length_fmt_d8 [of "saved_previous_profile bd"]
    length_fmt_d8 [of "saved_previous_endpoint bd"] length_fmt_u32 [of "boot_counter_count bd"]
    length_fmt_u8 [of "raw_available bd"] length_fmt_d32 [OF assms] length_fmt_u8 [of "ram_survived bd"]
    length_fmt_u8 [of "fault_status bd"] length_fmt_u8 [of "counter_status bd"]
  by (simp add: totem_boot_diagnostics_format_def)

lemma clipped_short: "length s < n \<Longrightarrow> clipped n s = s"
  by (simp add: clipped_def)

subsection \<open>The operations emit their details\<close>

lemma dump_data_emits: "length d \<le> 72 \<Longrightarrow> emits c did (dump_data c did d) [d]"
proof (rule emitsI)
  fix ordinal w err ordinal' w'
  assume len: "length d \<le> 72" and run: "dump_data c did d ordinal w = (err, ordinal', w')"
  obtain e w1 where s: "dump_send c (data_line did ordinal d) w = (e, w1)" by (metis prod.exhaust)
  have ne: "data_line did ordinal d \<noteq> []" by (simp add: data_line_def)
  from run s data_line_length [OF len, of did ordinal]
  have r: "err = e" "w' = w1" "ordinal' = (if e = 0 then ordinal + 1 else ordinal)"
    by (auto simp: dump_data_def)
  show "\<exists>n \<le> length [d]. sent w' = sent w @ take n (numbered did ordinal [d])
      \<and> ordinal' = ordinal + of_nat n \<and> (err = 0 \<longleftrightarrow> n = length [d])"
    using dump_send_sent [OF s ne] r by (intro exI [of _ "if e = 0 then 1 else 0"]) simp
  show "err = 0 \<and> link_patient c k w'" if "link_patient c (length [d] + k) w" for k
    using dump_send_patient [OF s ne, of k] r that by simp
qed

lemma dump_event_emits: "emits c did (dump_event c did e source slot seq) [event_detail e source slot seq]"
proof -
  have "dump_event c did e source slot seq = dump_data c did (event_detail e source slot seq)"
    using event_detail_length [of e source slot seq] by (intro ext) (simp add: dump_event_def)
  then show ?thesis using dump_data_emits [OF event_detail_length] by simp
qed

lemma dump_events_emits:
  "emits c did (dump_events c did source slot qs) (map (\<lambda>q. event_detail (snd q) source slot (fst q)) qs)"
proof (induction qs)
  case Nil
  have "dump_events c did source slot [] = (\<lambda>ordinal w. (0, ordinal, w))" by (intro ext) simp
  then show ?case using emits_nil by simp
next
  case (Cons q qs)
  have "dump_events c did source slot (q # qs) = (\<lambda>ordinal w.
      let (err, ordinal1, w1) = dump_event c did (snd q) source slot (fst q) ordinal w
      in if err \<noteq> 0 then (err, ordinal1, w1) else dump_events c did source slot qs ordinal1 w1)"
    by (intro ext) simp
  with emits_seq [OF dump_event_emits Cons.IH] show ?case by simp
qed

definition slot_details :: "journal \<Rightarrow> nat \<Rightarrow> string list" where
  "slot_details j slot = (if restored_valid j ! slot
     then block_detail (of_nat slot) (restored_blocks j ! slot)
        # map (\<lambda>q. event_detail (snd q) CHR ''p'' (of_nat slot) (fst q)) (block_events (restored_blocks j ! slot))
     else [])"

lemma dump_slots_emits: "emits c did (dump_slots c did j slots) (concat (map (slot_details j) slots))"
proof (induction slots)
  case Nil
  have "dump_slots c did j [] = (\<lambda>ordinal w. (0, ordinal, w))" by (intro ext) simp
  then show ?case using emits_nil by simp
next
  case (Cons slot slots)
  let ?b = "restored_blocks j ! slot"
  show ?case
  proof (cases "restored_valid j ! slot")
    case False
    then have "dump_slots c did j (slot # slots) = dump_slots c did j slots" by (intro ext) simp
    with Cons.IH False show ?thesis by (simp add: slot_details_def)
  next
    case True
    have len: "length (block_detail (of_nat slot) ?b) \<le> 72" "\<not> length (block_detail (of_nat slot) ?b) \<ge> 90"
      using block_detail_length [of "of_nat slot" ?b] by linarith+
    have eq: "dump_slots c did j (slot # slots) = (\<lambda>ordinal w.
        let (err, ordinal1, w1) = dump_data c did (block_detail (of_nat slot) ?b) ordinal w
        in if err \<noteq> 0 then (err, ordinal1, w1) else
           (\<lambda>ordinal w. let (err, ordinal1, w1) = dump_events c did CHR ''p'' (of_nat slot) (block_events ?b) ordinal w
            in if err \<noteq> 0 then (err, ordinal1, w1) else dump_slots c did j slots ordinal1 w1) ordinal1 w1)"
      using True len by (intro ext) (simp add: Let_def)
    show ?thesis
      unfolding eq using True emits_seq [OF dump_data_emits [OF len(1)] emits_seq [OF dump_events_emits Cons.IH]]
      by (simp add: slot_details_def)
  qed
qed

subsection \<open>The announced number of lines\<close>

lemma fold_add_if:
  "fold (\<lambda>x n. if P x then n + g x else n) xs (a :: 'a::len word) = a + (\<Sum>x\<leftarrow>xs. if P x then g x else 0)"
  by (induction xs arbitrary: a) (simp_all add: algebra_simps)

lemma rotation_set:
  fixes n :: nat
  assumes "0 < n"
  shows "distinct (map (\<lambda>off. (a + off) mod n) [0..<n])" "set (map (\<lambda>off. (a + off) mod n) [0..<n]) = {..<n}"
proof -
  have inj: "inj_on (\<lambda>off. (a + off) mod n) {0..<n}"
    by (rule inj_onI) (metis atLeastLessThan_iff linorder_neqE_nat mod_shift_neq)
  then show "distinct (map (\<lambda>off. (a + off) mod n) [0..<n])" by (simp add: distinct_map)
  have "card ((\<lambda>off. (a + off) mod n) ` {0..<n}) = n" using inj by (simp add: card_image)
  then show "set (map (\<lambda>off. (a + off) mod n) [0..<n]) = {..<n}"
    using assms by (simp add: card_subset_eq image_subset_iff)
qed

definition dump_details :: "totem_config \<Rightarrow> journal \<Rightarrow> string list" where
  "dump_details c j = concat (map (slot_details j) (dump_slot_order c j))
     @ map (\<lambda>q. event_detail (snd q) CHR ''r'' 0 (fst q)) (ram_events j)"

lemma length_slot_details:
  "length (slot_details j slot) = (if restored_valid j ! slot then 1 + unat (blk_count (restored_blocks j ! slot)) else 0)"
  by (simp add: slot_details_def block_events_def)

lemma length_ram_events [simp]: "length (ram_events j) = ring_count j"
  by (simp add: ram_events_def ring_get_ordered_def Let_def)

text \<open>At most 8 blocks of at most 255 events: the counts of the header do not wrap.\<close>

lemma dump_line_count:
  assumes "kconfig_ok c"
  shows "length (dump_details c j) = unat (dump_blocks_count c j) + unat (dump_persistent_events c j) + ring_count j"
    and "unat (dump_blocks_count c j) \<le> 8" and "unat (dump_persistent_events c j) \<le> 8 * 255"
proof -
  let ?S = "JOURNAL_SLOTS c" and ?v = "\<lambda>k. restored_valid j ! k"
  let ?B = "\<Sum>k<?S. if ?v k then 1 else (0::nat)"
  let ?P = "\<Sum>k<?S. if ?v k then unat (blk_count (restored_blocks j ! k)) else 0"
  have S: "0 < ?S" "?S \<le> 8" using assms by (simp_all add: kconfig_ok_def)
  have "?B \<le> (\<Sum>k<?S. 1)" by (intro sum_mono) simp
  with S have B: "?B \<le> 8" by simp
  have byte: "unat b \<le> 255" for b :: u8 using unat_word_bound [of b] by simp
  have "?P \<le> (\<Sum>k<?S. 255)" by (intro sum_mono) (simp add: byte)
  with S have P: "?P \<le> 8 * 255" by simp
  have "dump_blocks_count c j = of_nat ?B"
    unfolding dump_blocks_count_def
    by (simp add: fold_add_if sum_list_distinct_conv_sum_set lessThan_atLeast0 of_nat_sum if_distrib cong: if_cong)
  moreover have "unat (of_nat ?B :: u8) = ?B" by (rule unat_of_nat_small) (rule le_less_trans [OF B], simp)
  ultimately have b: "unat (dump_blocks_count c j) = ?B" by (simp only:)
  have "dump_persistent_events c j = (\<Sum>k<?S. if ?v k then of_nat (unat (blk_count (restored_blocks j ! k))) else 0)"
    unfolding dump_persistent_events_def
    by (simp add: fold_add_if sum_list_distinct_conv_sum_set lessThan_atLeast0) (simp only: of_nat_unat)
  then have "dump_persistent_events c j = of_nat ?P" by (simp add: of_nat_sum if_distrib cong: if_cong)
  moreover have "unat (of_nat ?P :: u32) = ?P" by (rule unat_of_nat_small) (rule le_less_trans [OF P], simp)
  ultimately have p: "unat (dump_persistent_events c j) = ?P" by (simp only:)
  have "length (dump_details c j) = (\<Sum>k<?S. length (slot_details j k)) + ring_count j"
    using sum_list_distinct_conv_sum_set [OF rotation_set(1) [OF S(1), of "next_slot j"], of "length \<circ> slot_details j"]
      rotation_set(2) [OF S(1), of "next_slot j"]
    by (simp add: dump_details_def length_concat dump_slot_order_def comp_def)
  also have "(\<Sum>k<?S. length (slot_details j k)) = ?B + ?P"
    by (simp add: length_slot_details sum.distrib [symmetric] if_distrib cong: if_cong sum.cong)
  finally show "length (dump_details c j) = unat (dump_blocks_count c j) + unat (dump_persistent_events c j) + ring_count j"
    by (simp add: b p)
  show "unat (dump_blocks_count c j) \<le> 8" "unat (dump_persistent_events c j) \<le> 8 * 255" using B P b p by simp_all
qed

lemma dump_expected_lines:
  assumes "kconfig_ok c"
  shows "dump_expected c j = of_nat (length (dump_details c j))"
  by (simp add: dump_expected_def dump_line_count(1) [OF assms] unsigned_ucast_eq) 

subsection \<open>The whole dump\<close>

definition delivers :: "totem_config \<Rightarrow> (link \<Rightarrow> link) \<Rightarrow> string list \<Rightarrow> bool" where
  "delivers c f ls \<longleftrightarrow> (\<forall>w. \<exists>n \<le> length ls. sent (f w) = sent w @ take n ls
     \<and> (link_patient c (length ls) w \<longrightarrow> n = length ls))"

lemma delivers_last: "line \<noteq> [] \<Longrightarrow> delivers c (\<lambda>w. snd (dump_send c line w)) [line]"
  unfolding delivers_def
proof
  fix w
  assume ne: "line \<noteq> []"
  obtain e w1 where s: "dump_send c line w = (e, w1)" by (metis prod.exhaust)
  show "\<exists>n \<le> length [line]. sent (snd (dump_send c line w)) = sent w @ take n [line]
      \<and> (link_patient c (length [line]) w \<longrightarrow> n = length [line])"
    using dump_send_sent [OF s ne] dump_send_patient [OF s ne, of 0] s
    by (intro exI [of _ "if e = 0 then 1 else 0"]) auto
qed

lemma delivers_send:
  assumes g: "delivers c g ls" and ne: "line \<noteq> []"
  shows "delivers c (\<lambda>w. let (err, w1) = dump_send c line w in if err \<noteq> 0 then w1 else g w1) (line # ls)"
  unfolding delivers_def
proof
  fix w
  obtain e w1 where s: "dump_send c line w = (e, w1)" by (metis prod.exhaust)
  note sent1 = dump_send_sent [OF s ne] and pat = dump_send_patient [OF s ne]
  from g obtain m where m: "m \<le> length ls" "sent (g w1) = sent w1 @ take m ls"
    "link_patient c (length ls) w1 \<longrightarrow> m = length ls" unfolding delivers_def by blast
  show "\<exists>n \<le> length (line # ls). sent (let (err, w1) = dump_send c line w in if err \<noteq> 0 then w1 else g w1)
      = sent w @ take n (line # ls) \<and> (link_patient c (length (line # ls)) w \<longrightarrow> n = length (line # ls))"
    using m sent1 pat [of "length ls"] s by (intro exI [of _ "if e = 0 then Suc m else 0"]) auto
qed

lemma delivers_emits:
  assumes f: "emits c did f ds" and g: "delivers c (g (o0 + of_nat (length ds))) ls"
  shows "delivers c (\<lambda>w. let (err, ordinal, w1) = f o0 w in if err \<noteq> 0 then w1 else g ordinal w1)
     (numbered did o0 ds @ ls)"
  unfolding delivers_def
proof
  fix w
  obtain e o1 w1 where f1: "f o0 w = (e, o1, w1)" by (metis prod.exhaust)
  from emitsE [OF f f1] obtain n where n: "n \<le> length ds" "sent w1 = sent w @ take n (numbered did o0 ds)"
    "o1 = o0 + of_nat n" "e = 0 \<longleftrightarrow> n = length ds"
    "\<And>k. link_patient c (length ds + k) w \<Longrightarrow> e = 0 \<and> link_patient c k w1" by metis
  from g obtain m where m: "m \<le> length ls" "sent (g (o0 + of_nat (length ds)) w1) = sent w1 @ take m ls"
    "link_patient c (length ls) w1 \<longrightarrow> m = length ls" unfolding delivers_def by blast
  show "\<exists>n \<le> length (numbered did o0 ds @ ls).
      sent (let (err, ordinal, w1) = f o0 w in if err \<noteq> 0 then w1 else g ordinal w1)
        = sent w @ take n (numbered did o0 ds @ ls)
      \<and> (link_patient c (length (numbered did o0 ds @ ls)) w \<longrightarrow> n = length (numbered did o0 ds @ ls))"
  proof (cases "e = 0")
    case True
    then have "n = length ds" using n(4) by simp
    with True n m f1 show ?thesis by (intro exI [of _ "length ds + m"]) auto
  next
    case False
    with n f1 show ?thesis by (intro exI [of _ n]) auto
  qed
qed

definition dump_script ::
  "totem_config \<Rightarrow> u32 \<Rightarrow> boot_diag \<Rightarrow> fault_state \<Rightarrow> journal \<Rightarrow> string list" where
  "dump_script c did bd fs j =
     [totem_boot_diagnostics_format False bd, totem_boot_diagnostics_format True bd]
     @ (if CONFIG_TOTEM_FAULT_CAPTURE c \<and> fr_kind (last_fault fs) \<noteq> 0 then [saved_fault_line (last_fault fs)] else [])
     @ [begin_line did (dump_expected c j) (dump_blocks_count c j) (dump_persistent_events c j)
          (of_nat (ring_count j)) (ring_seq j)]
     @ numbered did 0 (dump_details c j)
     @ [end_line did (of_nat (length (dump_details c j)))]"

lemma dump_journal_delivers:
  assumes "kconfig_ok c"
  shows "delivers c (dump_journal c did j)
     (begin_line did (dump_expected c j) (dump_blocks_count c j) (dump_persistent_events c j)
          (of_nat (ring_count j)) (ring_seq j)
      # numbered did 0 (dump_details c j) @ [end_line did (of_nat (length (dump_details c j)))])"
proof -
  let ?bs = "concat (map (slot_details j) (dump_slot_order c j))"
  let ?rs = "map (\<lambda>q. event_detail (snd q) CHR ''r'' 0 (fst q)) (ram_events j)"
  let ?hdr = "begin_line did (dump_expected c j) (dump_blocks_count c j) (dump_persistent_events c j)
          (of_nat (ring_count j)) (ring_seq j)"
  have N: "dump_expected c j = of_nat (length ?bs) + of_nat (length ?rs)"
    using dump_expected_lines [OF assms, of j] by (simp add: dump_details_def)
  let ?fin = "\<lambda>ordinal w. if ordinal = dump_expected c j \<and> length (end_line did ordinal) < 120
            then snd (dump_send c (end_line did ordinal) w) else w"
  have last: "delivers c (?fin (of_nat (length ?bs) + of_nat (length ?rs)))
      [end_line did (of_nat (length (dump_details c j)))]"
    unfolding N [symmetric] dump_expected_lines [OF assms, symmetric]
    using delivers_last [OF end_line_nonempty] by (simp add: end_line_length)
  let ?ram = "\<lambda>ordinal w. let (err3, ordinal, w3) = dump_events c did CHR ''r'' 0 (ram_events j) ordinal w
      in if err3 \<noteq> 0 then w3 else ?fin ordinal w3"
  have ram: "delivers c (?ram (0 + of_nat (length ?bs)))
      (numbered did (of_nat (length ?bs)) ?rs @ [end_line did (of_nat (length (dump_details c j)))])"
    using delivers_emits [where g = ?fin, OF dump_events_emits last] by simp
  have body: "delivers c (\<lambda>w. let (err2, ordinal2, w2) = dump_slots c did j (dump_slot_order c j) 0 w
      in if err2 \<noteq> 0 then w2 else ?ram ordinal2 w2)
      (numbered did 0 (dump_details c j) @ [end_line did (of_nat (length (dump_details c j)))])"
    using delivers_emits [where g = ?ram, OF dump_slots_emits ram] by (simp add: dump_details_def numbered_append)
  have eq: "dump_journal c did j = (\<lambda>w. let (err, w1) = dump_send c ?hdr w in if err \<noteq> 0 then w1
      else (\<lambda>w. let (err2, ordinal2, w2) = dump_slots c did j (dump_slot_order c j) 0 w
      in if err2 \<noteq> 0 then w2 else ?ram ordinal2 w2) w1)"
    using begin_line_length [of did "dump_expected c j" "dump_blocks_count c j" "dump_persistent_events c j"
        "of_nat (ring_count j)" "ring_seq j"]
    by (intro ext) (simp add: dump_journal_def)
  show ?thesis unfolding eq by (rule delivers_send [OF body]) (simp add: begin_line_def)
qed

lemma dump_delivers:
  assumes "kconfig_ok c" and "- (2 ^ 31) \<le> reset_read_result bd" and "reset_read_result bd < 2 ^ 31"
  shows "delivers c (totem_host_event_log_dump c did bd fs j) (dump_script c did bd fs j)"
proof -
  note clip = clipped_short [OF boot_format_length [OF assms(2,3)]] clipped_short [OF saved_fault_line_length]
  note J = dump_journal_delivers [OF assms(1), of did j]
  have ne: "totem_boot_diagnostics_format previous bd \<noteq> []" "saved_fault_line r \<noteq> []" for previous r
    by (simp_all add: totem_boot_diagnostics_format_def saved_fault_line_def)
  show ?thesis
  proof (cases "CONFIG_TOTEM_FAULT_CAPTURE c \<and> fr_kind (last_fault fs) \<noteq> 0")
    case True
    have eq: "totem_host_event_log_dump c did bd fs j = (\<lambda>w.
        let (err, w1) = dump_send c (totem_boot_diagnostics_format False bd) w in if err \<noteq> 0 then w1 else
        let (err, w1) = dump_send c (totem_boot_diagnostics_format True bd) w1 in if err \<noteq> 0 then w1 else
        let (err, w1) = dump_send c (saved_fault_line (last_fault fs)) w1 in if err \<noteq> 0 then w1 else
        dump_journal c did j w1)"
      by (intro ext) (simp only: totem_host_event_log_dump_def clip fault_kind_num.simps if_P [OF True])
    show ?thesis unfolding eq
      using delivers_send [OF delivers_send [OF delivers_send [OF J ne(2) [of "last_fault fs"]]
            ne(1) [of True]] ne(1) [of False]] True
      by (simp add: dump_script_def)
  next
    case False
    have eq: "totem_host_event_log_dump c did bd fs j = (\<lambda>w.
        let (err, w1) = dump_send c (totem_boot_diagnostics_format False bd) w in if err \<noteq> 0 then w1 else
        let (err, w1) = dump_send c (totem_boot_diagnostics_format True bd) w1 in if err \<noteq> 0 then w1 else
        dump_journal c did j w1)"
      by (intro ext) (simp only: totem_host_event_log_dump_def clip fault_kind_num.simps if_not_P [OF False])
    show ?thesis unfolding eq
      using delivers_send [OF delivers_send [OF J ne(1) [of True]] ne(1) [of False]] False
      by (auto simp: dump_script_def)
  qed
qed

lemma end_line_not_numbered: "end_line did k \<notin> set (numbered did' ordinal ds)"
  by (induction ds arbitrary: ordinal) (simp_all add: end_line_def data_line_def)

lemma script_split:
  obtains body where "dump_script c did bd fs j = body @ [end_line did (of_nat (length (dump_details c j)))]"
    and "end_line did (of_nat (length (dump_details c j))) \<notin> set body"
proof -
  let ?e = "end_line did (of_nat (length (dump_details c j)))"
  have "?e \<noteq> totem_boot_diagnostics_format p bd" "?e \<noteq> saved_fault_line r" "?e \<noteq> begin_line did a b q n m"
    for p r a b q n m
    by (simp_all add: end_line_def totem_boot_diagnostics_format_def saved_fault_line_def begin_line_def)
  then have "dump_script c did bd fs j = butlast (dump_script c did bd fs j) @ [?e]"
    "?e \<notin> set (butlast (dump_script c did bd fs j))"
    by (simp_all add: dump_script_def butlast_append end_line_not_numbered)
  then show ?thesis by (rule that)
qed

lemma details_short: "d \<in> set (dump_details c j) \<Longrightarrow> length d \<le> 72"
  using event_detail_length block_detail_length
  by (fastforce simp: dump_details_def slot_details_def split: if_splits intro: le_trans)

lemma numbered_short: "\<forall>d \<in> set ds. length d \<le> 72 \<Longrightarrow> l \<in> set (numbered did ordinal ds) \<Longrightarrow> length l < 120"
  by (induction ds arbitrary: ordinal) (auto simp: data_line_length)

section \<open>Properties\<close>

text \<open>
  A receiver can trust the end marker: whatever the link answers, the lines it accepts are a
  prefix of the complete dump (boot lines, saved fault, header, every stored block with its events,
  every event of the ring, consecutively numbered, end marker), and the end marker is among them
  exactly when that prefix is the complete dump.
\<close>

theorem dump_end_marker_sound:
  assumes "kconfig_ok c" and "- (2 ^ 31) \<le> reset_read_result bd" and "reset_read_result bd < 2 ^ 31"
  shows "\<exists>n \<le> length (dump_script c did bd fs j).
      sent (totem_host_event_log_dump c did bd fs j w) = sent w @ take n (dump_script c did bd fs j)
    \<and> (end_line did (of_nat (length (dump_details c j))) \<in> set (take n (dump_script c did bd fs j))
         \<longleftrightarrow> n = length (dump_script c did bd fs j))"
proof -
  let ?S = "dump_script c did bd fs j" and ?e = "end_line did (of_nat (length (dump_details c j)))"
  obtain body where body: "?S = body @ [?e]" "?e \<notin> set body" by (rule script_split)
  from dump_delivers [OF assms, of did fs j] obtain n where n: "n \<le> length ?S"
    "sent (totem_host_event_log_dump c did bd fs j w) = sent w @ take n ?S" unfolding delivers_def by blast
  have "?e \<in> set (take n ?S) \<longleftrightarrow> n = length ?S"
  proof (cases "n = length ?S")
    case True
    then show ?thesis using body(1) by simp
  next
    case False
    with n(1) body(1) have "n \<le> length body" by simp
    then have "take n ?S = take n body" by (simp add: body(1))
    with body(2) have "?e \<notin> set (take n ?S)" by (metis in_set_takeD)
    with False show ?thesis by simp
  qed
  with n show ?thesis by blast
qed

definition demo_dump_link :: link where
  "demo_dump_link = \<lparr>answers = replicate 3 (True, 0), sent = []\<rparr>"

theorem dump_end_marker_sound_witness:
  "\<exists>n \<le> length (dump_script minimal_config 9 (boot_diag_init 0 0) \<lparr>fault_rec = zero_fault, last_fault = zero_fault\<rparr>
        (journal_boot minimal_config)).
     sent (totem_host_event_log_dump minimal_config 9 (boot_diag_init 0 0)
        \<lparr>fault_rec = zero_fault, last_fault = zero_fault\<rparr> (journal_boot minimal_config) demo_dump_link)
     = take n (dump_script minimal_config 9 (boot_diag_init 0 0) \<lparr>fault_rec = zero_fault, last_fault = zero_fault\<rparr>
        (journal_boot minimal_config))"
proof -
  have r: "- (2 ^ 31) \<le> reset_read_result (boot_diag_init 0 0)" "reset_read_result (boot_diag_init 0 0) < 2 ^ 31"
    by (simp_all add: boot_diag_init_def)
  have "sent demo_dump_link = []" by (simp add: demo_dump_link_def)
  with dump_end_marker_sound [OF kconfig_ok_minimal r, of 9 "\<lparr>fault_rec = zero_fault, last_fault = zero_fault\<rparr>"
      "journal_boot minimal_config" demo_dump_link] show ?thesis by auto
qed

text \<open>
  A patient link gets everything: if every line is accepted within the 40 attempts the
  sender makes (the link may answer ``busy'' up to 39 times before each line), the complete dump
  with its end marker is delivered.
\<close>

theorem dump_completes:
  assumes "kconfig_ok c" and "- (2 ^ 31) \<le> reset_read_result bd" and "reset_read_result bd < 2 ^ 31"
    and "link_patient c (length (dump_script c did bd fs j)) w"
  shows "sent (totem_host_event_log_dump c did bd fs j w) = sent w @ dump_script c did bd fs j"
  using dump_delivers [OF assms(1-3), of did fs j] assms(4) unfolding delivers_def by fastforce

lemma length_script:
  "length (dump_script c did bd fs j) = 4 + length (dump_details c j)
     + (if CONFIG_TOTEM_FAULT_CAPTURE c \<and> fr_kind (last_fault fs) \<noteq> 0 then 1 else 0)"
  by (simp add: dump_script_def)

lemma demo_dump_details: "dump_details minimal_config (journal_boot minimal_config) = []"
proof -
  have "slot_details (journal_boot minimal_config) k = []" if "k < JOURNAL_SLOTS minimal_config" for k
    using that by (simp add: slot_details_def journal_boot_def)
  moreover have "0 < JOURNAL_SLOTS minimal_config" by (simp add: minimal_config_def)
  ultimately show ?thesis
    by (simp add: dump_details_def dump_slot_order_def ram_events_def ring_get_ordered_def journal_boot_def)
qed

theorem dump_completes_witness:
  "let w = \<lparr>answers = [(True, 0), (False, 0), (True, - 11), (True, 0), (True, 0), (True, 0)], sent = []\<rparr>;
       fs = \<lparr>fault_rec = zero_fault, last_fault = zero_fault\<rparr>
   in length (sent (totem_host_event_log_dump minimal_config 9 (boot_diag_init 0 0) fs (journal_boot minimal_config) w)) = 4"
proof -
  let ?w = "\<lparr>answers = [(True, 0), (False, 0), (True, - 11), (True, 0), (True, 0), (True, 0)], sent = []\<rparr>"
  let ?fs = "\<lparr>fault_rec = zero_fault, last_fault = zero_fault\<rparr>"
  have r: "- (2 ^ 31) \<le> reset_read_result (boot_diag_init 0 0)" "reset_read_result (boot_diag_init 0 0) < 2 ^ 31"
    by (simp_all add: boot_diag_init_def)
  have len: "length (dump_script minimal_config 9 (boot_diag_init 0 0) ?fs (journal_boot minimal_config)) = 4"
    by (simp add: length_script demo_dump_details zero_fault_def)
  have "link_patient minimal_config 4 ?w" by (simp add: link_patient_def numeral_eq_Suc)
  then have "link_patient minimal_config (length (dump_script minimal_config 9 (boot_diag_init 0 0) ?fs (journal_boot minimal_config))) ?w"
    by (simp only: len)
  from dump_completes [OF kconfig_ok_minimal r this] len show ?thesis by (simp add: Let_def)
qed

text \<open>
  No line of a dump is ever truncated or refused for its length: every line, for every
  content of the journal, the boot state and the fault record, fits the 120-byte buffer.
\<close>

theorem dump_lines_fit:
  assumes "- (2 ^ 31) \<le> reset_read_result bd" and "reset_read_result bd < 2 ^ 31"
    and "line \<in> set (dump_script c did bd fs j)"
  shows "length line < 120"
proof -
  let ?hdr = "begin_line did (dump_expected c j) (dump_blocks_count c j) (dump_persistent_events c j)
          (of_nat (ring_count j)) (ring_seq j)" and ?fin = "end_line did (of_nat (length (dump_details c j)))"
  have num: "length l < 120" if "l \<in> set (numbered did 0 (dump_details c j))" for l
    by (rule numbered_short [OF _ that]) (simp add: details_short)
  have parts: "l \<in> set ([a, b] @ (if P then [f] else []) @ [g] @ xs @ [h]) \<Longrightarrow> l \<in> {a, b, f, g, h} \<or> l \<in> set xs"
    for l a b f g h :: string and xs P by (auto split: if_splits)
  have "line \<in> {totem_boot_diagnostics_format False bd, totem_boot_diagnostics_format True bd,
      saved_fault_line (last_fault fs), ?hdr, ?fin} \<or> line \<in> set (numbered did 0 (dump_details c j))"
    using assms(3) unfolding dump_script_def by (rule parts)
  then show ?thesis
    using num boot_format_length [OF assms(1,2)] saved_fault_line_length begin_line_length end_line_length
    unfolding insert_iff empty_iff by metis
qed

theorem dump_lines_fit_witness:
  "length (totem_boot_diagnostics_format False (boot_diag_init 1 2)) < 120"
proof -
  have r: "- (2 ^ 31) \<le> reset_read_result (boot_diag_init 1 2)" "reset_read_result (boot_diag_init 1 2) < 2 ^ 31"
    by (simp_all add: boot_diag_init_def)
  have "totem_boot_diagnostics_format False (boot_diag_init 1 2)
      \<in> set (dump_script minimal_config 0 (boot_diag_init 1 2) \<lparr>fault_rec = zero_fault, last_fault = zero_fault\<rparr>
           (journal_boot minimal_config))" by (simp add: dump_script_def)
  from dump_lines_fit [OF r this] show ?thesis .
qed

end
