(* ===== verification/Watchdog.thy ===== *)
theory Watchdog
  imports Fault Boot_Diagnostics
begin

text \<open>
  Reset-reason capture, the boot-time dump of the stored profiles and the task watchdog,
  \<open>src/totem_watchdog.c\<close>. Zephyr's reset-cause masks, the watchdog driver and the address
  printer are parameters.
\<close>

section \<open>Reset reason\<close>

text \<open>The masks \<open>RESET_PIN\<close>, ... of Zephyr's \<open>hwinfo.h\<close>.\<close>

record reset_masks =
  RESET_PIN :: u32
  RESET_SOFTWARE :: u32
  RESET_WATCHDOG :: u32
  RESET_BROWNOUT :: u32
  RESET_POR :: u32
  RESET_DEBUG :: u32
  RESET_LOW_POWER_WAKE :: u32

definition TOTEM_RR_PIN :: u8 where [simp]: "TOTEM_RR_PIN = 0x01"
definition TOTEM_RR_SOFTWARE :: u8 where [simp]: "TOTEM_RR_SOFTWARE = 0x02"
definition TOTEM_RR_WATCHDOG :: u8 where [simp]: "TOTEM_RR_WATCHDOG = 0x04"
definition TOTEM_RR_BROWNOUT :: u8 where [simp]: "TOTEM_RR_BROWNOUT = 0x08"
definition TOTEM_RR_POR :: u8 where [simp]: "TOTEM_RR_POR = 0x10"
definition TOTEM_RR_DEBUG :: u8 where [simp]: "TOTEM_RR_DEBUG = 0x20"
definition TOTEM_RR_LOW_POWER :: u8 where [simp]: "TOTEM_RR_LOW_POWER = 0x40"
definition TOTEM_RR_OTHER :: u8 where [simp]: "TOTEM_RR_OTHER = 0x80"

definition compress_reset_cause :: "reset_masks \<Rightarrow> u32 \<Rightarrow> u8" where
  "compress_reset_cause R cause =
     (let flag = (\<lambda>mask bit out. if cause AND mask \<noteq> 0 then out OR bit else out);
          out = flag (RESET_LOW_POWER_WAKE R) TOTEM_RR_LOW_POWER
                (flag (RESET_DEBUG R) TOTEM_RR_DEBUG
                (flag (RESET_POR R) TOTEM_RR_POR
                (flag (RESET_BROWNOUT R) TOTEM_RR_BROWNOUT
                (flag (RESET_WATCHDOG R) TOTEM_RR_WATCHDOG
                (flag (RESET_SOFTWARE R) TOTEM_RR_SOFTWARE
                (flag (RESET_PIN R) TOTEM_RR_PIN 0))))))
      in if cause \<noteq> 0 \<and> out = 0 then out OR TOTEM_RR_OTHER else out)"

section \<open>State\<close>

record wdt_state =
  totem_reset_flags :: u8
  reset_cause_cleared :: bool
  chan_sched :: int
  chan_workq :: int
  chan_timer :: int
  feeders_started :: bool
  profile_dump_delay :: "int option"
  console :: "string list"

definition wdt_boot :: wdt_state where
  "wdt_boot = \<lparr>totem_reset_flags = 0, reset_cause_cleared = False, chan_sched = - 1, chan_workq = - 1,
     chan_timer = - 1, feeders_started = False, profile_dump_delay = None, console = []\<rparr>"

definition printk :: "string \<Rightarrow> wdt_state \<Rightarrow> wdt_state" where
  "printk line w = w\<lparr>console := console w @ [line]\<rparr>"

record boot_state =
  b_wdt :: wdt_state
  b_fault :: fault_state
  b_diag :: boot_diag
  b_journal :: journal

definition hex2 :: "u8 \<Rightarrow> string" where
  "hex2 w = [hex_char (unat w div 16), hex_char (unat w mod 16)]"

text \<open>\<open>read\<close> is the result of the reset-cause call and the cause it stored.\<close>

definition totem_capture_reset_reason ::
  "totem_config \<Rightarrow> reset_masks \<Rightarrow> int \<Rightarrow> int \<times> u32 \<Rightarrow> boot_state \<Rightarrow> boot_state" where
  "totem_capture_reset_reason c R now read s0 =
     (if \<not> (CONFIG_TOTEM_RESET_REASON_CAPTURE c \<and> CONFIG_HWINFO c) then s0
      else
        let (err, cause) = read;
            result = word_of_int err :: u32;
            s = s0\<lparr>b_diag := totem_boot_diagnostics_reset_result err (b_diag s0),
                   b_journal := totem_host_event_log_record c now
                     (log_args TOTEM_HEVT_BOOT_READ_RESULT (byte_of 0 result) (byte_of 1 result) 0
                        (byte_of 2 result) (byte_of 3 result)) (b_journal s0)\<rparr>
        in if err \<noteq> 0
           then s\<lparr>b_wdt := printk (''totem_wdt reset_reason unavailable err='' @ fmt_d err) (b_wdt s)\<rparr>
           else
             let flags = compress_reset_cause R cause;
                 fired = (flags AND TOTEM_RR_WATCHDOG \<noteq> 0);
                 w1 = printk (''totem_wdt boot reset_cause=0x'' @ fmt_08x cause @ '' flags=0x'' @ hex2 flags
                        @ (if fired then '' WATCHDOG-FIRED'' else []))
                        ((b_wdt s)\<lparr>totem_reset_flags := flags\<rparr>);
                 w2 = (if fired
                       then printk ''totem_wdt previous boot ended in a WATCHDOG RESET -- the firmware hung'' w1
                       else w1);
                 w3 = (if CONFIG_ZMK_STUDIO_LOG_RESET_REASON c then w2 else w2\<lparr>reset_cause_cleared := True\<rparr>)
             in s\<lparr>b_wdt := w3,
                  b_journal := totem_host_event_log_record c now
                    (log_args TOTEM_HEVT_BOOT (- 1) (- 1) flags 0 0) (b_journal s)\<rparr>)"

section \<open>Stored profiles\<close>

text \<open>
  \<open>addrs\<close> holds \<open>zmk_ble_profile_address(i)\<close>, \<open>None\<close> for NULL; \<open>any\<close> is \<open>BT_ADDR_LE_ANY\<close> and
  \<open>to_str\<close> is \<open>bt_addr_le_to_str\<close>.
\<close>

definition totem_dump_profiles ::
  "totem_config \<Rightarrow> int \<Rightarrow> (nat \<Rightarrow> bt_addr option) \<Rightarrow> bt_addr \<Rightarrow> (bt_addr \<Rightarrow> string) \<Rightarrow> string list" where
  "totem_dump_profiles c active addrs any to_str =
     (''totem_prof active='' @ fmt_d active @ '' count='' @ dec (ZMK_BLE_PROFILE_COUNT c))
     # map (\<lambda>i. let addr = addrs i;
                    empty = (case addr of None \<Rightarrow> True | Some a \<Rightarrow> a = any);
                    addr_str = (case addr of None \<Rightarrow> ''(null)'' | Some a \<Rightarrow> to_str a)
                in ''totem_prof '' @ dec i @ (if int i = active then ''*'' else '' '') @ '' '' @ addr_str
                   @ (if empty then ''  EMPTY'' else []))
         [0..<ZMK_BLE_PROFILE_COUNT c]"

definition totem_schedule_profile_dump :: "totem_config \<Rightarrow> wdt_state \<Rightarrow> wdt_state" where
  "totem_schedule_profile_dump c w =
     (if CONFIG_TOTEM_BOOT_PROFILE_DUMP c
      then w\<lparr>profile_dump_delay := Some (CONFIG_TOTEM_BOOT_PROFILE_DUMP_DELAY_MS c)\<rparr> else w)"

text \<open>The work item is no longer pending when its handler runs.\<close>

definition totem_profile_dump_work_handler ::
  "totem_config \<Rightarrow> int \<Rightarrow> (nat \<Rightarrow> bt_addr option) \<Rightarrow> bt_addr \<Rightarrow> (bt_addr \<Rightarrow> string) \<Rightarrow> wdt_state \<Rightarrow> wdt_state" where
  "totem_profile_dump_work_handler c active addrs any to_str w =
     fold printk (totem_dump_profiles c active addrs any to_str) (w\<lparr>profile_dump_delay := None\<rparr>)"

lemma printk_all: "fold printk ls w = w\<lparr>console := console w @ ls\<rparr>"
  by (induction ls arbitrary: w) (simp_all add: printk_def)

text \<open>The dump that the init function schedules prints a header and one line per profile, once.\<close>

lemma profile_dump_once:
  "let w' = totem_profile_dump_work_handler c active addrs any to_str (totem_schedule_profile_dump c w)
   in length (console w') = length (console w) + ZMK_BLE_PROFILE_COUNT c + 1 \<and> profile_dump_delay w' = None"
  by (simp add: totem_profile_dump_work_handler_def totem_schedule_profile_dump_def totem_dump_profiles_def printk_all printk_def Let_def)

section \<open>Watchdog\<close>

definition WDT_FEED_INTERVAL_MS :: "totem_config \<Rightarrow> int" where
  "WDT_FEED_INTERVAL_MS c = CONFIG_TOTEM_WATCHDOG_TIMEOUT_MS c div 3"

definition chan_label :: "wdt_state \<Rightarrow> int \<Rightarrow> string" where
  "chan_label w channel_id =
     (if channel_id = chan_sched w then ''sched''
      else if channel_id = chan_workq w then ''sysworkq''
      else if channel_id = chan_timer w then ''timer''
      else ''unknown'')"

definition totem_task_wdt_cb ::
  "(u8 list \<Rightarrow> u32) \<Rightarrow> u32 \<Rightarrow> u32 \<Rightarrow> string option \<Rightarrow> int \<Rightarrow> boot_state \<Rightarrow> boot_state" where
  "totem_task_wdt_cb crc now tid name channel_id s =
     s\<lparr>b_fault := totem_fault_note_task_wdt crc now tid name channel_id (Some (chan_label (b_wdt s) channel_id)) (b_fault s)\<rparr>"

text \<open>
  The driver's answers: \<open>dev_ready\<close> is \<open>None\<close> without a \<open>watchdog0\<close> alias, \<open>wdt_init\<close> the result
  of \<open>task_wdt_init\<close>, \<open>wdt_add\<close> the channel ids or errors of the three \<open>task_wdt_add\<close> calls.
\<close>

record wdt_driver =
  dev_ready :: "bool option"
  wdt_init :: int
  wdt_add :: "int \<times> int \<times> int"

definition totem_watchdog_arm :: "totem_config \<Rightarrow> wdt_driver \<Rightarrow> wdt_state \<Rightarrow> wdt_state" where
  "totem_watchdog_arm c d w =
     (case dev_ready d of
        None \<Rightarrow> printk ''totem_wdt no watchdog0 alias; watchdog DISABLED'' w
      | Some ready \<Rightarrow>
          if \<not> ready then printk ''totem_wdt watchdog device not ready; watchdog DISABLED'' w
          else if wdt_init d \<noteq> 0
          then printk (''totem_wdt task_wdt_init failed err='' @ fmt_d (wdt_init d) @ ''; watchdog DISABLED'') w
          else
            let (a, b, t) = wdt_add d;
                w1 = w\<lparr>chan_sched := a, chan_workq := b, chan_timer := t\<rparr>
            in if a < 0 \<or> b < 0 \<or> t < 0
               then printk (''totem_wdt task_wdt_add failed ('' @ fmt_d a @ ''/'' @ fmt_d b @ ''/'' @ fmt_d t
                      @ ''); watchdog DISABLED'') w1
               else printk (''totem_wdt armed timeout='' @ fmt_d (CONFIG_TOTEM_WATCHDOG_TIMEOUT_MS c)
                      @ '' ms feed='' @ fmt_d (WDT_FEED_INTERVAL_MS c) @ '' ms channels sched='' @ fmt_d a
                      @ '' sysworkq='' @ fmt_d b @ '' timer='' @ fmt_d t) (w1\<lparr>feeders_started := True\<rparr>))"

definition totem_watchdog_init ::
  "totem_config \<Rightarrow> (u8 list \<Rightarrow> u32) \<Rightarrow> reset_masks \<Rightarrow> int \<Rightarrow> int \<times> u32 \<Rightarrow> zmk_studio_log_fault option
   \<Rightarrow> wdt_driver \<Rightarrow> boot_state \<Rightarrow> boot_state" where
  "totem_watchdog_init c crc R now read bf d s0 =
     (let s1 = totem_capture_reset_reason c R now read s0;
          (rep, fs) = totem_fault_report_and_clear c crc bf (b_fault s1);
          s2 = s1\<lparr>b_fault := fs, b_diag := totem_boot_diagnostics_fault_status (rep_status rep) (b_diag s1),
                  b_journal := fold (totem_host_event_log_record c now) (rep_calls rep) (b_journal s1),
                  b_wdt := totem_schedule_profile_dump c (printk (rep_line rep) (b_wdt s1))\<rparr>
      in if CONFIG_TOTEM_WATCHDOG c then s2\<lparr>b_wdt := totem_watchdog_arm c d (b_wdt s2)\<rparr> else s2)"

text \<open>
  When a later \<open>task_wdt_add\<close> fails, the channels added before it stay armed in the driver, but no
  feeder is started, while the console says that the watchdog is disabled.
\<close>

lemma partial_arming_unfed:
  assumes "dev_ready d = Some True" and "wdt_init d = 0" and "wdt_add d = (a, b, t)" and "0 \<le> a" and "b < 0"
  shows "chan_sched (totem_watchdog_arm c d w) = a \<and> feeders_started (totem_watchdog_arm c d w) = feeders_started w
    \<and> last (console (totem_watchdog_arm c d w)) = ''totem_wdt task_wdt_add failed ('' @ fmt_d a @ ''/'' @ fmt_d b @ ''/''
        @ fmt_d t @ ''); watchdog DISABLED''"
  using assms by (simp add: totem_watchdog_arm_def printk_def)

section \<open>Feeding\<close>

text \<open>
  A channel fed every interval from time 0, except the feeds in \<open>missed\<close>; it bites when some
  gap between consecutive feeds exceeds the timeout.
\<close>

fun longest_gap :: "int \<Rightarrow> bool list \<Rightarrow> int \<Rightarrow> int" where
  "longest_gap step [] gap = gap"
| "longest_gap step (fed # ticks) gap = (if fed then max (gap + step) (longest_gap step ticks 0)
                                          else longest_gap step ticks (gap + step))"

text \<open>The most consecutive ticks without a feed, \<open>k\<close> of them already behind.\<close>

fun longest_miss :: "bool list \<Rightarrow> nat \<Rightarrow> nat" where
  "longest_miss [] k = k"
| "longest_miss (fed # ticks) k = (if fed then max k (longest_miss ticks 0) else longest_miss ticks (k + 1))"

lemma longest_gap_miss:
  "0 \<le> step \<Longrightarrow> longest_gap step ticks (int k * step) \<le> (int (longest_miss ticks k) + 1) * step"
proof (induction ticks arbitrary: k)
  case Nil
  then show ?case by (simp add: algebra_simps)
next
  case (Cons fed ticks)
  show ?case
  proof (cases fed)
    case True
    let ?m = "longest_miss ticks 0"
    have "int k * step + step \<le> (int (max k ?m) + 1) * step"
      using Cons.prems mult_right_mono [of "int k" "int (max k ?m)" step] by (simp add: algebra_simps)
    moreover have "longest_gap step ticks 0 \<le> (int (max k ?m) + 1) * step"
      using Cons.IH [of 0] Cons.prems mult_right_mono [of "int ?m" "int (max k ?m)" step]
      by (simp add: algebra_simps)
    ultimately show ?thesis using True by simp
  next
    case False
    with Cons.IH [of "k + 1"] Cons.prems show ?thesis by (simp add: algebra_simps)
  qed
qed

section \<open>Properties\<close>

text \<open>
  The compressed reset byte says exactly which causes were present: each of the seven flags
  is set if and only if its mask is present in the hardware cause, and the \<open>OTHER\<close> flag if and
  only if there was a cause and none of the seven matched.
\<close>

theorem compress_reset_cause_exact:
  "bit (compress_reset_cause R cause) 0 = (cause AND RESET_PIN R \<noteq> 0)
   \<and> bit (compress_reset_cause R cause) 1 = (cause AND RESET_SOFTWARE R \<noteq> 0)
   \<and> bit (compress_reset_cause R cause) 2 = (cause AND RESET_WATCHDOG R \<noteq> 0)
   \<and> bit (compress_reset_cause R cause) 3 = (cause AND RESET_BROWNOUT R \<noteq> 0)
   \<and> bit (compress_reset_cause R cause) 4 = (cause AND RESET_POR R \<noteq> 0)
   \<and> bit (compress_reset_cause R cause) 5 = (cause AND RESET_DEBUG R \<noteq> 0)
   \<and> bit (compress_reset_cause R cause) 6 = (cause AND RESET_LOW_POWER_WAKE R \<noteq> 0)
   \<and> bit (compress_reset_cause R cause) 7 = (cause \<noteq> 0 \<and>
       cause AND RESET_PIN R = 0 \<and> cause AND RESET_SOFTWARE R = 0 \<and> cause AND RESET_WATCHDOG R = 0 \<and>
       cause AND RESET_BROWNOUT R = 0 \<and> cause AND RESET_POR R = 0 \<and> cause AND RESET_DEBUG R = 0 \<and>
       cause AND RESET_LOW_POWER_WAKE R = 0)"
proof (cases "cause AND RESET_PIN R = 0 \<and> cause AND RESET_SOFTWARE R = 0 \<and> cause AND RESET_WATCHDOG R = 0 \<and>
       cause AND RESET_BROWNOUT R = 0 \<and> cause AND RESET_POR R = 0 \<and> cause AND RESET_DEBUG R = 0 \<and>
       cause AND RESET_LOW_POWER_WAKE R = 0")
  case True
  then show ?thesis by (cases "cause = 0") (simp_all add: compress_reset_cause_def Let_def)
next
  case False
  then show ?thesis
    by (cases "cause AND RESET_PIN R = 0"; cases "cause AND RESET_SOFTWARE R = 0";
        cases "cause AND RESET_WATCHDOG R = 0"; cases "cause AND RESET_BROWNOUT R = 0";
        cases "cause AND RESET_POR R = 0"; cases "cause AND RESET_DEBUG R = 0";
        cases "cause AND RESET_LOW_POWER_WAKE R = 0")
      (simp_all add: compress_reset_cause_def Let_def bit_simps)
qed

text \<open>The four payload bytes of a boot record, as the dump tools reassemble them.\<close>

definition event_word :: "totem_host_event \<Rightarrow> u32" where
  "event_word e = le32 (ev_idx e) (ev_active e) (ev_thrash_win e) (ev_extra e)"

text \<open>
  The signed result of the reset-cause call survives the journal: the four payload bytes of
  the record made for it reassemble to the 32-bit result, and when the call failed no cause is
  recorded or printed as known.
\<close>

theorem reset_read_result_kept:
  assumes "CONFIG_TOTEM_RESET_REASON_CAPTURE c" and "CONFIG_HWINFO c" and "ring_inv c (b_journal s)"
    and "2 \<le> RING_CAP c" and "- (2 ^ 31) \<le> err" and "err < 2 ^ 31"
    and "s' = totem_capture_reset_reason c R now (err, cause) s"
  shows "reset_read_result (b_diag s') = err
    \<and> (\<exists>e \<in> set (ring_get_ordered (b_journal s')). ev_type e = hevt_num TOTEM_HEVT_BOOT_READ_RESULT
         \<and> sint (event_word e) = err)
    \<and> (if err = 0 then ring_seq (b_journal s') = ring_seq (b_journal s) + 2
          \<and> totem_reset_flags (b_wdt s') = compress_reset_cause R cause
       else ring_seq (b_journal s') = ring_seq (b_journal s) + 1
          \<and> totem_reset_flags (b_wdt s') = totem_reset_flags (b_wdt s))"
proof -
  let ?r = "word_of_int err :: u32"
  let ?a = "log_args TOTEM_HEVT_BOOT_READ_RESULT (byte_of 0 ?r) (byte_of 1 ?r) 0 (byte_of 2 ?r) (byte_of 3 ?r)"
  let ?b = "log_args TOTEM_HEVT_BOOT (- 1) (- 1) (compress_reset_cause R cause) 0 0"
  let ?calls = "if err = 0 then [?a, ?b] else [?a]"
  have j: "b_journal s' = fold (totem_host_event_log_record c now) ?calls (b_journal s)"
    using assms(1,2) by (simp add: assms(7) totem_capture_reset_reason_def Let_def)
  have rest: "reset_read_result (b_diag s') = err"
    "totem_reset_flags (b_wdt s') = (if err = 0 then compress_reset_cause R cause else totem_reset_flags (b_wdt s))"
    using assms(1,2)
    by (simp_all add: assms(7) totem_capture_reset_reason_def totem_boot_diagnostics_reset_result_def printk_def Let_def)
  have ex: "call_event (word_of_int now) ?a \<in> set (ring_get_ordered (b_journal s'))"
    unfolding j record_calls_ring [OF assms(3)] using assms(4)
    by (subst lastn_append_short) (simp_all split: if_splits)
  have "sint (event_word (call_event (word_of_int now) ?a)) = err"
    using assms(5,6) by (simp add: event_word_def call_event_def int_word_sint)
  moreover have "ev_type (call_event (word_of_int now) ?a) = hevt_num TOTEM_HEVT_BOOT_READ_RESULT"
    by (simp add: call_event_def)
  ultimately have "\<exists>e \<in> set (ring_get_ordered (b_journal s')). ev_type e = hevt_num TOTEM_HEVT_BOOT_READ_RESULT
      \<and> sint (event_word e) = err" using ex by blast
  moreover have "ring_seq (b_journal s') = ring_seq (b_journal s) + of_nat (length ?calls)"
    unfolding j by (rule record_calls_fields(3))
  ultimately show ?thesis using rest by (simp split: if_splits)
qed

definition demo_boot_state :: boot_state where
  "demo_boot_state = \<lparr>b_wdt = wdt_boot, b_fault = \<lparr>fault_rec = zero_fault, last_fault = zero_fault\<rparr>,
     b_diag = boot_diag_init 0 0, b_journal = journal_boot minimal_config\<rparr>"

definition demo_masks :: reset_masks where
  "demo_masks = \<lparr>RESET_PIN = 1, RESET_SOFTWARE = 2, RESET_WATCHDOG = 16, RESET_BROWNOUT = 4, RESET_POR = 8,
     RESET_DEBUG = 32, RESET_LOW_POWER_WAKE = 128\<rparr>"

theorem reset_read_result_kept_witness:
  "let s' = totem_capture_reset_reason minimal_config demo_masks 3 (- 88, 0) demo_boot_state
   in (\<exists>e \<in> set (ring_get_ordered (b_journal s')). ev_type e = 41 \<and> sint (event_word e) = - 88)
      \<and> ring_seq (b_journal s') = 1"
proof -
  have a: "CONFIG_TOTEM_RESET_REASON_CAPTURE minimal_config" "CONFIG_HWINFO minimal_config" "2 \<le> RING_CAP minimal_config"
    by (simp_all add: minimal_config_def totem_left_config_def)
  have b: "ring_inv minimal_config (b_journal demo_boot_state)" "ring_seq (b_journal demo_boot_state) = 0"
    by (simp_all add: demo_boot_state_def journal_boot_def ring_inv_def minimal_config_def)
  from reset_read_result_kept [OF a(1,2) b(1) a(3) _ _ refl, of "- 88" demo_masks 3 0] b(2)
  show ?thesis by (simp add: Let_def)
qed

text \<open>
  A hang names the subsystem that stopped: when the watchdog was armed with three distinct
  channels and one of them expires, the boot after the reset prints a HANG line with that
  channel's label and records the fault, and no later boot repeats it.
\<close>

theorem hang_names_subsystem:
  assumes "dev_ready d = Some True" and "wdt_init d = 0" and "wdt_add d = (a, b, t)"
    and "distinct [a, b, t]" and "list_all (\<lambda>ch. 0 \<le> ch \<and> ch < 128) [a, b, t]"
    and "(channel, label) \<in> {(a, ''sched''), (b, ''sysworkq''), (t, ''timer'')}"
    and "s1 = totem_task_wdt_cb crc now tid name channel (s\<lparr>b_wdt := totem_watchdog_arm c d w\<rparr>)"
    and "totem_fault_report_and_clear c crc bf (fault_soft_reset (b_fault s1)) = (rep1, fs2)"
    and "totem_fault_report_and_clear c crc None (fault_soft_reset fs2) = (rep2, fs3)"
  shows "rep_line rep1 = ''totem_fault HANG task_wdt channel='' @ fmt_d channel @ '' ('' @ label
        @ '') stopped feeding; at_uptime='' @ fmt_u now @ '' ms''
    \<and> TOTEM_HEVT_FAULT \<in> call_type ` set (rep_calls rep1)
    \<and> rep_line rep2 = ''totem_fault none''
    \<and> feeders_started (totem_watchdog_arm c d w)"
proof -
  let ?w = "totem_watchdog_arm c d w"
  have arm: "chan_sched ?w = a" "chan_workq ?w = b" "chan_timer ?w = t" "feeders_started ?w"
    using assms(1-3,5) by (simp_all add: totem_watchdog_arm_def printk_def)
  have lbl: "chan_label ?w channel = label" using assms(4,6) arm by (auto simp: chan_label_def)
  have ch: "- 128 \<le> channel" "channel < 128" using assms(5,6) by auto
  have "label \<in> {''sched'', ''sysworkq'', ''timer''}" using assms(6) by auto
  then have l: "NUL \<notin> set label" "length label < 20" by (auto simp: NUL_def)
  have fs: "fault_soft_reset (b_fault s1)
      = fault_soft_reset (totem_fault_note_task_wdt crc now tid name channel (Some label) (b_fault s))"
    by (simp add: assms(7) totem_task_wdt_cb_def lbl)
  from noted_hang_reports [OF ch l fs assms(8,9)] arm(4) show ?thesis by force
qed

theorem hang_names_subsystem_witness:
  "let d = \<lparr>dev_ready = Some True, wdt_init = 0, wdt_add = (0, 1, 2)\<rparr>;
       s1 = totem_task_wdt_cb (\<lambda>_. 5) 77 0 None 1
              (demo_boot_state\<lparr>b_wdt := totem_watchdog_arm minimal_config d wdt_boot\<rparr>);
       (rep1, fs2) = totem_fault_report_and_clear minimal_config (\<lambda>_. 5) None (fault_soft_reset (b_fault s1))
   in rep_line rep1 = ''totem_fault HANG task_wdt channel=1 (sysworkq) stopped feeding; at_uptime=77 ms''"
proof -
  let ?d = "\<lparr>dev_ready = Some True, wdt_init = 0, wdt_add = (0, 1, 2)\<rparr>"
  let ?s1 = "totem_task_wdt_cb (\<lambda>_. 5) 77 0 None 1
              (demo_boot_state\<lparr>b_wdt := totem_watchdog_arm minimal_config ?d wdt_boot\<rparr>)"
  obtain rep1 fs2 where r1: "totem_fault_report_and_clear minimal_config (\<lambda>_. 5) None (fault_soft_reset (b_fault ?s1)) = (rep1, fs2)"
    by (metis prod.exhaust)
  obtain rep2 fs3 where r2: "totem_fault_report_and_clear minimal_config (\<lambda>_. 5) None (fault_soft_reset fs2) = (rep2, fs3)"
    by (metis prod.exhaust)
  have d: "fmt_d 1 = ''1''" "fmt_u (77 :: u32) = ''77''" by code_simp+
  have ch: "(1 :: int, ''sysworkq'') \<in> {(0, ''sched''), (1, ''sysworkq''), (2, ''timer'')}" by simp
  from hang_names_subsystem [OF _ _ _ _ _ ch refl r1 r2] show ?thesis by (simp add: r1 d)
qed

text \<open>
  Two missed feeds in a row never trip the watchdog, in any pattern of fed and missed ticks:
  the longest time without a feed then stays within the timeout (and strictly below it unless
  the timeout is a multiple of three milliseconds).
\<close>

theorem feed_tolerates_two_misses:
  assumes "kconfig_ok c" and "longest_miss ticks 0 \<le> 2"
  shows "longest_gap (WDT_FEED_INTERVAL_MS c) ticks 0
      \<le> CONFIG_TOTEM_WATCHDOG_TIMEOUT_MS c - CONFIG_TOTEM_WATCHDOG_TIMEOUT_MS c mod 3"
proof -
  let ?T = "CONFIG_TOTEM_WATCHDOG_TIMEOUT_MS c"
  have "2000 \<le> ?T" using assms(1) by (simp add: kconfig_ok_def)
  then have "0 \<le> WDT_FEED_INTERVAL_MS c" by (simp add: WDT_FEED_INTERVAL_MS_def)
  then have "longest_gap (WDT_FEED_INTERVAL_MS c) ticks 0 \<le> (int (longest_miss ticks 0) + 1) * WDT_FEED_INTERVAL_MS c"
    using longest_gap_miss [of "WDT_FEED_INTERVAL_MS c" ticks 0] by simp
  also have "\<dots> \<le> 3 * WDT_FEED_INTERVAL_MS c"
    using \<open>0 \<le> WDT_FEED_INTERVAL_MS c\<close> assms(2) by (intro mult_right_mono) simp_all
  also have "\<dots> = ?T - ?T mod 3" by (simp add: WDT_FEED_INTERVAL_MS_def minus_mod_eq_mult_div)
  finally show ?thesis .
qed

theorem feed_tolerates_two_misses_witness:
  "longest_gap (WDT_FEED_INTERVAL_MS totem_left_config) [True, False, False, True, True] 0 \<le> 9999"
proof -
  have "longest_miss [True, False, False, True, True] 0 \<le> 2" by simp
  from feed_tolerates_two_misses [OF kconfig_ok_totem_left this] show ?thesis
    by (simp add: totem_left_config_def)
qed

end
