(* ===== verification/Boot_Sequence.thy ===== *)
theory Boot_Sequence
  imports Watchdog Journal_Restore Journal_Calls
begin

text \<open>
  A whole boot in the order of the code's init levels: the early capture of
  \<open>src/boot_diagnostics.c\<close> (\<open>PRE_KERNEL_1\<close>), \<open>totem_watchdog_init\<close> of \<open>src/totem_watchdog.c\<close>
  (\<open>APPLICATION\<close> 99), which reports the retained fault into a journal that only buffers, then in
  \<open>main()\<close> the settings callbacks of both journal and boot counter in whatever order the storage
  delivers the keys, and last \<open>zmk_settings_loaded\<close>. Zephyr's storage is the map \<open>flash\<close> from
  keys to values and the list \<open>order\<close> of the keys it delivers.
\<close>

section \<open>Reset and settings\<close>

text \<open>A soft reset keeps the two \<open>__noinit\<close> objects and initialises every other variable.\<close>

definition soft_reset :: "totem_config \<Rightarrow> boot_state \<Rightarrow> boot_state" where
  "soft_reset c s = \<lparr>b_wdt = wdt_boot, b_fault = fault_soft_reset (b_fault s),
     b_diag = boot_diag_init (boot_ram_magic (b_diag s)) (boot_ram_inverse (b_diag s)),
     b_journal = journal_boot c\<rparr>"

text \<open>
  The static handlers registered for the subtrees \<open>th\<close> and \<open>tboot\<close>; a handler gets the rest of
  the key and a reader for the whole value.
\<close>

definition settings_deliver ::
  "totem_config \<Rightarrow> (u8 list \<Rightarrow> u32) \<Rightarrow> string \<Rightarrow> u8 list \<Rightarrow> boot_state \<Rightarrow> boot_state" where
  "settings_deliver c crc key v s =
     (if \<not> CONFIG_SETTINGS c then s
      else if take 3 key = ''th/''
      then s\<lparr>b_journal := snd (hevt_settings_set c crc (drop 3 key) (length v) (int (length v), v) (b_journal s))\<rparr>
      else if take 6 key = ''tboot/''
      then s\<lparr>b_diag := snd (boot_settings_set crc (drop 6 key) (length v) (int (length v), v) (b_diag s))\<rparr>
      else s)"

definition settings_load ::
  "totem_config \<Rightarrow> (u8 list \<Rightarrow> u32) \<Rightarrow> (string \<rightharpoonup> u8 list) \<Rightarrow> string list \<Rightarrow> boot_state \<Rightarrow> boot_state" where
  "settings_load c crc flash =
     fold (\<lambda>key s. case flash key of None \<Rightarrow> s | Some v \<Rightarrow> settings_deliver c crc key v s)"

section \<open>The boot\<close>

text \<open>
  What the hardware and the rest of the firmware supply: the reset register, the clock and the
  reset-cause call of the init function, the crash kept by the studio-log module, the watchdog
  driver, the records other modules make before the settings are loaded, and the clock then.
\<close>

record boot_inputs =
  in_raw :: u32
  in_now :: int
  in_read :: "int \<times> u32"
  in_crash :: "zmk_studio_log_fault option"
  in_driver :: wdt_driver
  in_early :: "(int \<times> log_call) list"
  in_loaded :: int

definition totem_boot ::
  "totem_config \<Rightarrow> (u8 list \<Rightarrow> u32) \<Rightarrow> reset_masks \<Rightarrow> boot_inputs \<Rightarrow> (string \<rightharpoonup> u8 list) \<Rightarrow> string list
   \<Rightarrow> boot_state \<Rightarrow> boot_state" where
  "totem_boot c crc R i flash order s0 =
     (let s1 = s0\<lparr>b_diag := boot_capture_early c (in_raw i) (b_diag s0)\<rparr>;
          s2 = totem_watchdog_init c crc R (in_now i) (in_read i) (in_crash i) (in_driver i) s1;
          s3 = s2\<lparr>b_journal := journal_calls c (in_early i) (b_journal s2)\<rparr>;
          s4 = settings_load c crc flash order s3;
          (j, bd) = zmk_settings_loaded c crc (in_loaded i) (b_journal s4, b_diag s4)
      in s4\<lparr>b_journal := j, b_diag := bd\<rparr>)"

section \<open>Settings callbacks by key\<close>

text \<open>The journal slot a key belongs to.\<close>

definition slot_of :: "totem_config \<Rightarrow> string \<Rightarrow> nat option" where
  "slot_of c key = find (\<lambda>k. slot_key k = key) [0..<JOURNAL_SLOTS c]"

lemma dec_inject: "j < 10 \<Longrightarrow> k < 10 \<Longrightarrow> dec j = dec k \<longleftrightarrow> j = k"
  by (auto simp: dec_digit digit_char_def)

lemma slot_of_Some:
  assumes "JOURNAL_SLOTS c \<le> 8"
  shows "slot_of c key = Some k \<longleftrightarrow> k < JOURNAL_SLOTS c \<and> key = slot_key k"
proof -
  have "k < JOURNAL_SLOTS c \<and> key = slot_key k" if "slot_of c key = Some k"
    using that by (auto simp: slot_of_def find_Some_iff)
  moreover have "slot_of c (slot_key k) = Some k" if "k < JOURNAL_SLOTS c"
  proof (cases "slot_of c (slot_key k)")
    case None
    with that show ?thesis by (auto simp: slot_of_def find_None_iff)
  next
    case (Some j)
    then have "j < JOURNAL_SLOTS c" "slot_key j = slot_key k" by (auto simp: slot_of_def find_Some_iff)
    with Some that assms show ?thesis using dec_inject [of j k] by (simp add: slot_key_def)
  qed
  ultimately show ?thesis by blast
qed

lemma slot_name_inverse:
  assumes "take 5 name = ''dlog/''" and "48 \<le> c_char name 5" and "c_char name 5 \<le> 57" and "c_char name 6 = 0"
    and "NUL \<notin> set name"
  shows "name = ''dlog/'' @ dec (c_char name 5 - 48)"
proof -
  have len: "5 < length name" using assms(2) by (cases "5 < length name") (simp_all add: c_char_def)
  have "length name \<le> 6"
  proof (rule ccontr)
    assume "\<not> length name \<le> 6"
    then have six: "6 < length name" by simp
    with assms(4) have "(of_char (name ! 6) :: nat) = of_char NUL" by (simp add: c_char_def NUL_def)
    then have "name ! 6 = NUL" by (simp only: of_char_eq_iff)
    moreover have "name ! 6 \<in> set name" using six by (rule nth_mem)
    ultimately show False using assms(5) by simp
  qed
  with len have six: "length name = 6" by simp
  have "name = take 5 name @ [name ! 5]" using six take_Suc_conv_app_nth [of 5 name] by simp
  moreover have "digit_char (c_char name 5 - 48) = name ! 5"
    using assms(2,3) len by (simp add: c_char_def digit_char_def)
  ultimately show ?thesis using assms(1,3) dec_digit [of "c_char name 5 - 48"] by simp
qed

lemma deliver_journal:
  assumes "CONFIG_SETTINGS c" and "JOURNAL_SLOTS c \<le> 8" and "NUL \<notin> set key" and "flash key = Some v"
  shows "b_journal (settings_deliver c crc key v s)
    = (case slot_of c key of None \<Rightarrow> b_journal s | Some k \<Rightarrow> load_slot c crc (flash \<circ> slot_key) k (b_journal s))"
proof (cases "slot_of c key")
  case (Some k)
  then have "key = slot_key k" using slot_of_Some [OF assms(2)] by blast
  with assms Some show ?thesis by (simp add: settings_deliver_def load_slot_def slot_key_def)
next
  case None
  have "snd (hevt_settings_set c crc (drop 3 key) n rd j) = j" if th: "take 3 key = ''th/''" for n rd j
  proof (rule ccontr)
    let ?name = "drop 3 key"
    assume "snd (hevt_settings_set c crc ?name n rd j) \<noteq> j"
    then have name: "take 5 ?name = ''dlog/''" "48 \<le> c_char ?name 5" "c_char ?name 5 \<le> 57" "c_char ?name 6 = 0"
      and lt: "c_char ?name 5 - 48 < JOURNAL_SLOTS c"
      by (auto simp: hevt_settings_set_def Let_def split: if_splits)
    have "NUL \<notin> set ?name" using assms(3) by (meson in_set_dropD)
    from slot_name_inverse [OF name this] have "key = slot_key (c_char ?name 5 - 48)"
      using th append_take_drop_id [of 3 key] by (simp add: slot_key_def)
    with lt have "slot_of c key = Some (c_char ?name 5 - 48)" using slot_of_Some [OF assms(2)] by blast
    with None show False by simp
  qed
  with None assms(1) show ?thesis by (simp add: settings_deliver_def)
qed

lemma deliver_counter:
  assumes "CONFIG_SETTINGS c"
  shows "b_diag (settings_deliver c crc key v s)
    = (if key = ''tboot/count'' then snd (boot_settings_set crc ''count'' (length v) (int (length v), v) (b_diag s))
       else b_diag s)"
proof (cases "take 6 key = ''tboot/''")
  case True
  then have "key = ''tboot/'' @ drop 6 key" using append_take_drop_id [of 6 key] by simp
  then obtain rest where key: "key = ''tboot/'' @ rest" by blast
  with assms show ?thesis by (simp add: settings_deliver_def boot_settings_set_def)
next
  case False
  with assms show ?thesis by (auto simp: settings_deliver_def)
qed

lemma deliver_other [simp]:
  "b_wdt (settings_deliver c crc key v s) = b_wdt s" "b_fault (settings_deliver c crc key v s) = b_fault s"
  by (simp_all add: settings_deliver_def)

section \<open>Loading every key\<close>

definition load_order :: "totem_config \<Rightarrow> (string \<rightharpoonup> u8 list) \<Rightarrow> string list \<Rightarrow> nat list" where
  "load_order c flash order = List.map_filter (slot_of c) (filter (\<lambda>key. flash key \<noteq> None) order)"

lemma map_filter_simp [simp]:
  "List.map_filter f (x # xs) = (case f x of None \<Rightarrow> List.map_filter f xs | Some y \<Rightarrow> y # List.map_filter f xs)"
  "List.map_filter f [] = []"
  by (simp_all add: List.map_filter_simps split: option.splits)

lemma load_order_Cons [simp]:
  "load_order c flash (key # order) = (case flash key of None \<Rightarrow> load_order c flash order
     | Some v \<Rightarrow> (case slot_of c key of None \<Rightarrow> load_order c flash order | Some k \<Rightarrow> k # load_order c flash order))"
  "load_order c flash [] = []"
  by (simp_all add: load_order_def split: option.splits)

lemma settings_load_simps [simp]:
  "settings_load c crc flash [] s = s"
  "settings_load c crc flash (key # order) s
     = settings_load c crc flash order (case flash key of None \<Rightarrow> s | Some v \<Rightarrow> settings_deliver c crc key v s)"
  by (simp_all add: settings_load_def)

lemma settings_load_journal:
  assumes "CONFIG_SETTINGS c" and "JOURNAL_SLOTS c \<le> 8" and "\<And>key. key \<in> dom flash \<Longrightarrow> NUL \<notin> set key"
  shows "b_journal (settings_load c crc flash order s)
    = fold (load_slot c crc (flash \<circ> slot_key)) (load_order c flash order) (b_journal s)"
proof (induction order arbitrary: s)
  case Nil
  then show ?case by simp
next
  case (Cons key order)
  show ?case
  proof (cases "flash key")
    case None
    with Cons show ?thesis by simp
  next
    case (Some v)
    then have "NUL \<notin> set key" using assms(3) by blast
    from deliver_journal [OF assms(1,2) this, of flash v crc] Some Cons show ?thesis
      by (cases "slot_of c key") (simp_all add: comp_def)
  qed
qed

lemma settings_load_counter_none:
  assumes "CONFIG_SETTINGS c" and "''tboot/count'' \<notin> set order"
  shows "b_diag (settings_load c crc flash order s) = b_diag s"
  using assms(2) by (induction order arbitrary: s) (auto simp: deliver_counter [OF assms(1)] split: option.splits)

lemma settings_load_counter:
  assumes "CONFIG_SETTINGS c" and "distinct order" and "''tboot/count'' \<in> set order" and "flash ''tboot/count'' = Some v"
  shows "b_diag (settings_load c crc flash order s)
    = snd (boot_settings_set crc ''count'' (length v) (int (length v), v) (b_diag s))"
  using assms(2,3)
proof (induction order arbitrary: s)
  case Nil
  then show ?case by simp
next
  case (Cons key order)
  show ?case
  proof (cases "key = ''tboot/count''")
    case True
    with Cons.prems assms show ?thesis
      by (simp add: settings_load_counter_none deliver_counter)
  next
    case False
    with Cons assms(1) show ?thesis by (auto simp: deliver_counter split: option.splits)
  qed
qed

lemma settings_load_other [simp]:
  "b_wdt (settings_load c crc flash order s) = b_wdt s" "b_fault (settings_load c crc flash order s) = b_fault s"
  by (induction order arbitrary: s) (simp_all split: option.splits)

lemma set_load_order:
  assumes "JOURNAL_SLOTS c \<le> 8" and "set order = dom flash"
  shows "set (load_order c flash order) = {k. k < JOURNAL_SLOTS c \<and> flash (slot_key k) \<noteq> None}"
proof -
  have "k \<in> set (load_order c flash order) \<longleftrightarrow> (\<exists>key \<in> dom flash. slot_of c key = Some k)" for k
    unfolding load_order_def List.map_filter_def using assms(2) by (force simp: dom_def)
  then show ?thesis unfolding slot_of_Some [OF assms(1)] by auto
qed

lemma distinct_load_order:
  assumes "JOURNAL_SLOTS c \<le> 8" and "distinct order"
  shows "distinct (load_order c flash order)"
  using assms(2)
proof (induction order)
  case Nil
  then show ?case by simp
next
  case (Cons key order)
  have "k \<notin> set (load_order c flash order)" if "slot_of c key = Some k" for k
  proof
    assume "k \<in> set (load_order c flash order)"
    then obtain key' where "key' \<in> set order" "slot_of c key' = Some k"
      by (auto simp: load_order_def List.map_filter_def)
    with that slot_of_Some [OF assms(1)] Cons.prems show False by auto
  qed
  with Cons show ?case by (simp split: option.splits)
qed

text \<open>The blocks that the stored values hold, and the greatest event number among them.\<close>

definition stored_blocks :: "totem_config \<Rightarrow> (u8 list \<Rightarrow> u32) \<Rightarrow> (string \<rightharpoonup> u8 list) \<Rightarrow> totem_diag_block list" where
  "stored_blocks c crc flash = List.map_filter (flash_block c crc (flash \<circ> slot_key)) [0..<JOURNAL_SLOTS c]"

definition saved_seq :: "totem_config \<Rightarrow> (u8 list \<Rightarrow> u32) \<Rightarrow> (string \<rightharpoonup> u8 list) \<Rightarrow> u32" where
  "saved_seq c crc flash = fold max (map last_seq (stored_blocks c crc flash)) 0"

lemma set_stored_blocks: "set (stored_blocks c crc flash) = intact_blocks c crc (flash \<circ> slot_key) {..<JOURNAL_SLOTS c}"
  by (force simp: stored_blocks_def intact_blocks_def List.map_filter_def)

lemma saved_seq_Max:
  "saved_seq c crc flash = Max (insert 0 (last_seq ` intact_blocks c crc (flash \<circ> slot_key) {..<JOURNAL_SLOTS c}))"
proof -
  let ?xs = "map last_seq (stored_blocks c crc flash)"
  have "saved_seq c crc flash = fold max ?xs 0" by (simp add: saved_seq_def)
  also have "\<dots> = Max (set (0 # ?xs))" by (simp only: Max.set_eq_fold)
  also have "set (0 # ?xs) = insert 0 (last_seq ` intact_blocks c crc (flash \<circ> slot_key) {..<JOURNAL_SLOTS c})"
    by (simp add: set_stored_blocks)
  finally show ?thesis .
qed

lemma intact_blocks_absent:
  assumes "\<And>k. k \<in> ks - ls \<Longrightarrow> flash k = None" and "ls \<subseteq> ks"
  shows "intact_blocks c crc flash ls = intact_blocks c crc flash ks"
proof -
  have "flash_block c crc flash k = None" if "k \<in> ks - ls" for k using assms(1) [OF that] by (simp add: flash_block_def)
  then show ?thesis using assms(2) unfolding intact_blocks_def by fastforce
qed

lemma settings_load_seq:
  assumes "CONFIG_SETTINGS c" and "JOURNAL_SLOTS c \<le> 8" and "\<And>key. key \<in> dom flash \<Longrightarrow> NUL \<notin> set key"
    and "set order = dom flash" and "persisted_event_seq (b_journal s) = 0"
  shows "persisted_event_seq (b_journal (settings_load c crc flash order s)) = saved_seq c crc flash"
proof -
  let ?o = "load_order c flash order"
  have o: "set ?o = {k. k < JOURNAL_SLOTS c \<and> flash (slot_key k) \<noteq> None}"
    by (rule set_load_order [OF assms(2,4)])
  then have sub: "set ?o \<subseteq> {..<JOURNAL_SLOTS c}" by auto
  have "intact_blocks c crc (flash \<circ> slot_key) (set ?o) = intact_blocks c crc (flash \<circ> slot_key) {..<JOURNAL_SLOTS c}"
    by (rule intact_blocks_absent) (auto simp: o)
  with load_slots_counters [OF assms(2) sub, of crc "flash \<circ> slot_key" "b_journal s"] assms(5) show ?thesis
    by (simp add: settings_load_journal [OF assms(1-3)] saved_seq_Max del: Max_insert)
qed

section \<open>The journal through the boot\<close>

lemma load_slot_keeps:
  assumes "k < JOURNAL_SLOTS c" and "JOURNAL_SLOTS c \<le> 8" and "j' = load_slot c crc flash k j"
  shows "ring j' = ring j \<and> ring_head j' = ring_head j \<and> ring_count j' = ring_count j \<and> ring_seq j' = ring_seq j
    \<and> journal_ready j' = journal_ready j \<and> last_persist_uptime_ms j' = last_persist_uptime_ms j
    \<and> (next_slot j < JOURNAL_SLOTS c \<longrightarrow> next_slot j' < JOURNAL_SLOTS c)"
  using load_slot_None [OF assms(1,2), of crc flash j] load_slot_Some [OF assms(1,2), of crc flash _ j] assms(1,3)
  by (cases "flash_block c crc flash k") auto

lemma load_slots_keep:
  assumes "set ks \<subseteq> {..<JOURNAL_SLOTS c}" and "JOURNAL_SLOTS c \<le> 8" and "journal_inv c j" and "\<not> journal_ready j"
    and "j' = fold (load_slot c crc flash) ks j"
  shows "journal_inv c j' \<and> \<not> journal_ready j' \<and> ring_get_ordered j' = ring_get_ordered j
    \<and> ring_count j' = ring_count j \<and> last_persist_uptime_ms j' = last_persist_uptime_ms j"
  using assms
proof (induction ks arbitrary: j)
  case Nil
  then show ?case by simp
next
  case (Cons k ks)
  let ?j = "load_slot c crc flash k j"
  have k: "k < JOURNAL_SLOTS c" using Cons.prems(1) by simp
  note keep = load_slot_keeps [OF k Cons.prems(2) refl, of crc flash j]
  have "journal_inv c ?j" using keep Cons.prems(2-4) k by (simp add: journal_inv_def ring_inv_def)
  with Cons.IH [of ?j] Cons.prems keep show ?case by (simp add: ring_get_ordered_def)
qed

lemma history_inv_schedule [simp]:
  "history_inv c base hist saved fl (schedule_persist_coalesced c now u j) = history_inv c base hist saved fl j"
  by (simp add: history_inv_def journal_inv_def ring_inv_def ring_get_ordered_def split: option.split)

lemma history_inv_calls:
  assumes "history_inv c base hist saved fl j" and "base + length hist + length calls < 2 ^ 32 - 1"
  shows "history_inv c base (hist @ map stamped calls) saved fl (journal_calls c calls j)"
  using assms
proof (induction calls arbitrary: hist j)
  case Nil
  then show ?case by simp
next
  case (Cons r calls)
  let ?j = "totem_host_event_log_record c (fst r) (snd r) j"
  have "seq_room j" using Cons.prems by (simp add: history_inv_def seq_room_def)
  from history_inv_record [OF Cons.prems(1) this] have "history_inv c base (hist @ [stamped r]) saved fl ?j"
    by (simp add: totem_host_event_log_record_def stamped_def)
  from Cons.IH [OF this] Cons.prems(2) show ?case by (simp add: journal_calls_def case_prod_beta)
qed

text \<open>Events buffered before the settings are loaded, the load, and the post-load hook.\<close>

lemma loaded_journal:
  assumes "kconfig_ok c" and "set ks \<subseteq> {..<JOURNAL_SLOTS c}" and "CONFIG_SETTINGS c" and "\<not> boot_loaded bd"
    and "length early \<le> RING_CAP c" and "unat (persisted_event_seq j) + length early + 5 < 2 ^ 32 - 1"
    and "j = fold (load_slot c crc flash) ks (journal_calls c early (journal_boot c))"
    and "zmk_settings_loaded c crc now (j, bd) = (j', bd')"
  shows "\<exists>calls. map call_type calls = [TOTEM_HEVT_BOOT_RAW, TOTEM_HEVT_BOOT_COUNTER, TOTEM_HEVT_BOOT_PREVIOUS_UPTIME,
        TOTEM_HEVT_BOOT_PREVIOUS_STATE, TOTEM_HEVT_BOOT_RAM_STATUS]
    \<and> history_inv c (unat (persisted_event_seq j)) (map stamped (early @ map (Pair now) calls)) [] None j'
    \<and> persisted_event_seq j' = persisted_event_seq j \<and> last_persist_uptime_ms j' = 0
    \<and> boot_counter_count bd' = boot_counter_count bd + 1"
proof -
  let ?e = "journal_calls c early (journal_boot c)"
  have k: "0 < RING_CAP c" "0 < JOURNAL_SLOTS c" "JOURNAL_SLOTS c \<le> 8" "RING_CAP c \<le> 1024"
    using assms(1) by (simp_all add: kconfig_ok_def)
  have ring: "ring_inv c (journal_boot c)" using k by (simp add: ring_inv_boot)
  have cnt: "ring_count ?e = length early"
    using assms(5) journal_calls_count [of "journal_boot c" c early] by (simp add: journal_boot_def)
  have "unat (ring_seq ?e) = length early" using assms(5) k by (simp add: journal_boot_def unat_of_nat_small)
  moreover have "ring_inv c ?e" using ring by (rule journal_calls_ring_inv)
  ultimately have inv: "journal_inv c ?e" "\<not> journal_ready ?e"
    using k cnt assms(3) by (simp_all add: journal_inv_def) (simp_all add: journal_boot_def)
  have ro: "ring_get_ordered ?e = map stamped early"
    using journal_calls_ring [OF ring, of early] assms(5)
    by (simp add: ring_get_ordered_def ring_ordered_def journal_boot_def)
  note keep = load_slots_keep [OF assms(2) k(3) inv assms(7)]
  obtain t pend j1 where lk: "settings_loaded_locked c j = (t, pend, j1)" by (metis prod.exhaust)
  have h1: "history_inv c (unat (persisted_event_seq j)) (map stamped early) [] None j1"
    using history_inv_loaded [OF _ _ refl _ lk] keep assms(6) cnt ro by simp
  have f: "persisted_event_seq j1 = persisted_event_seq j" "last_persist_uptime_ms j1 = 0"
    using keep lk by (auto simp: settings_loaded_locked_def) (simp_all add: journal_boot_def)
  from loaded_first [OF assms(4)] obtain calls bd1
    where l: "totem_boot_diagnostics_loaded c crc now (previous_uptime t) (previous_profile t) (previous_endpoint t) (j1, bd)
        = (fold (totem_host_event_log_record c now) calls j1, bd1)"
      and types: "map call_type calls = [TOTEM_HEVT_BOOT_RAW, TOTEM_HEVT_BOOT_COUNTER, TOTEM_HEVT_BOOT_PREVIOUS_UPTIME,
        TOTEM_HEVT_BOOT_PREVIOUS_STATE, TOTEM_HEVT_BOOT_RAM_STATUS]"
      and bd1: "boot_counter_count bd1 = boot_counter_count bd + 1" by metis
  let ?k = "journal_calls c (map (Pair now) calls) j1"
  have res: "j' = (if pend then schedule_persist_coalesced c now True ?k else ?k)" "bd' = bd1"
    using assms(8) by (simp_all add: zmk_settings_loaded_def lk l journal_calls_now)
  have "length calls = 5" using arg_cong [OF types, of length] by simp
  with history_inv_calls [OF h1, of "map (Pair now) calls"] assms(6)
  have "history_inv c (unat (persisted_event_seq j)) (map stamped (early @ map (Pair now) calls)) [] None ?k" by simp
  with types bd1 f show ?thesis by (intro exI [of _ calls]) (simp add: res)
qed

section \<open>The init function\<close>

text \<open>The records of the reset-reason capture.\<close>

definition capture_calls :: "totem_config \<Rightarrow> reset_masks \<Rightarrow> int \<times> u32 \<Rightarrow> log_call list" where
  "capture_calls c R read =
     (if \<not> (CONFIG_TOTEM_RESET_REASON_CAPTURE c \<and> CONFIG_HWINFO c) then []
      else
        let result = word_of_int (fst read) :: u32;
            rec = log_args TOTEM_HEVT_BOOT_READ_RESULT (byte_of 0 result) (byte_of 1 result) 0 (byte_of 2 result) (byte_of 3 result)
        in if fst read \<noteq> 0 then [rec]
           else [rec, log_args TOTEM_HEVT_BOOT (- 1) (- 1) (compress_reset_cause R (snd read)) 0 0])"

lemma length_capture_calls: "length (capture_calls c R read) \<le> 2"
  by (simp add: capture_calls_def Let_def)

lemma capture_journal:
  "b_journal (totem_capture_reset_reason c R now read s)
     = journal_calls c (map (Pair now) (capture_calls c R read)) (b_journal s)"
  by (simp add: totem_capture_reset_reason_def capture_calls_def journal_calls_def Let_def case_prod_beta)

lemma capture_rest [simp]:
  "b_fault (totem_capture_reset_reason c R now read s) = b_fault s"
  "boot_loaded (b_diag (totem_capture_reset_reason c R now read s)) = boot_loaded (b_diag s)"
  "boot_counter_count (b_diag (totem_capture_reset_reason c R now read s)) = boot_counter_count (b_diag s)"
  "ram_survived (b_diag (totem_capture_reset_reason c R now read s)) = ram_survived (b_diag s)"
  by (simp_all add: totem_capture_reset_reason_def totem_boot_diagnostics_reset_result_def Let_def case_prod_beta)

lemma arm_console: "set (console w) \<subseteq> set (console (totem_watchdog_arm c d w))"
  by (auto simp: totem_watchdog_arm_def printk_def Let_def split: option.split prod.split)

lemma init_sealed:
  assumes "fault_valid crc (fault_rec (b_fault s))" and "s' = totem_watchdog_init c crc R now read bf d s"
    and "r = fault_rec (b_fault s)"
  shows "b_journal s' = journal_calls c (map (Pair now) (capture_calls c R read
        @ [log_args TOTEM_HEVT_BOOT_FAULT_STATUS (- 1) (- 1) 3 (fr_kind r) 0,
           log_args TOTEM_HEVT_FAULT (fr_channel r) (- 1) (ucast (fr_reason r)) 0 (fr_kind r)])) (b_journal s)"
    and "b_fault s' = \<lparr>fault_rec = r\<lparr>fr_magic := 0, fr_crc := 0\<rparr>, last_fault = r\<rparr>"
    and "fault_line r \<in> set (console (b_wdt s'))"
    and "boot_loaded (b_diag s') = boot_loaded (b_diag s)" and "ram_survived (b_diag s') = ram_survived (b_diag s)"
    and "boot_counter_count (b_diag s') = boot_counter_count (b_diag s)"
proof -
  note rep = report_sealed [OF assms(1), folded assms(3), of c bf]
  show "b_journal s' = journal_calls c (map (Pair now) (capture_calls c R read
        @ [log_args TOTEM_HEVT_BOOT_FAULT_STATUS (- 1) (- 1) 3 (fr_kind r) 0,
           log_args TOTEM_HEVT_FAULT (fr_channel r) (- 1) (ucast (fr_reason r)) 0 (fr_kind r)])) (b_journal s)"
    by (simp add: assms(2) totem_watchdog_init_def rep capture_journal journal_calls_def Let_def)
  show "b_fault s' = \<lparr>fault_rec = r\<lparr>fr_magic := 0, fr_crc := 0\<rparr>, last_fault = r\<rparr>"
    and "boot_loaded (b_diag s') = boot_loaded (b_diag s)" and "ram_survived (b_diag s') = ram_survived (b_diag s)"
    and "boot_counter_count (b_diag s') = boot_counter_count (b_diag s)"
    by (simp_all add: assms(2) totem_watchdog_init_def rep totem_boot_diagnostics_fault_status_def Let_def)
  let ?w = "totem_schedule_profile_dump c (printk (fault_line r) (b_wdt (totem_capture_reset_reason c R now read s)))"
  have "fault_line r \<in> set (console ?w)" by (simp add: totem_schedule_profile_dump_def printk_def)
  then show "fault_line r \<in> set (console (b_wdt s'))"
    using arm_console [of ?w c d] by (auto simp: assms(2) totem_watchdog_init_def rep Let_def)
qed

section \<open>A boot after a fault\<close>

lemma settings_set_keeps [simp]:
  "ram_survived (snd (boot_settings_set crc name len rd bd)) = ram_survived bd"
  "boot_loaded (snd (boot_settings_set crc name len rd bd)) = boot_loaded bd"
  by (simp_all add: boot_settings_set_def counter_read_def Let_def case_prod_beta)

lemma settings_load_keeps [simp]:
  "ram_survived (b_diag (settings_load c crc flash order s)) = ram_survived (b_diag s)"
  "boot_loaded (b_diag (settings_load c crc flash order s)) = boot_loaded (b_diag s)"
  by (induction order arbitrary: s) (simp_all add: settings_deliver_def split: option.splits)

lemma loaded_ram [simp]: "ram_survived (snd (zmk_settings_loaded c crc now jb)) = ram_survived (snd jb)"
  by (simp add: zmk_settings_loaded_def totem_boot_diagnostics_loaded_def Let_def case_prod_beta)

text \<open>Where the stored values come from: every key is a C string and is delivered once.\<close>

definition storage_ok :: "(string \<rightharpoonup> u8 list) \<Rightarrow> string list \<Rightarrow> bool" where
  "storage_ok flash order \<longleftrightarrow> distinct order \<and> set order = dom flash \<and> (\<forall>key \<in> set order. NUL \<notin> set key)"

definition fault_call :: "totem_fault_record \<Rightarrow> log_call" where
  "fault_call r = log_args TOTEM_HEVT_FAULT (fr_channel r) (- 1) (ucast (fr_reason r)) 0 (fr_kind r)"

text \<open>The state when the settings are loaded, before the post-load hook.\<close>

lemma boot_until_loaded:
  assumes "kconfig_ok c" and "CONFIG_SETTINGS c" and "storage_ok flash order"
    and "r = fault_rec (b_fault s)" and "fault_valid crc r"
    and "s' = totem_boot c crc R i flash order (soft_reset c s)"
  obtains s4 pre where "length pre \<le> 3"
    and "b_journal s4 = fold (load_slot c crc (flash \<circ> slot_key)) (load_order c flash order)
      (journal_calls c (map (Pair (in_now i)) (pre @ [fault_call r]) @ in_early i) (journal_boot c))"
    and "persisted_event_seq (b_journal s4) = saved_seq c crc flash" and "\<not> boot_loaded (b_diag s4)"
    and "ram_survived (b_diag s4) = ram_survived (boot_capture_early c (in_raw i)
           (boot_diag_init (boot_ram_magic (b_diag s)) (boot_ram_inverse (b_diag s))))"
    and "boot_counter_count (b_diag s4) = stored_count crc (flash ''tboot/count'')"
    and "fault_line r \<in> set (console (b_wdt s4))"
    and "b_fault s4 = \<lparr>fault_rec = r\<lparr>fr_magic := 0, fr_crc := 0\<rparr>, last_fault = r\<rparr>"
    and "s' = (let (j, bd) = zmk_settings_loaded c crc (in_loaded i) (b_journal s4, b_diag s4)
               in s4\<lparr>b_journal := j, b_diag := bd\<rparr>)"
proof -
  have cap: "JOURNAL_SLOTS c \<le> 8" using assms(1) by (simp add: kconfig_ok_def)
  have ord: "distinct order" "set order = dom flash" "\<And>key. key \<in> dom flash \<Longrightarrow> NUL \<notin> set key"
    using assms(3) by (auto simp: storage_ok_def)
  let ?s0 = "soft_reset c s"
  define s1 where "s1 = ?s0\<lparr>b_diag := boot_capture_early c (in_raw i) (b_diag ?s0)\<rparr>"
  define s2 where "s2 = totem_watchdog_init c crc R (in_now i) (in_read i) (in_crash i) (in_driver i) s1"
  define s4 where "s4 = settings_load c crc flash order (s2\<lparr>b_journal := journal_calls c (in_early i) (b_journal s2)\<rparr>)"
  have start: "b_journal s1 = journal_boot c" "fault_rec (b_fault s1) = r" "\<not> boot_loaded (b_diag s1)"
    "ram_survived (b_diag s1) = ram_survived (boot_capture_early c (in_raw i)
       (boot_diag_init (boot_ram_magic (b_diag s)) (boot_ram_inverse (b_diag s))))"
    by (simp_all add: s1_def soft_reset_def fault_soft_reset_def assms(4))
      (simp_all add: boot_capture_early_def boot_diag_init_def Let_def)
  note init = init_sealed [of crc s1 s2 c R "in_now i" "in_read i" "in_crash i" "in_driver i" r, unfolded start(2),
      OF assms(5) s2_def refl]
  let ?pre = "capture_calls c R (in_read i) @ [log_args TOTEM_HEVT_BOOT_FAULT_STATUS (- 1) (- 1) 3 (fr_kind r) 0]"
  let ?early = "map (Pair (in_now i)) (?pre @ [fault_call r]) @ in_early i"
  have early: "journal_calls c (in_early i) (b_journal s2) = journal_calls c ?early (journal_boot c)"
    by (simp add: init(1) start(1) journal_calls_def fault_call_def)
  have j4: "b_journal s4 = fold (load_slot c crc (flash \<circ> slot_key)) (load_order c flash order)
      (journal_calls c ?early (journal_boot c))"
    unfolding s4_def using settings_load_journal [OF assms(2) cap ord(3)] early by simp
  have seq: "persisted_event_seq (b_journal s4) = saved_seq c crc flash"
    unfolding s4_def using init(1) start(1)
    by (intro settings_load_seq [OF assms(2) cap ord(3) ord(2)]) (simp_all add: journal_boot_def)
  have new: "\<not> boot_loaded (b_diag s2)" using init(4) start(3) by simp
  have zero: "boot_counter_count (b_diag s2) = 0"
    using init(6) by (simp add: s1_def soft_reset_def boot_capture_early_def boot_diag_init_def Let_def)
  have count: "boot_counter_count (b_diag s4) = stored_count crc (flash ''tboot/count'')"
  proof (cases "flash ''tboot/count''")
    case None
    then have "''tboot/count'' \<notin> set order" using ord(2) by auto
    with zero None show ?thesis unfolding s4_def by (simp add: settings_load_counter_none [OF assms(2)] stored_count_def)
  next
    case (Some v)
    then have "''tboot/count'' \<in> set order" using ord(2) by auto
    note sl = settings_load_counter [where flash = flash, OF assms(2) ord(1) this Some]
    show ?thesis unfolding s4_def sl using settings_set_stored [of "b_diag s2" crc v] new zero by (simp add: Some)
  qed
  have "length ?pre \<le> 3" using length_capture_calls [of c R "in_read i"] by simp
  from that [OF this j4 seq _ _ count] new init(2,3,5) start(4) show ?thesis
    by (simp add: assms(6) totem_boot_def s1_def [symmetric] s2_def [symmetric] s4_def [symmetric] Let_def)
      (simp add: s4_def)
qed

lemma boot_after_fault:
  assumes "kconfig_ok c" and "CONFIG_SETTINGS c" and "storage_ok flash order"
    and "r = fault_rec (b_fault s)" and "fault_valid crc r"
    and "length (in_early i) + 9 \<le> RING_CAP c" and "unat (saved_seq c crc flash) + length (in_early i) + 9 < 2 ^ 32 - 1"
    and "s' = totem_boot c crc R i flash order (soft_reset c s)"
  obtains hist n where "history_inv c (unat (saved_seq c crc flash)) hist [] None (b_journal s')"
    and "length hist \<le> RING_CAP c" and "n \<le> 3" and "n < length hist"
    and "hist ! n = call_event (word_of_int (in_now i)) (fault_call r)"
    and "unat (saved_seq c crc flash) + length hist < 2 ^ 32 - 1"
    and "persisted_event_seq (b_journal s') = saved_seq c crc flash" and "last_persist_uptime_ms (b_journal s') = 0"
    and "fault_line r \<in> set (console (b_wdt s'))" and "fr_magic (fault_rec (b_fault s')) = 0" and "last_fault (b_fault s') = r"
    and "ram_survived (b_diag s') = ram_survived (boot_capture_early c (in_raw i)
           (boot_diag_init (boot_ram_magic (b_diag s)) (boot_ram_inverse (b_diag s))))"
    and "boot_counter_count (b_diag s') = stored_count crc (flash ''tboot/count'') + 1"
proof -
  have cap: "JOURNAL_SLOTS c \<le> 8" "set order = dom flash"
    using assms(1,3) by (simp_all add: kconfig_ok_def storage_ok_def)
  from boot_until_loaded [OF assms(1-5,8)] obtain s4 pre where pre: "length pre \<le> 3"
    and j4: "b_journal s4 = fold (load_slot c crc (flash \<circ> slot_key)) (load_order c flash order)
      (journal_calls c (map (Pair (in_now i)) (pre @ [fault_call r]) @ in_early i) (journal_boot c))"
    and seq: "persisted_event_seq (b_journal s4) = saved_seq c crc flash" and new: "\<not> boot_loaded (b_diag s4)"
    and rest: "ram_survived (b_diag s4) = ram_survived (boot_capture_early c (in_raw i)
           (boot_diag_init (boot_ram_magic (b_diag s)) (boot_ram_inverse (b_diag s))))"
      "boot_counter_count (b_diag s4) = stored_count crc (flash ''tboot/count'')"
      "fault_line r \<in> set (console (b_wdt s4))" "b_fault s4 = \<lparr>fault_rec = r\<lparr>fr_magic := 0, fr_crc := 0\<rparr>, last_fault = r\<rparr>"
    and s'0: "s' = (let (j, bd) = zmk_settings_loaded c crc (in_loaded i) (b_journal s4, b_diag s4)
               in s4\<lparr>b_journal := j, b_diag := bd\<rparr>)" by blast
  obtain j bd' where z: "zmk_settings_loaded c crc (in_loaded i) (b_journal s4, b_diag s4) = (j, bd')" by (metis prod.exhaust)
  have s': "s' = s4\<lparr>b_journal := j, b_diag := bd'\<rparr>" by (simp add: s'0 z)
  let ?early = "map (Pair (in_now i)) (pre @ [fault_call r]) @ in_early i"
  have len: "length ?early + 5 \<le> RING_CAP c" "unat (saved_seq c crc flash) + length ?early + 5 < 2 ^ 32 - 1"
    using assms(6,7) pre by simp_all
  then have fits: "length ?early \<le> RING_CAP c" "unat (persisted_event_seq (b_journal s4)) + length ?early + 5 < 2 ^ 32 - 1"
    unfolding seq by simp_all
  have sub: "set (load_order c flash order) \<subseteq> {..<JOURNAL_SLOTS c}" using set_load_order [OF cap] by auto
  from loaded_journal [OF assms(1) sub assms(2) new fits j4 z, unfolded seq] obtain calls
    where types: "map call_type calls = [TOTEM_HEVT_BOOT_RAW, TOTEM_HEVT_BOOT_COUNTER, TOTEM_HEVT_BOOT_PREVIOUS_UPTIME,
        TOTEM_HEVT_BOOT_PREVIOUS_STATE, TOTEM_HEVT_BOOT_RAM_STATUS]"
      and hi: "history_inv c (unat (saved_seq c crc flash)) (map stamped (?early @ map (Pair (in_loaded i)) calls)) [] None j"
      and jf: "persisted_event_seq j = saved_seq c crc flash" "last_persist_uptime_ms j = 0"
      and cnt: "boot_counter_count bd' = boot_counter_count (b_diag s4) + 1"
    by (elim exE conjE) (rule that; assumption)
  let ?hist = "map stamped (?early @ map (Pair (in_loaded i)) calls)"
  have five: "length calls = 5" using arg_cong [OF types, of length] by simp
  have nth: "?hist ! length pre = call_event (word_of_int (in_now i)) (fault_call r)"
    by (simp add: nth_append stamped_def)
  have "ram_survived (b_diag s') = ram_survived (b_diag s4)"
    using loaded_ram [of c crc "in_loaded i" "(b_journal s4, b_diag s4)"] by (simp add: s' z)
  with hi jf pre nth len five rest cnt show ?thesis
    by (intro that [of ?hist "length pre"]) (simp_all add: s')
qed

section \<open>Properties\<close>

text \<open>
  C4. A hang is still known after the reset it ends in: when one of the three watchdog channels
  expires, the following boot (whatever the storage holds, in whatever order it is loaded, and
  whatever other modules record meanwhile) prints which subsystem stopped, places the fault
  record among its first four journal records with a number above every record saved before,
  knows that the memory survived, has retired the fault for the boot after, and counts the boot: one
  more than the stored count when the storage holds an intact counter, otherwise (no counter yet, or a
  damaged one) as the first. The keys of the storage are C strings, each delivered once; the numbers
  of the journal are not used up.
\<close>

theorem hang_survives_reset:
  assumes "kconfig_ok c" and "CONFIG_SETTINGS c" and "storage_ok flash order"
    and "(chan_sched (b_wdt s), chan_workq (b_wdt s), chan_timer (b_wdt s)) = (a, b, t)"
    and "distinct [a, b, t]" and "list_all (\<lambda>ch. 0 \<le> ch \<and> ch < 128) [a, b, t]"
    and "(channel, label) \<in> {(a, ''sched''), (b, ''sysworkq''), (t, ''timer'')}"
    and "boot_ram_magic (b_diag s) = BOOT_RAM_MAGIC" and "boot_ram_inverse (b_diag s) = NOT BOOT_RAM_MAGIC"
    and "length (in_early i) + 9 \<le> RING_CAP c" and "unat (saved_seq c crc flash) + length (in_early i) + 9 < 2 ^ 32 - 1"
    and "s' = totem_boot c crc R i flash order (soft_reset c (totem_task_wdt_cb crc hang tid name channel s))"
  shows "''totem_fault HANG task_wdt channel='' @ fmt_d channel @ '' ('' @ label @ '') stopped feeding; at_uptime=''
        @ fmt_u hang @ '' ms'' \<in> set (console (b_wdt s'))
    \<and> (\<exists>n \<le> 3. n < ring_count (b_journal s')
         \<and> ring_get_ordered (b_journal s') ! n
             = call_event (word_of_int (in_now i)) (log_args TOTEM_HEVT_FAULT (to_i8 channel) (- 1) 0 0 2))
    \<and> unat (ring_seq (b_journal s')) = unat (saved_seq c crc flash) + ring_count (b_journal s')
    \<and> (\<forall>n. flash ''tboot/count'' = Some (bytes32 n @ bytes32 (crc (bytes32 n))) \<longrightarrow> boot_counter_count (b_diag s') = n + 1)
    \<and> ((\<forall>n. flash ''tboot/count'' \<noteq> Some (bytes32 n @ bytes32 (crc (bytes32 n)))) \<longrightarrow> boot_counter_count (b_diag s') = 1)
    \<and> ram_survived (b_diag s') = 1
    \<and> fr_magic (fault_rec (b_fault s')) = 0"
proof -
  let ?s = "totem_task_wdt_cb crc hang tid name channel s"
  define r where "r = fault_rec (b_fault ?s)"
  have lbl: "chan_label (b_wdt s) channel = label" using assms(4,5,7) by (auto simp: chan_label_def)
  have ch: "- 128 \<le> channel" "channel < 128" using assms(6,7) by auto
  have "label \<in> {''sched'', ''sysworkq'', ''timer''}" using assms(7) by auto
  then have l: "NUL \<notin> set label" "length label < 20" by (auto simp: NUL_def)
  have valid: "fault_valid crc r"
    by (simp add: r_def totem_task_wdt_cb_def totem_fault_note_task_wdt_def fault_envelope.seal_valid Let_def)
  have f: "fr_kind r = 2" "fr_channel r = to_i8 channel" "fr_reason r = 0" "fr_uptime_ms r = hang" "fr_label r = copy_label label"
    by (simp_all add: r_def totem_task_wdt_cb_def totem_fault_note_task_wdt_def lbl Let_def)
  have line: "fault_line r = ''totem_fault HANG task_wdt channel='' @ fmt_d channel @ '' ('' @ label
        @ '') stopped feeding; at_uptime='' @ fmt_u hang @ '' ms''"
    using f ch l by (simp add: fault_line_def c_text_copy_label cast_simps)
  have diag: "b_diag ?s = b_diag s" by (simp add: totem_task_wdt_cb_def)
  from boot_after_fault [OF assms(1-3) r_def valid assms(10-12)] obtain hist n
    where h: "history_inv c (unat (saved_seq c crc flash)) hist [] None (b_journal s')" "length hist \<le> RING_CAP c"
      "n \<le> 3" "n < length hist" "hist ! n = call_event (word_of_int (in_now i)) (fault_call r)"
      and out: "fault_line r \<in> set (console (b_wdt s'))" "fr_magic (fault_rec (b_fault s')) = 0"
      "ram_survived (b_diag s') = ram_survived (boot_capture_early c (in_raw i)
           (boot_diag_init (boot_ram_magic (b_diag ?s)) (boot_ram_inverse (b_diag ?s))))"
      and cnt: "boot_counter_count (b_diag s') = stored_count crc (flash ''tboot/count'') + 1" by metis
  have ring: "ring_get_ordered (b_journal s') = hist" using h(1,2) by (simp add: history_inv_def)
  have count: "ring_count (b_journal s') = length hist"
    unfolding ring [symmetric] by (simp add: ring_get_ordered_def)
  have "ram_survived (b_diag s') = 1"
    using assms(8,9) by (simp add: out(3) diag boot_capture_early_def boot_diag_init_def bool_u8_def Let_def)
  moreover have "unat (ring_seq (b_journal s')) = unat (saved_seq c crc flash) + length hist"
    using h(1) by (simp add: history_inv_def)
  moreover have "hist ! n = call_event (word_of_int (in_now i)) (log_args TOTEM_HEVT_FAULT (to_i8 channel) (- 1) 0 0 2)"
    using h(5) f by (simp add: fault_call_def)
  moreover have "\<forall>n. flash ''tboot/count'' = Some (counter_value crc n) \<longrightarrow> boot_counter_count (b_diag s') = n + 1"
    using cnt by (simp add: stored_count_value)
  moreover have "(\<forall>n. flash ''tboot/count'' \<noteq> Some (counter_value crc n)) \<longrightarrow> boot_counter_count (b_diag s') = 1"
    using cnt by (simp add: stored_count_other)
  ultimately show ?thesis using out(1,2) h(3,4) unfolding line ring count counter_value_def by blast
qed

text \<open>A left half whose system work queue stopped, with one saved block and a counter of 41 boots.\<close>

definition demo_counter :: boot_diag where
  "demo_counter = seal_counter (\<lambda>_. 7) ((boot_diag_init 0 0)\<lparr>boot_counter_count := 41\<rparr>)"

definition demo_settings :: "string \<rightharpoonup> u8 list" where
  "demo_settings = [''tboot/count'' \<mapsto> counter_bytes demo_counter, ''th/dlog/1'' \<mapsto> block_bytes (demo_block 1 2 30)]"

definition demo_running :: boot_state where
  "demo_running = \<lparr>b_wdt = wdt_boot\<lparr>chan_sched := 0, chan_workq := 1, chan_timer := 2\<rparr>,
     b_fault = \<lparr>fault_rec = zero_fault, last_fault = zero_fault\<rparr>,
     b_diag = boot_diag_init BOOT_RAM_MAGIC (NOT BOOT_RAM_MAGIC), b_journal = journal_boot minimal_config\<rparr>"

definition demo_inputs :: boot_inputs where
  "demo_inputs = \<lparr>in_raw = 2, in_now = 12, in_read = (0, 16), in_crash = None,
     in_driver = \<lparr>dev_ready = Some True, wdt_init = 0, wdt_add = (0, 1, 2)\<rparr>,
     in_early = [(15, log_args TOTEM_HEVT_ADV 0 0 0 0 0)], in_loaded = 40\<rparr>"

lemma demo_storage_ok: "storage_ok demo_settings [''th/dlog/1'', ''tboot/count'']"
  by (auto simp: storage_ok_def demo_settings_def NUL_def)

lemma demo_saved_seq: "saved_seq minimal_config (\<lambda>_. 7) demo_settings = 30"
proof -
  let ?f = "demo_settings \<circ> slot_key"
  have ev: "length (blk_ev (demo_block k js f)) = BLOCK_EVENTS minimal_config" for k js f
    by (simp add: demo_block_def seal_block_def zero_block_def)
  have key: "slot_key 0 = ''th/dlog/0''" "slot_key (Suc 0) = ''th/dlog/1''" "slot_key 2 = ''th/dlog/2''" "slot_key 3 = ''th/dlog/3''"
    by code_simp+
  have "block_acceptable minimal_config (\<lambda>_. 7) 1 (int (block_size minimal_config)) (demo_block 1 2 30)"
    by (simp add: block_acceptable_def demo_block_def seal_block_def zero_block_def minimal_config_def)
  then have b: "flash_block minimal_config (\<lambda>_. 7) ?f (Suc 0) = Some (demo_block 1 2 30)"
    by (simp add: flash_block_code key demo_settings_def block_of_bytes_inverse [OF ev] length_block_bytes [OF ev])
  have none: "flash_block minimal_config (\<lambda>_. 7) ?f k = None" if "k \<in> {0, 2, 3}" for k
    using that by (auto simp: flash_block_code key demo_settings_def)
  have "[0..<JOURNAL_SLOTS minimal_config] = [0, Suc 0, 2, 3]" by (simp add: minimal_config_def upt_rec)
  then show ?thesis
    by (simp add: saved_seq_def stored_blocks_def b none)
      (simp add: last_seq_def demo_block_def seal_block_def)
qed

theorem hang_survives_reset_witness:
  "let s' = totem_boot minimal_config (\<lambda>_. 7) demo_masks demo_inputs demo_settings [''th/dlog/1'', ''tboot/count'']
       (soft_reset minimal_config (totem_task_wdt_cb (\<lambda>_. 7) 77 0x20001000 None 1 demo_running))
   in ''totem_fault HANG task_wdt channel=1 (sysworkq) stopped feeding; at_uptime=77 ms'' \<in> set (console (b_wdt s'))
      \<and> unat (ring_seq (b_journal s')) = 30 + ring_count (b_journal s') \<and> boot_counter_count (b_diag s') = 42"
proof -
  have k: "CONFIG_SETTINGS minimal_config" "length (in_early demo_inputs) + 9 \<le> RING_CAP minimal_config"
    by (simp_all add: minimal_config_def totem_left_config_def demo_inputs_def)
  have q: "unat (saved_seq minimal_config (\<lambda>_. 7) demo_settings) + length (in_early demo_inputs) + 9 < 2 ^ 32 - 1"
    unfolding demo_saved_seq by (simp add: demo_inputs_def)
  have w: "(chan_sched (b_wdt demo_running), chan_workq (b_wdt demo_running), chan_timer (b_wdt demo_running)) = (0, 1, 2)"
    "boot_ram_magic (b_diag demo_running) = BOOT_RAM_MAGIC" "boot_ram_inverse (b_diag demo_running) = NOT BOOT_RAM_MAGIC"
    by (simp_all add: demo_running_def boot_diag_init_def)
  have ch: "distinct [0, 1, 2 :: int]" "list_all (\<lambda>ch. 0 \<le> ch \<and> ch < 128) [0, 1, 2 :: int]"
    "(1 :: int, ''sysworkq'') \<in> {(0, ''sched''), (1, ''sysworkq''), (2, ''timer'')}" by simp_all
  have "counter_bytes demo_counter = counter_value (\<lambda>_. 7) 41"
    unfolding demo_counter_def by (subst sealed_counter_bytes [OF counter_envelope.seal_valid]) (simp add: seal_counter_def)
  then have cnt: "demo_settings ''tboot/count'' = Some (bytes32 41 @ bytes32 ((\<lambda>_. 7) (bytes32 41)))"
    by (simp add: demo_settings_def counter_value_def)
  have d: "fmt_d 1 = ''1''" "fmt_u (77 :: u32) = ''77''" by code_simp+
  have line: "''totem_fault HANG task_wdt channel='' @ fmt_d 1 @ '' ('' @ ''sysworkq'' @ '') stopped feeding; at_uptime=''
      @ fmt_u (77 :: u32) @ '' ms'' = ''totem_fault HANG task_wdt channel=1 (sysworkq) stopped feeding; at_uptime=77 ms''"
    by (simp add: d)
  have n: "unat (30 :: u32) = 30" "(41 :: u32) + 1 = 42" by simp_all
  note h = hang_survives_reset [OF kconfig_ok_minimal k(1) demo_storage_ok w(1) ch w(2,3) k(2) q refl,
      where R = demo_masks and hang = 77 and tid = "0x20001000" and name = None, unfolded line demo_saved_seq n(1)]
  show ?thesis unfolding Let_def using h cnt n(2) by (elim conjE allE [of _ 41]) (intro conjI; simp)
qed

text \<open>
  C6. The fault reaches flash with the first write: after a boot that found a sealed fault record
  (a crash or a hang), the first run of the journal's writer, at any time, is neither deferred nor
  empty; the block it stores is intact when it is read back and contains the fault under a number
  above every record that the storage held, so that the evidence outlives the next power failure.
\<close>

theorem fault_reaches_flash:
  assumes "kconfig_ok c" and "CONFIG_SETTINGS c" and "storage_ok flash order"
    and "fault_valid crc (fault_rec (b_fault s))"
    and "length (in_early i) + 9 \<le> RING_CAP c" and "unat (saved_seq c crc flash) + length (in_early i) + 9 < 2 ^ 32 - 1"
    and "s' = totem_boot c crc R i flash order (soft_reset c s)"
  shows "\<exists>slot blk q j n. persist_copy c crc now (b_journal s') = (Persist_write slot blk q, j)
    \<and> flash_block c crc ((flash \<circ> slot_key)(slot \<mapsto> block_bytes blk)) slot = Some blk
    \<and> (n, call_event (word_of_int (in_now i)) (fault_call (fault_rec (b_fault s)))) \<in> set (block_events blk)
    \<and> saved_seq c crc flash < n"
proof -
  let ?S = "saved_seq c crc flash" and ?j = "b_journal s'" and ?e = "call_event (word_of_int (in_now i)) (fault_call (fault_rec (b_fault s)))"
  from boot_after_fault [OF assms(1-3) refl assms(4-7)] obtain hist n
    where h: "history_inv c (unat ?S) hist [] None ?j" "length hist \<le> RING_CAP c" "n \<le> 3" "n < length hist" "hist ! n = ?e"
      "unat ?S + length hist < 2 ^ 32 - 1" "persisted_event_seq ?j = ?S" "last_persist_uptime_ms ?j = 0" by metis
  have k: "RING_CAP c \<le> 1024" "8 \<le> BLOCK_EVENTS c" "BLOCK_EVENTS c \<le> 32" using assms(1) by (simp_all add: kconfig_ok_def)
  have inv: "journal_inv c ?j" "journal_ready ?j" and R: "unat (ring_seq ?j) = unat ?S + length hist"
    and ring: "ring_get_ordered ?j = hist" using h(1,2) by (simp_all add: history_inv_def)
  have room: "seq_room ?j" using R h(6) by (simp add: seq_room_def)
  have cnt: "ring_count ?j = length hist" unfolding ring [symmetric] by (simp add: ring_get_ordered_def)
  have F: "unat (first_new ?j) = unat ?S + 1" using unat_first_new [OF inv(1) room inv(2)] cnt R h(7) by simp
  have "\<not> first_new ?j > ring_seq ?j" using F R h(4) by (auto simp: word_less_nat_alt)
  then obtain slot blk q j where copy: "persist_copy c crc now ?j = (Persist_write slot blk q, j)"
    using inv(2) h(8) by (auto simp: persist_copy_def Let_def)
  from persist_copy_writeE [OF copy inv(1) room] k obtain count where b: "blk = make_block c crc count ?j"
    and count: "count = min (unat (ring_seq ?j) + 1 - unat (first_new ?j)) (BLOCK_EVENTS c)"
    and le: "unat (first_new ?j) + count \<le> unat (ring_seq ?j) + 1" by auto
  have n: "n < count" using h(3,4) k(2) by (simp add: count F R)
  note entry = fresh_entry(1) [OF h(1) room k(1) n le] fresh_entry(2) [OF h(1) room k(1) n le, of crc]
  have "(first_new ?j + of_nat n, ?e) \<in> set (block_events blk)"
    using n entry(2) h(5) F k(3) by (auto simp: b block_events_make_block count)
  moreover have "?S < first_new ?j + of_nat n" unfolding word_less_nat_alt entry(1) F by simp
  ultimately show ?thesis using copy persist_write_flash(1) [OF copy inv(1) room assms(1), of "flash \<circ> slot_key"] by blast
qed

theorem fault_reaches_flash_witness:
  "let s' = totem_boot minimal_config (\<lambda>_. 7) demo_masks demo_inputs demo_settings [''th/dlog/1'', ''tboot/count'']
       (soft_reset minimal_config (totem_task_wdt_cb (\<lambda>_. 7) 77 0x20001000 None 1 demo_running))
   in \<exists>slot blk q j n. persist_copy minimal_config (\<lambda>_. 7) 60 (b_journal s') = (Persist_write slot blk q, j)
      \<and> (n, call_event 12 (log_args TOTEM_HEVT_FAULT 1 (- 1) 0 0 2)) \<in> set (block_events blk) \<and> 30 < n"
proof -
  let ?s = "totem_task_wdt_cb (\<lambda>_. 7) 77 0x20001000 None 1 demo_running"
  have k: "CONFIG_SETTINGS minimal_config" "length (in_early demo_inputs) + 9 \<le> RING_CAP minimal_config" "in_now demo_inputs = 12"
    by (simp_all add: minimal_config_def totem_left_config_def demo_inputs_def)
  have q: "unat (saved_seq minimal_config (\<lambda>_. 7) demo_settings) + length (in_early demo_inputs) + 9 < 2 ^ 32 - 1"
    unfolding demo_saved_seq by (simp add: demo_inputs_def)
  have v: "fault_valid (\<lambda>_. 7) (fault_rec (b_fault ?s))"
    by (simp add: totem_task_wdt_cb_def totem_fault_note_task_wdt_def fault_envelope.seal_valid Let_def)
  have f: "fault_call (fault_rec (b_fault ?s)) = log_args TOTEM_HEVT_FAULT 1 (- 1) 0 0 2"
    by (simp add: fault_call_def totem_task_wdt_cb_def totem_fault_note_task_wdt_def to_i8_def Let_def)
  from fault_reaches_flash [OF kconfig_ok_minimal k(1) demo_storage_ok v k(2) q refl, where R = demo_masks and now = 60]
  show ?thesis unfolding Let_def f k(3) demo_saved_seq by auto
qed

end
