(* ===== verification/Dump_Request.thy ===== *)
theory Dump_Request
  imports Journal_Dump Boot_Sequence
begin

text \<open>
  How a dump is requested and served, the end of \<open>src/host_event_log.c\<close>: the key behavior
  \<open>&host_log_dump\<close> and the Studio frame submit one work item to a queue of its own, whose handler
  writes the dump. The item is Zephyr's \<open>k_work\<close>: submitting it while it is queued changes nothing,
  and it is no longer queued when its handler starts.
\<close>

section \<open>The service\<close>

record dump_service =
  dump_queue_started :: bool
  dump_work_queued :: bool
  ds_link :: link

definition dump_service_boot :: "link \<Rightarrow> dump_service" where
  "dump_service_boot w = \<lparr>dump_queue_started = False, dump_work_queued = False, ds_link = w\<rparr>"

definition host_diag_dump_init :: "dump_service \<Rightarrow> dump_service" where
  "host_diag_dump_init s = s\<lparr>dump_queue_started := True\<rparr>"

text \<open>A queue that was not started refuses the item (\<open>-ENODEV\<close>, ignored).\<close>

definition totem_host_event_log_request_dump :: "dump_service \<Rightarrow> dump_service" where
  "totem_host_event_log_request_dump s = (if dump_queue_started s then s\<lparr>dump_work_queued := True\<rparr> else s)"

definition ZMK_BEHAVIOR_OPAQUE :: int where [simp]: "ZMK_BEHAVIOR_OPAQUE = 0"

definition on_dump_pressed :: "dump_service \<Rightarrow> int \<times> dump_service" where
  "on_dump_pressed s = (ZMK_BEHAVIOR_OPAQUE, totem_host_event_log_request_dump s)"

definition on_dump_released :: "dump_service \<Rightarrow> int \<times> dump_service" where
  "on_dump_released s = (ZMK_BEHAVIOR_OPAQUE, s)"

text \<open>
  \<open>now\<close> is the uptime that identifies the dump; the boot state, the fault record and the journal are
  read when the handler runs.
\<close>

definition dump_work_handler ::
  "totem_config \<Rightarrow> u32 \<Rightarrow> boot_diag \<Rightarrow> fault_state \<Rightarrow> journal \<Rightarrow> dump_service \<Rightarrow> dump_service" where
  "dump_work_handler c now bd fs j s = s\<lparr>ds_link := totem_host_event_log_dump c now bd fs j (ds_link s)\<rparr>"

text \<open>One turn of the queue's thread.\<close>

definition dump_queue_turn ::
  "totem_config \<Rightarrow> u32 \<Rightarrow> boot_diag \<Rightarrow> fault_state \<Rightarrow> journal \<Rightarrow> dump_service \<Rightarrow> dump_service" where
  "dump_queue_turn c now bd fs j s =
     (if dump_work_queued s then dump_work_handler c now bd fs j (s\<lparr>dump_work_queued := False\<rparr>) else s)"

section \<open>Key events\<close>

datatype dump_key = Dump_press | Dump_release

primrec dump_key_step :: "dump_key \<Rightarrow> dump_service \<Rightarrow> dump_service" where
  "dump_key_step Dump_press s = snd (on_dump_pressed s)"
| "dump_key_step Dump_release s = snd (on_dump_released s)"

lemma keys_queue:
  "dump_queue_started s \<Longrightarrow>
   fold dump_key_step keys s = s\<lparr>dump_work_queued := (dump_work_queued s \<or> Dump_press \<in> set keys)\<rparr>"
proof (induction keys arbitrary: s)
  case Nil
  then show ?case by simp
next
  case (Cons k keys)
  then show ?case
    by (cases k) (simp_all add: on_dump_pressed_def on_dump_released_def totem_host_event_log_request_dump_def)
qed

lemma numbered_member: "d \<in> set ds \<Longrightarrow> \<exists>ordinal. data_line did ordinal d \<in> set (numbered did k ds)"
  by (induction ds arbitrary: k) auto

text \<open>The reset-cause result that the boot line prints.\<close>

lemma load_reset_result [simp]:
  "reset_read_result (b_diag (settings_load c crc flash order s)) = reset_read_result (b_diag s)"
  by (induction order arbitrary: s)
    (simp_all add: settings_deliver_def boot_settings_set_def counter_read_def Let_def case_prod_beta split: option.splits)

lemma boot_reset_result:
  "reset_read_result (b_diag (totem_boot c crc R i flash order (soft_reset c s)))
     = (if CONFIG_TOTEM_RESET_REASON_CAPTURE c \<and> CONFIG_HWINFO c then fst (in_read i) else 0)"
  by (simp add: totem_boot_def zmk_settings_loaded_def totem_boot_diagnostics_loaded_def totem_watchdog_init_def
      totem_boot_diagnostics_fault_status_def totem_capture_reset_reason_def totem_boot_diagnostics_reset_result_def
      boot_capture_early_def soft_reset_def boot_diag_init_def Let_def case_prod_beta)

lemma patient_ready: "patient k b (replicate k (True, 0))"
  by (induction k arbitrary: b) simp_all

section \<open>Properties\<close>

text \<open>
  C23. Requests are served and coalesce: however often the key is pressed and released before the
  dump thread runs, as soon as there was one press the thread sends exactly one complete dump on a
  link that accepts every line in time, nothing stays queued, and the next turn sends nothing; without a
  press it sends nothing at all.
\<close>

theorem dump_requests_served:
  assumes "kconfig_ok c" and "- (2 ^ 31) \<le> reset_read_result bd" and "reset_read_result bd < 2 ^ 31"
    and "link_patient c (length (dump_script c now bd fs j)) w"
    and "s = fold dump_key_step keys (host_diag_dump_init (dump_service_boot w))"
    and "s' = dump_queue_turn c now bd fs j s"
  shows "sent (ds_link s') = sent w @ (if Dump_press \<in> set keys then dump_script c now bd fs j else [])
    \<and> \<not> dump_work_queued s' \<and> dump_queue_turn c now2 bd2 fs2 j2 s' = s'"
proof -
  have s: "s = \<lparr>dump_queue_started = True, dump_work_queued = (Dump_press \<in> set keys), ds_link = w\<rparr>"
    unfolding assms(5) by (subst keys_queue) (simp_all add: host_diag_dump_init_def dump_service_boot_def)
  from dump_delivers [OF assms(1-3), of now fs j] assms(4)
  have "sent (totem_host_event_log_dump c now bd fs j w) = sent w @ dump_script c now bd fs j"
    unfolding delivers_def by fastforce
  then show ?thesis by (simp add: assms(6) s dump_queue_turn_def dump_work_handler_def)
qed

theorem dump_requests_served_witness:
  "let w = \<lparr>answers = [(True, 0), (False, 0), (True, - 11), (True, 0), (True, 0), (True, 0)], sent = []\<rparr>;
       fs = \<lparr>fault_rec = zero_fault, last_fault = zero_fault\<rparr>;
       s = fold dump_key_step [Dump_press, Dump_release, Dump_press] (host_diag_dump_init (dump_service_boot w))
   in length (sent (ds_link (dump_queue_turn minimal_config 9 (boot_diag_init 0 0) fs (journal_boot minimal_config) s))) = 4"
proof -
  let ?w = "\<lparr>answers = [(True, 0), (False, 0), (True, - 11), (True, 0), (True, 0), (True, 0)], sent = []\<rparr>"
  let ?fs = "\<lparr>fault_rec = zero_fault, last_fault = zero_fault\<rparr>" and ?keys = "[Dump_press, Dump_release, Dump_press]"
  have r: "- (2 ^ 31) \<le> reset_read_result (boot_diag_init 0 0)" "reset_read_result (boot_diag_init 0 0) < 2 ^ 31"
    by (simp_all add: boot_diag_init_def)
  have len: "length (dump_script minimal_config 9 (boot_diag_init 0 0) ?fs (journal_boot minimal_config)) = 4"
    by (simp add: length_script demo_dump_details zero_fault_def)
  have "link_patient minimal_config 4 ?w" by (simp add: link_patient_def numeral_eq_Suc)
  then have "link_patient minimal_config (length (dump_script minimal_config 9 (boot_diag_init 0 0) ?fs (journal_boot minimal_config))) ?w"
    by (simp only: len)
  from dump_requests_served [OF kconfig_ok_minimal r this refl refl, of ?keys] len show ?thesis by (simp add: Let_def)
qed

text \<open>
  The evidence of a fault can be read out after the reset: when a boot has found a sealed fault
  record, a dump over a link that accepts every line in time contains the line with the saved fault
  and, among its numbered lines, the journal event of that fault.
\<close>

theorem fault_dumped:
  assumes "kconfig_ok c" and "CONFIG_SETTINGS c" and "CONFIG_TOTEM_FAULT_CAPTURE c" and "storage_ok flash order"
    and "r = fault_rec (b_fault s)" and "fault_valid crc r" and "fr_kind r \<noteq> 0"
    and "length (in_early i) + 9 \<le> RING_CAP c" and "unat (saved_seq c crc flash) + length (in_early i) + 9 < 2 ^ 32 - 1"
    and "s' = totem_boot c crc R i flash order (soft_reset c s)"
    and "- (2 ^ 31) \<le> fst (in_read i)" and "fst (in_read i) < 2 ^ 31"
    and "link_patient c (length (dump_script c did (b_diag s') (b_fault s') (b_journal s'))) w"
    and "lines = sent (totem_host_event_log_dump c did (b_diag s') (b_fault s') (b_journal s') w)"
  shows "saved_fault_line r \<in> set lines
    \<and> (\<exists>ordinal q. data_line did ordinal
          (event_detail (call_event (word_of_int (in_now i)) (fault_call r)) CHR ''r'' 0 q) \<in> set lines)"
proof -
  let ?j = "b_journal s'" and ?e = "call_event (word_of_int (in_now i)) (fault_call r)"
  from boot_after_fault [OF assms(1,2,4-6,8-10)] obtain hist n
    where h: "history_inv c (unat (saved_seq c crc flash)) hist [] None ?j" "length hist \<le> RING_CAP c"
      "n < length hist" "hist ! n = ?e" "last_fault (b_fault s') = r" by metis
  have ring: "ring_get_ordered ?j = hist" using h(1,2) by (simp add: history_inv_def)
  have "(ring_seq ?j - of_nat (length hist) + of_nat n + 1, ?e) \<in> set (ram_events ?j)"
    using h(3,4) by (auto simp: ram_events_def ring intro: image_eqI [of _ _ n])
  then obtain q where "event_detail ?e CHR ''r'' 0 q \<in> set (dump_details c ?j)" by (force simp: dump_details_def)
  from numbered_member [OF this] obtain ordinal
    where d: "data_line did ordinal (event_detail ?e CHR ''r'' 0 q) \<in> set (numbered did 0 (dump_details c ?j))" by metis
  have "- (2 ^ 31) \<le> reset_read_result (b_diag s')" "reset_read_result (b_diag s') < 2 ^ 31"
    using assms(11,12) by (simp_all add: assms(10) boot_reset_result)
  from dump_delivers [OF assms(1) this, of did "b_fault s'" ?j] assms(13,14)
  have "lines = sent w @ dump_script c did (b_diag s') (b_fault s') ?j" unfolding delivers_def by fastforce
  then show ?thesis using assms(3,7) d h(5) by (auto simp: dump_script_def)
qed

theorem fault_dumped_witness:
  "let s = totem_task_wdt_cb (\<lambda>_. 7) 77 0x20001000 None 1 demo_running;
       s' = totem_boot minimal_config (\<lambda>_. 7) demo_masks demo_inputs demo_settings [''th/dlog/1'', ''tboot/count'']
              (soft_reset minimal_config s)
   in \<exists>w. sent w = [] \<and> saved_fault_line (fault_rec (b_fault s))
        \<in> set (sent (totem_host_event_log_dump minimal_config 90 (b_diag s') (b_fault s') (b_journal s') w))"
proof -
  let ?s = "totem_task_wdt_cb (\<lambda>_. 7) 77 0x20001000 None 1 demo_running"
  let ?b = "totem_boot minimal_config (\<lambda>_. 7) demo_masks demo_inputs demo_settings [''th/dlog/1'', ''tboot/count'']
      (soft_reset minimal_config ?s)"
  let ?w = "\<lparr>answers = replicate (length (dump_script minimal_config 90 (b_diag ?b) (b_fault ?b) (b_journal ?b))) (True, 0),
      sent = []\<rparr>"
  have k: "CONFIG_SETTINGS minimal_config" "CONFIG_TOTEM_FAULT_CAPTURE minimal_config"
    "length (in_early demo_inputs) + 9 \<le> RING_CAP minimal_config"
    by (simp_all add: minimal_config_def totem_left_config_def demo_inputs_def)
  have q: "unat (saved_seq minimal_config (\<lambda>_. 7) demo_settings) + length (in_early demo_inputs) + 9 < 2 ^ 32 - 1"
    unfolding demo_saved_seq by (simp add: demo_inputs_def)
  have v: "fault_valid (\<lambda>_. 7) (fault_rec (b_fault ?s))"
    by (simp add: totem_task_wdt_cb_def totem_fault_note_task_wdt_def fault_envelope.seal_valid Let_def)
  have f: "fr_kind (fault_rec (b_fault ?s)) \<noteq> 0"
    by (simp add: totem_task_wdt_cb_def totem_fault_note_task_wdt_def Let_def)
  have r: "- (2 ^ 31) \<le> fst (in_read demo_inputs)" "fst (in_read demo_inputs) < 2 ^ 31" by (simp_all add: demo_inputs_def)
  have p: "link_patient minimal_config (length (dump_script minimal_config 90 (b_diag ?b) (b_fault ?b) (b_journal ?b))) ?w"
    by (simp add: link_patient_def patient_ready)
  from fault_dumped [OF kconfig_ok_minimal k(1,2) demo_storage_ok refl v f k(3) q refl r p refl]
  show ?thesis unfolding Let_def by (intro exI [of _ ?w]) simp
qed

end
