(* ===== verification/Studio_Frames.thy ===== *)
theory Studio_Frames
  imports Prelude
begin

text \<open>
  The framing of the Studio serial stream as \<open>tools/read_diag_dump.py\<close> writes and reads it:
  \<open>frame\<close> and the class \<open>Deframer\<close>. The generator \<open>feed\<close> yields one payload per end byte; here a
  chunk of bytes gives the list of the payloads it completes, and the state that waits for the next
  chunk.
\<close>

section \<open>Frames\<close>

definition SOF :: u8 where "SOF = 0xAB"
definition ESC :: u8 where "ESC = 0xAC"
definition EOF :: u8 where "EOF = 0xAD"

lemma frame_bytes_distinct [simp]:
  "SOF \<noteq> ESC" "ESC \<noteq> SOF" "SOF \<noteq> EOF" "EOF \<noteq> SOF" "ESC \<noteq> EOF" "EOF \<noteq> ESC"
  by (simp_all add: SOF_def ESC_def EOF_def)

definition frame_byte :: "u8 \<Rightarrow> u8 list" where
  "frame_byte b = (if b = SOF \<or> b = ESC \<or> b = EOF then [ESC] else []) @ [b]"

definition frame :: "u8 list \<Rightarrow> u8 list" where
  "frame payload = [SOF] @ concat (map frame_byte payload) @ [EOF]"

record deframer =
  df_active :: bool
  df_escaped :: bool
  df_payload :: "u8 list"

definition deframer_init :: deframer where
  "deframer_init = \<lparr>df_active = False, df_escaped = False, df_payload = []\<rparr>"

definition deframe_byte :: "u8 \<Rightarrow> deframer \<Rightarrow> u8 list list \<times> deframer" where
  "deframe_byte b d =
     (if \<not> df_active d
      then ([], if b = SOF then d\<lparr>df_active := True, df_payload := []\<rparr> else d)
      else
        let (out, d1) =
          (if df_escaped d then ([], d\<lparr>df_payload := df_payload d @ [b], df_escaped := False\<rparr>)
           else if b = ESC then ([], d\<lparr>df_escaped := True\<rparr>)
           else if b = SOF then ([], d\<lparr>df_payload := []\<rparr>)
           else if b = EOF then ([df_payload d], d\<lparr>df_active := False, df_payload := []\<rparr>)
           else ([], d\<lparr>df_payload := df_payload d @ [b]\<rparr>))
        in (out, if length (df_payload d1) > 512
                 then d1\<lparr>df_active := False, df_escaped := False, df_payload := []\<rparr> else d1))"

primrec deframe :: "u8 list \<Rightarrow> deframer \<Rightarrow> u8 list list \<times> deframer" where
  "deframe [] d = ([], d)"
| "deframe (b # bs) d =
     (let (out, d1) = deframe_byte b d; (outs, d2) = deframe bs d1 in (out @ outs, d2))"

section \<open>Chunks do not matter\<close>

lemma deframe_append:
  "deframe (bs @ cs) d = (let (ps, d1) = deframe bs d; (qs, d2) = deframe cs d1 in (ps @ qs, d2))"
  by (induction bs arbitrary: d) (simp_all add: case_prod_beta)

section \<open>What was framed is read back\<close>

lemma deframe_body:
  assumes "df_active d" and "\<not> df_escaped d" and "length (df_payload d @ payload) \<le> 512"
  shows "deframe (concat (map frame_byte payload)) d
    = ([], d\<lparr>df_payload := df_payload d @ payload\<rparr>)"
  using assms
proof (induction payload arbitrary: d)
  case Nil
  then show ?case by simp
next
  case (Cons b payload)
  let ?d = "d\<lparr>df_payload := df_payload d @ [b]\<rparr>"
  have "deframe (frame_byte b) d = ([], ?d)"
    using Cons.prems by (auto simp: deframe_byte_def frame_byte_def)
  then show ?case using Cons.IH [of ?d] Cons.prems by (simp add: deframe_append)
qed

text \<open>Between frames: nothing is pending, whatever was received before.\<close>

definition between_frames :: "deframer \<Rightarrow> bool" where
  "between_frames d \<longleftrightarrow> \<not> df_active d \<and> \<not> df_escaped d"

lemma deframe_frame:
  assumes "between_frames d" and "length payload \<le> 512"
  shows "fst (deframe (frame payload) d) = [payload]" "between_frames (snd (deframe (frame payload) d))"
proof -
  let ?d = "d\<lparr>df_active := True, df_payload := []\<rparr>"
  have start: "deframe [SOF] d = ([], ?d)" using assms(1) by (simp add: deframe_byte_def between_frames_def)
  have "\<not> df_escaped ?d" using assms(1) by (simp add: between_frames_def)
  then have "deframe (concat (map frame_byte payload)) ?d
      = ([], ?d\<lparr>df_payload := payload\<rparr>)" using deframe_body [of ?d payload] assms(2) by simp
  moreover have "deframe [EOF] (?d\<lparr>df_payload := payload\<rparr>) = ([payload], ?d\<lparr>df_active := False\<rparr>)"
    using assms(1) by (simp add: deframe_byte_def between_frames_def)
  ultimately have "deframe (frame payload) d = ([payload], ?d\<lparr>df_active := False\<rparr>)"
    unfolding frame_def by (simp add: deframe_append start del: deframe.simps append.simps)
  then show "fst (deframe (frame payload) d) = [payload]" "between_frames (snd (deframe (frame payload) d))"
    using assms(1) by (simp_all add: between_frames_def)
qed

lemma deframe_frames:
  assumes "between_frames d" and "\<forall>p \<in> set ps. length p \<le> 512"
  shows "fst (deframe (concat (map frame ps)) d) = ps"
  using assms
  by (induction ps arbitrary: d) (simp_all add: deframe_append case_prod_beta deframe_frame)

text \<open>Whatever the bytes, a payload never grows beyond the limit.\<close>

lemma deframe_byte_bounded:
  assumes "length (df_payload d) \<le> 512"
  shows "length (df_payload (snd (deframe_byte b d))) \<le> 512" "p \<in> set (fst (deframe_byte b d)) \<Longrightarrow> length p \<le> 512"
  using assms by (auto simp: deframe_byte_def Let_def split: if_splits)

lemma deframe_bounded:
  "length (df_payload d) \<le> 512 \<Longrightarrow> p \<in> set (fst (deframe bs d)) \<Longrightarrow> length p \<le> 512"
  by (induction bs arbitrary: d) (auto simp: case_prod_beta dest: deframe_byte_bounded)

end
