(* ===== verification/Line_Scan.thy ===== *)
theory Line_Scan
  imports Format
begin

text \<open>
  Reading back what \<open>snprintk\<close> printed. The lines of the diagnostics are literal text with decimal
  numbers in between; a pattern is the list of these pieces, and matching one takes the maximal run
  of digits for a number. That is what a regular expression of the shape \<open>text(\d+)text(\d+)\<close> does
  when, as in all of them, no number is followed by a digit. Lines are ASCII.
\<close>

section \<open>Numbers\<close>

definition is_digit :: "char \<Rightarrow> bool" where
  "is_digit ch \<longleftrightarrow> 48 \<le> (of_char ch :: nat) \<and> (of_char ch :: nat) \<le> 57"

definition number_of_digits :: "string \<Rightarrow> nat" where
  "number_of_digits ds = foldl (\<lambda>n ch. 10 * n + (of_char ch - 48)) 0 ds"

definition scan_number :: "string \<Rightarrow> (nat \<times> string) option" where
  "scan_number s = (let ds = takeWhile is_digit s in
     if ds = [] then None else Some (number_of_digits ds, dropWhile is_digit s))"

definition scan_text :: "string \<Rightarrow> string \<Rightarrow> string option" where
  "scan_text t s = (if take (length t) s = t then Some (drop (length t) s) else None)"

text \<open>The text cannot continue the number before it.\<close>

fun ends_number :: "string \<Rightarrow> bool" where
  "ends_number [] = True"
| "ends_number (ch # s) = (\<not> is_digit ch)"

lemma digit_char_of: "d < 10 \<Longrightarrow> (of_char (digit_char d) :: nat) = 48 + d"
  by (simp add: digit_char_def)

lemma dec_digits: "ch \<in> set (dec n) \<Longrightarrow> is_digit ch"
proof (induction n rule: dec.induct)
  case (1 n)
  then show ?case by (subst (asm) dec.simps) (auto simp: is_digit_def digit_char_of split: if_splits)
qed

lemma number_of_dec [simp]: "number_of_digits (dec n) = n"
proof (induction n rule: dec.induct)
  case (1 n)
  then show ?case by (subst dec.simps) (auto simp: number_of_digits_def digit_char_of)
qed

lemma dec_nonempty [simp]: "dec n \<noteq> []"
  using length_dec_pos [of n] by auto

lemma scan_dec: "ends_number rest \<Longrightarrow> scan_number (dec n @ rest) = Some (n, rest)"
proof -
  assume e: "ends_number rest"
  have "takeWhile is_digit rest = []" "dropWhile is_digit rest = rest" using e by (cases rest; simp)+
  then have "takeWhile is_digit (dec n @ rest) = dec n" "dropWhile is_digit (dec n @ rest) = rest"
    using dec_digits [of _ n] by (simp_all add: takeWhile_append dropWhile_append)
  then show ?thesis by (simp add: scan_number_def)
qed

lemma scan_text_append [simp]: "scan_text t (t @ s) = Some s"
  by (simp add: scan_text_def)

section \<open>Patterns\<close>

datatype piece = Text string | Number

primrec scan_pieces :: "piece list \<Rightarrow> string \<Rightarrow> (nat list \<times> string) option" where
  "scan_pieces [] s = Some ([], s)"
| "scan_pieces (p # ps) s = (case p of
      Text t \<Rightarrow> (case scan_text t s of None \<Rightarrow> None | Some rest \<Rightarrow> scan_pieces ps rest)
    | Number \<Rightarrow> (case scan_number s of None \<Rightarrow> None
        | Some (n, rest) \<Rightarrow> (case scan_pieces ps rest of None \<Rightarrow> None | Some (ns, end) \<Rightarrow> Some (n # ns, end))))"

text \<open>The text a pattern stands for, with the given numbers.\<close>

fun print_pieces :: "piece list \<Rightarrow> nat list \<Rightarrow> string" where
  "print_pieces (Text t # ps) ns = t @ print_pieces ps ns"
| "print_pieces (Number # ps) (n # ns) = dec n @ print_pieces ps ns"
| "print_pieces ps ns = []"

fun numbers :: "piece list \<Rightarrow> nat" where
  "numbers [] = 0"
| "numbers (Number # ps) = Suc (numbers ps)"
| "numbers (Text t # ps) = numbers ps"

text \<open>No number is followed by a digit; \<open>rest\<close> follows the whole.\<close>

fun separated :: "piece list \<Rightarrow> string \<Rightarrow> bool" where
  "separated [] rest = True"
| "separated [Number] rest = ends_number rest"
| "separated (Number # Text t # ps) rest = (t \<noteq> [] \<and> ends_number t \<and> separated (Text t # ps) rest)"
| "separated (Number # Number # ps) rest = False"
| "separated (Text t # ps) rest = separated ps rest"

lemma ends_number_append: "t \<noteq> [] \<Longrightarrow> ends_number (t @ s) = ends_number t"
  by (cases t) simp_all

lemma scan_print:
  "separated ps rest \<Longrightarrow> length ns = numbers ps \<Longrightarrow> scan_pieces ps (print_pieces ps ns @ rest) = Some (ns, rest)"
proof (induction ps rest arbitrary: ns rule: separated.induct)
  case (2 rest)
  then obtain n where "ns = [n]" by (cases ns) auto
  with 2 show ?case by (simp add: scan_dec)
next
  case (3 t ps rest)
  then obtain n ms where ns: "ns = n # ms" by (cases ns) auto
  with 3 have IH: "scan_pieces (Text t # ps) (print_pieces (Text t # ps) ms @ rest) = Some (ms, rest)" by simp
  have "scan_number (dec n @ (t @ print_pieces ps ms @ rest)) = Some (n, t @ print_pieces ps ms @ rest)"
    using 3 by (intro scan_dec) (simp add: ends_number_append)
  with IH ns show ?case by simp
qed simp_all

section \<open>Printed numbers are unambiguous\<close>

lemma dec_append_inj:
  assumes "dec m @ r = dec n @ s" and "ends_number r" and "ends_number s"
  shows "m = n \<and> r = s"
  using scan_dec [OF assms(2), of m] scan_dec [OF assms(3), of n] unfolding assms(1) by simp

lemma fmt_u_append_inj:
  fixes v w :: "'a::len word"
  assumes "fmt_u v @ r = fmt_u w @ s" and "ends_number r" and "ends_number s"
  shows "v = w \<and> r = s"
  using dec_append_inj [of "unat v" r "unat w" s] assms by (simp add: fmt_u_def word_unat_eq_iff)

lemma dec_first: "\<exists>ch rest. dec n = ch # rest \<and> is_digit ch"
  using dec_nonempty [of n] dec_digits [of _ n] by (cases "dec n") auto

lemma minus_no_digit [simp]: "\<not> is_digit CHR ''-''"
  by (simp add: is_digit_def)

lemma fmt_d_append_inj:
  assumes "fmt_d i @ r = fmt_d j @ s" and "ends_number r" and "ends_number s"
  shows "i = j \<and> r = s"
proof -
  have sign: "(i < 0) = (j < 0)"
    using assms(1) dec_first [of "nat i"] dec_first [of "nat j"]
    by (auto simp: fmt_d_def split: if_splits)
  show ?thesis
  proof (cases "i < 0")
    case True
    with sign assms dec_append_inj [of "nat (- i)" r "nat (- j)" s] show ?thesis by (auto simp: fmt_d_def)
  next
    case False
    with sign assms dec_append_inj [of "nat i" r "nat j" s] show ?thesis by (auto simp: fmt_d_def)
  qed
qed

end
