(* ===== verification/Dump_Receiver.thy ===== *)
theory Dump_Receiver
  imports Journal_Dump Studio_Frames Line_Scan
begin

text \<open>
  The other end of a dump, \<open>tools/read_diag_dump.py\<close>: the regular expressions of the dump's lines,
  the class \<open>DumpVerifier\<close> and the loop of \<open>main\<close> with its exit code. The loop's input is the list
  of the chunks \<open>port.read\<close> returned before the deadline. \<open>bytes.decode("utf-8", "replace")\<close> is a
  parameter of which only its behaviour on ASCII is used; \<open>zmk_studio_log_send_line\<close> of the
  \<open>zmk-studio-log\<close> module sends a line as one frame, the letter L and the line.
\<close>

section \<open>The lines\<close>

definition at_line_end :: "string \<Rightarrow> bool" where
  "at_line_end s \<longleftrightarrow> s = [] \<or> s = [CHR 0x0A]"

definition BEGIN_pieces :: "piece list" where
  "BEGIN_pieces = [Text ''totem_diag begin id='', Number, Text '' lines='', Number, Text '' blocks='', Number,
     Text '' persisted='', Number, Text '' ram='', Number, Text '' seq='', Number]"

definition DATA_pieces :: "piece list" where
  "DATA_pieces = [Text ''totem_diag d='', Number, Text '' n='', Number, Text '' '']"

definition END_pieces :: "piece list" where
  "END_pieces = [Text ''totem_diag end id='', Number, Text '' lines='', Number, Text '' status=ok'']"

text \<open>The numbers of the groups; \<open>(.+)$\<close> is at least one character and no line feed before the end.\<close>

definition begin_match :: "string \<Rightarrow> nat list option" where
  "begin_match line = (case scan_pieces BEGIN_pieces line of None \<Rightarrow> None
     | Some (groups, rest) \<Rightarrow> if at_line_end rest then Some groups else None)"

definition data_match :: "string \<Rightarrow> nat list option" where
  "data_match line = (case scan_pieces DATA_pieces line of None \<Rightarrow> None
     | Some (groups, rest) \<Rightarrow>
         let text = (if rest \<noteq> [] \<and> last rest = CHR 0x0A then butlast rest else rest)
         in if text \<noteq> [] \<and> CHR 0x0A \<notin> set text then Some groups else None)"

definition end_match :: "string \<Rightarrow> nat list option" where
  "end_match line = (case scan_pieces END_pieces line of None \<Rightarrow> None
     | Some (groups, rest) \<Rightarrow> if at_line_end rest then Some groups else None)"

section \<open>The verifier\<close>

datatype dump_error = Begin_counts_disagree | Expected_line nat nat | Expected_lines nat nat

record dump_verifier =
  dv_id :: "nat option"
  dv_expected :: nat
  dv_next_line :: nat
  dv_error :: "dump_error option"
  dv_complete :: bool

text \<open>\<open>expected\<close> is only read once \<open>dump_id\<close> is set, and both are set together.\<close>

definition verifier_init :: dump_verifier where
  "verifier_init = \<lparr>dv_id = None, dv_expected = 0, dv_next_line = 0, dv_error = None, dv_complete = False\<rparr>"

definition verifier_begin :: "nat list \<Rightarrow> dump_verifier" where
  "verifier_begin g = \<lparr>dv_id = Some (g ! 0), dv_expected = g ! 1, dv_next_line = 0,
     dv_error = (if g ! 1 \<noteq> g ! 2 + g ! 3 + g ! 4 then Some Begin_counts_disagree else None),
     dv_complete = False\<rparr>"

definition verifier_data :: "nat \<Rightarrow> dump_verifier \<Rightarrow> dump_verifier" where
  "verifier_data ordinal v = v\<lparr>
     dv_error := (if ordinal \<noteq> dv_next_line v \<and> dv_error v = None
       then Some (Expected_line (dv_next_line v) ordinal) else dv_error v),
     dv_next_line := ordinal + 1\<rparr>"

definition verifier_end :: "nat \<Rightarrow> dump_verifier \<Rightarrow> dump_verifier" where
  "verifier_end lines v =
     (let error = (if lines \<noteq> dv_expected v \<or> dv_next_line v \<noteq> dv_expected v
          then (case dv_error v of Some x \<Rightarrow> Some x | None \<Rightarrow> Some (Expected_lines (dv_expected v) (dv_next_line v)))
          else dv_error v)
      in v\<lparr>dv_error := error, dv_complete := (error = None)\<rparr>)"

definition feed_end :: "nat \<Rightarrow> string \<Rightarrow> dump_verifier \<Rightarrow> bool \<times> dump_verifier" where
  "feed_end did line v = (case end_match line of
      Some e \<Rightarrow> if e ! 0 = did then (True, verifier_end (e ! 1) v) else (False, v)
    | None \<Rightarrow> (False, v))"

definition verifier_feed :: "string \<Rightarrow> dump_verifier \<Rightarrow> bool \<times> dump_verifier" where
  "verifier_feed line v =
     (case begin_match line of Some g \<Rightarrow> (True, verifier_begin g)
      | None \<Rightarrow>
        (case dv_id v of None \<Rightarrow> (False, v)
         | Some did \<Rightarrow>
           (case data_match line of
              Some d \<Rightarrow> if d ! 0 = did then (True, verifier_data (d ! 1) v) else feed_end did line v
            | None \<Rightarrow> feed_end did line v)))"

section \<open>The loop\<close>

definition line_byte :: u8 where "line_byte = 76"

text \<open>The payloads of one chunk: exit code once there is one, printed lines, verifier.\<close>

primrec receive ::
  "(u8 list \<Rightarrow> string) \<Rightarrow> u8 list list \<Rightarrow> dump_verifier \<Rightarrow> nat option \<times> string list \<times> dump_verifier" where
  "receive decode [] v = (None, [], v)"
| "receive decode (payload # payloads) v =
     (if payload = [] \<or> hd payload \<noteq> line_byte then receive decode payloads v
      else
        let line = decode (tl payload); (recognized, v1) = verifier_feed line v;
            out = (if recognized \<or> take 18 line = ''totem_fault saved '' \<or> take 11 line = ''totem_boot '' then [line] else [])
        in if dv_complete v1 then (Some 0, out, v1)
           else if recognized \<and> end_match line \<noteq> None then (Some 1, out, v1)
           else let (code, outs, v2) = receive decode payloads v1 in (code, out @ outs, v2))"

primrec read_loop ::
  "(u8 list \<Rightarrow> string) \<Rightarrow> u8 list list \<Rightarrow> deframer \<Rightarrow> dump_verifier \<Rightarrow> nat \<times> string list" where
  "read_loop decode [] d v = (1, [])"
| "read_loop decode (chunk # chunks) d v =
     (let (payloads, d1) = deframe chunk d; (code, out, v1) = receive decode payloads v
      in case code of Some k \<Rightarrow> (k, out)
         | None \<Rightarrow> let (k, outs) = read_loop decode chunks d1 v1 in (k, out @ outs))"

definition read_diag_dump :: "(u8 list \<Rightarrow> string) \<Rightarrow> u8 list list \<Rightarrow> nat \<times> string list" where
  "read_diag_dump decode chunks = read_loop decode chunks deframer_init verifier_init"

section \<open>What the firmware prints is what the receiver reads\<close>

lemma begin_line_print:
  "begin_line did e b p n q = print_pieces BEGIN_pieces [unat did, unat e, unat b, unat p, unat n, unat q]"
  by (simp add: begin_line_def BEGIN_pieces_def fmt_u_def)

lemma end_line_print: "end_line did n = print_pieces END_pieces [unat did, unat n]"
  by (simp add: end_line_def END_pieces_def fmt_u_def)

lemma data_line_print: "data_line did n d = print_pieces DATA_pieces [unat did, unat n] @ d"
  by (simp add: data_line_def DATA_pieces_def fmt_u_def)

lemma pieces_separated:
  "separated BEGIN_pieces []" "separated END_pieces []" "separated DATA_pieces d"
  by (simp_all add: BEGIN_pieces_def END_pieces_def DATA_pieces_def is_digit_def)

lemma pieces_numbers: "numbers BEGIN_pieces = 6" "numbers END_pieces = 2" "numbers DATA_pieces = 2"
  by (simp_all add: BEGIN_pieces_def END_pieces_def DATA_pieces_def)

lemma begin_match_begin [simp]:
  "begin_match (begin_line did e b p n q) = Some [unat did, unat e, unat b, unat p, unat n, unat q]"
  using scan_print [OF pieces_separated(1), of "[unat did, unat e, unat b, unat p, unat n, unat q]"]
  by (simp add: begin_match_def begin_line_print pieces_numbers at_line_end_def)

lemma end_match_end [simp]: "end_match (end_line did n) = Some [unat did, unat n]"
  using scan_print [OF pieces_separated(2), of "[unat did, unat n]"]
  by (simp add: end_match_def end_line_print pieces_numbers at_line_end_def)

lemma data_match_data:
  assumes "d \<noteq> []" and "CHR 0x0A \<notin> set d"
  shows "data_match (data_line did n d) = Some [unat did, unat n]"
proof -
  have "last d \<noteq> CHR 0x0A" using assms last_in_set [of d] by metis
  then show ?thesis
    using scan_print [OF pieces_separated(3), of "[unat did, unat n]" d] assms
    by (simp add: data_match_def data_line_print pieces_numbers)
qed

text \<open>Each line is of one kind only.\<close>

lemmas match_defs = begin_match_def data_match_def end_match_def BEGIN_pieces_def DATA_pieces_def END_pieces_def

lemma other_kinds [simp]:
  "begin_match (data_line did n d) = None" "begin_match (end_line did n) = None"
  "data_match (end_line did n) = None" "end_match (data_line did n d) = None"
  "end_match (begin_line did e b p k q) = None" "data_match (begin_line did e b p k q) = None"
  by (simp_all add: match_defs data_line_def end_line_def begin_line_def scan_text_def)

definition dump_text :: "string \<Rightarrow> bool" where
  "dump_text line \<longleftrightarrow> begin_match line \<noteq> None \<or> data_match line \<noteq> None \<or> end_match line \<noteq> None"

lemma status_lines_not_dump [simp]:
  "\<not> dump_text (totem_boot_diagnostics_format previous bd)" "\<not> dump_text (saved_fault_line r)"
  by (simp_all add: dump_text_def match_defs totem_boot_diagnostics_format_def saved_fault_line_def scan_text_def)

lemma dump_text_lines [simp]: "dump_text (begin_line did e b p k q)" "dump_text (end_line did n)"
  by (simp_all add: dump_text_def)

section \<open>ASCII\<close>

definition ascii :: "string \<Rightarrow> bool" where
  "ascii s \<longleftrightarrow> (\<forall>ch \<in> set s. (of_char ch :: nat) < 128)"

definition ascii_bytes :: "string \<Rightarrow> u8 list" where
  "ascii_bytes s = map of_char s"

definition decodes_ascii :: "(u8 list \<Rightarrow> string) \<Rightarrow> bool" where
  "decodes_ascii decode \<longleftrightarrow> (\<forall>s. ascii s \<longrightarrow> decode (ascii_bytes s) = s)"

lemma ascii_simps [simp]:
  "ascii []" "ascii (ch # s) \<longleftrightarrow> (of_char ch :: nat) < 128 \<and> ascii s" "ascii (s @ t) \<longleftrightarrow> ascii s \<and> ascii t"
  by (auto simp: ascii_def)

lemma ascii_fmt [simp]: "ascii (dec n)" "ascii (fmt_u w)" "ascii (fmt_d i)" "ascii (fmt_08x x)"
proof -
  show d: "ascii (dec n)" for n using dec_digits by (fastforce simp: ascii_def is_digit_def)
  show "ascii (fmt_u w)" "ascii (fmt_d i)" by (simp_all add: fmt_u_def fmt_d_def d)
  have "m < 16 \<Longrightarrow> (of_char (hex_char m) :: nat) < 128" for m by (simp add: hex_char_def)
  then show "ascii (fmt_08x x)" by (simp add: ascii_def fmt_08x_def)
qed

definition clean_text :: "string \<Rightarrow> bool" where
  "clean_text s \<longleftrightarrow> s \<noteq> [] \<and> CHR 0x0A \<notin> set s \<and> ascii s"

lemma fmt_no_newline [simp]: "CHR 0x0A \<notin> set (fmt_u w)" "CHR 0x0A \<notin> set (fmt_d i)"
proof -
  have "CHR 0x0A \<notin> set (dec n)" for n using dec_digits by (fastforce simp: is_digit_def)
  then show "CHR 0x0A \<notin> set (fmt_u w)" "CHR 0x0A \<notin> set (fmt_d i)" by (simp_all add: fmt_u_def fmt_d_def)
qed

lemma details_clean: "d \<in> set (dump_details c j) \<Longrightarrow> clean_text d"
  by (auto simp: dump_details_def slot_details_def clean_text_def event_detail_def block_detail_def split: if_splits)

lemma script_ascii: "line \<in> set (dump_script c did bd fs j) \<Longrightarrow> ascii line"
proof -
  have num: "l \<in> set (numbered did ordinal ds) \<Longrightarrow> \<forall>d \<in> set ds. ascii d \<Longrightarrow> ascii l" for l ordinal ds
    by (induction ds arbitrary: ordinal) (auto simp: data_line_def)
  have "\<forall>d \<in> set (dump_details c j). ascii d" using details_clean by (simp add: clean_text_def)
  then show "line \<in> set (dump_script c did bd fs j) \<Longrightarrow> ascii line"
    by (auto simp: dump_script_def totem_boot_diagnostics_format_def saved_fault_line_def begin_line_def end_line_def
        dest: num split: if_splits)
qed

section \<open>The verifier on a dump\<close>

text \<open>In the middle of a dump of \<open>n\<close> lines, before line \<open>k\<close>.\<close>

definition receiving :: "u32 \<Rightarrow> nat \<Rightarrow> nat \<Rightarrow> dump_verifier" where
  "receiving did n k = \<lparr>dv_id = Some (unat did), dv_expected = n, dv_next_line = k, dv_error = None, dv_complete = False\<rparr>"

lemma feed_begin:
  assumes "unat e = unat b + unat p + unat k"
  shows "verifier_feed (begin_line did e b p k q) v = (True, receiving did (unat e) 0)"
  using assms by (simp add: verifier_feed_def verifier_begin_def receiving_def)

lemma feed_data:
  assumes "clean_text d" and "unat ordinal = k"
  shows "verifier_feed (data_line did ordinal d) (receiving did n k) = (True, receiving did n (Suc k))"
  using assms data_match_data [of d]
  by (simp add: verifier_feed_def verifier_data_def receiving_def clean_text_def)

lemma feed_end_line:
  "verifier_feed (end_line did ordinal) (receiving did n k)
    = (True, verifier_end (unat ordinal) (receiving did n k))"
  by (simp add: verifier_feed_def feed_end_def receiving_def)

lemma feed_other: "\<not> dump_text line \<Longrightarrow> verifier_feed line v = (False, v)"
  by (auto simp: verifier_feed_def feed_end_def dump_text_def split: option.split)

section \<open>The loop on a dump\<close>

definition line_payload :: "string \<Rightarrow> u8 list" where
  "line_payload line = line_byte # ascii_bytes line"

text \<open>Payloads the receiver skips: no lines, or lines that belong to no dump.\<close>

definition skipped :: "(u8 list \<Rightarrow> string) \<Rightarrow> u8 list \<Rightarrow> bool" where
  "skipped decode p \<longleftrightarrow> p = [] \<or> hd p \<noteq> line_byte \<or> \<not> dump_text (decode (tl p))"

lemma skipped_line: "decodes_ascii decode \<Longrightarrow> ascii line \<Longrightarrow> skipped decode (line_payload line) \<longleftrightarrow> \<not> dump_text line"
  by (simp add: skipped_def line_payload_def decodes_ascii_def)

lemma receive_append:
  "receive decode (ps @ qs) v = (let (code, out, v1) = receive decode ps v in
     if code \<noteq> None then (code, out, v1)
     else let (code, outs, v2) = receive decode qs v1 in (code, out @ outs, v2))"
  by (induction ps arbitrary: v) (auto simp: Let_def case_prod_beta)

lemma receive_incomplete:
  "\<not> dv_complete v \<Longrightarrow> fst (receive decode ps v) = None \<Longrightarrow> \<not> dv_complete (snd (snd (receive decode ps v)))"
  by (induction ps arbitrary: v) (auto simp: Let_def case_prod_beta split: if_splits)

lemma receive_skips:
  "\<not> dv_complete v \<Longrightarrow> fst (receive decode ps v) = fst (receive decode (filter (\<lambda>p. \<not> skipped decode p) ps) v)"
proof (induction ps arbitrary: v)
  case Nil
  then show ?case by simp
next
  case (Cons p ps)
  show ?case
  proof (cases "skipped decode p")
    case True
    then have "fst (receive decode (p # ps) v) = fst (receive decode ps v)"
      using Cons.prems feed_other [of "decode (tl p)" v] by (auto simp: skipped_def Let_def case_prod_beta)
    with Cons True show ?thesis by simp
  next
    case False
    with Cons show ?thesis by (auto simp: skipped_def Let_def case_prod_beta)
  qed
qed

text \<open>Only the bytes count, not the chunks they arrive in.\<close>

lemma read_loop_code:
  "\<not> dv_complete v \<Longrightarrow> fst (read_loop decode chunks d v)
     = (case fst (receive decode (fst (deframe (concat chunks) d)) v) of Some k \<Rightarrow> k | None \<Rightarrow> 1)"
proof (induction chunks arbitrary: d v)
  case Nil
  then show ?case by simp
next
  case (Cons chunk chunks)
  obtain ps d1 where d: "deframe chunk d = (ps, d1)" by (metis prod.exhaust)
  obtain code out v1 where r: "receive decode ps v = (code, out, v1)" by (metis prod_cases3)
  show ?case
  proof (cases code)
    case None
    with r Cons.prems receive_incomplete [of v decode ps] have "\<not> dv_complete v1" by simp
    from Cons.IH [OF this, of d1] None show ?thesis
      by (simp add: d r deframe_append receive_append Let_def case_prod_beta)
  next
    case (Some k)
    then show ?thesis by (simp add: d r deframe_append receive_append Let_def case_prod_beta)
  qed
qed

lemma receive_line:
  assumes "decodes_ascii decode" and "ascii line" and "verifier_feed line v = (True, v1)" and "end_match line = None"
    and "\<not> dv_complete v1"
  shows "fst (receive decode (line_payload line # ps) v) = fst (receive decode ps v1)"
  using assms by (simp add: line_payload_def decodes_ascii_def Let_def case_prod_beta)

lemma ascii_data: "ascii d \<Longrightarrow> ascii (data_line did ordinal d)"
  by (simp add: data_line_def)

lemma receive_numbered:
  assumes "decodes_ascii decode"
  shows "\<forall>d \<in> set ds. clean_text d \<Longrightarrow> unat ordinal + length ds < 2 ^ 32 \<Longrightarrow>
    fst (receive decode (map line_payload (numbered did ordinal ds) @ ps) (receiving did n (unat ordinal)))
      = fst (receive decode ps (receiving did n (unat ordinal + length ds)))"
proof (induction ds arbitrary: ordinal)
  case Nil
  then show ?case by simp
next
  case (Cons d ds)
  have next_ordinal: "unat (ordinal + 1) = Suc (unat ordinal)"
    using Cons.prems(2) by (subst unat_add_lem [THEN iffD1]) simp_all
  have d: "clean_text d" "ascii d" using Cons.prems(1) by (simp_all add: clean_text_def)
  have "fst (receive decode (map line_payload (numbered did ordinal (d # ds)) @ ps) (receiving did n (unat ordinal)))
      = fst (receive decode (map line_payload (numbered did (ordinal + 1) ds) @ ps) (receiving did n (unat (ordinal + 1))))"
    using receive_line [OF assms ascii_data [OF d(2)] feed_data [OF d(1) refl]]
    by (simp add: next_ordinal receiving_def)
  also have "\<dots> = fst (receive decode ps (receiving did n (unat ordinal + length (d # ds))))"
    using Cons.IH [of "ordinal + 1"] Cons.prems by (simp add: next_ordinal)
  finally show ?case .
qed

lemma take_numbered: "take i (numbered did ordinal ds) = numbered did ordinal (take i ds)"
  by (induction ds arbitrary: ordinal i) (simp_all add: take_Cons split: nat.split)

lemma receive_end:
  assumes "decodes_ascii decode" and "unat ordinal = n"
  shows "fst (receive decode [line_payload (end_line did ordinal)] (receiving did n n)) = Some 0"
proof -
  have "ascii (end_line did ordinal)" by (simp add: end_line_def)
  then have "decode (ascii_bytes (end_line did ordinal)) = end_line did ordinal"
    using assms(1) by (simp add: decodes_ascii_def)
  moreover have "dv_complete (verifier_end (unat ordinal) (receiving did n n))"
    using assms(2) by (simp add: verifier_end_def receiving_def)
  ultimately show ?thesis by (simp add: line_payload_def feed_end_line)
qed

lemma receive_dump:
  fixes did e b p k q and ds :: "string list"
  defines "core \<equiv> begin_line did e b p k q # numbered did 0 ds @ [end_line did (of_nat (length ds))]"
  assumes "decodes_ascii decode" and "\<forall>d \<in> set ds. clean_text d"
    and "unat e = length ds" and "unat e = unat b + unat p + unat k"
  shows "fst (receive decode (map line_payload (take m core)) v) = (if length core \<le> m then Some 0 else None)"
proof (cases m)
  case 0
  then show ?thesis by (simp add: core_def)
next
  case (Suc i)
  let ?N = "length ds"
  have small: "?N < 2 ^ 32" using assms(4) unat_word_bound [of e] by simp
  have "ascii (begin_line did e b p k q)" by (simp add: begin_line_def)
  from receive_line [OF assms(2) this feed_begin [OF assms(5)]] have
    start: "fst (receive decode (line_payload (begin_line did e b p k q) # ps) v) = fst (receive decode ps (receiving did ?N 0))"
    for ps v by (simp add: receiving_def assms(4))
  have body: "fst (receive decode (map line_payload (numbered did 0 (take j ds)) @ ps) (receiving did ?N 0))
      = fst (receive decode ps (receiving did ?N (min ?N j)))" for j ps
  proof -
    have "\<forall>d \<in> set (take j ds). clean_text d" using assms(3) by (meson in_set_takeD)
    from receive_numbered [OF assms(2) this, of 0 did ps ?N] small show ?thesis by simp
  qed
  show ?thesis
  proof (cases "i \<le> ?N")
    case True
    then show ?thesis using body [of i "[]"] by (simp add: core_def Suc start take_numbered del: receive.simps(2))
  next
    case False
    have "fst (receive decode [line_payload (end_line did (of_nat ?N))] (receiving did ?N ?N)) = Some 0"
      by (rule receive_end [OF assms(2)]) (rule unat_of_nat_small, use small in simp)
    with False body [of ?N "[line_payload (end_line did (of_nat ?N))]"] show ?thesis
      by (simp add: core_def Suc start del: receive.simps(2))
  qed
qed

section \<open>Properties\<close>

lemma filter_numbered:
  "\<forall>d \<in> set ds. clean_text d \<Longrightarrow> filter dump_text (numbered did ordinal ds) = numbered did ordinal ds"
  by (induction ds arbitrary: ordinal) (simp_all add: dump_text_def data_match_data clean_text_def)

text \<open>The dump without its status lines.\<close>

lemma script_dump_lines:
  obtains pre where "dump_script c did bd fs j = pre @ begin_line did (dump_expected c j) (dump_blocks_count c j)
        (dump_persistent_events c j) (of_nat (ring_count j)) (ring_seq j)
      # numbered did 0 (dump_details c j) @ [end_line did (of_nat (length (dump_details c j)))]"
    and "\<forall>line \<in> set pre. \<not> dump_text line"
proof
  let ?pre = "[totem_boot_diagnostics_format False bd, totem_boot_diagnostics_format True bd]
     @ (if CONFIG_TOTEM_FAULT_CAPTURE c \<and> fr_kind (last_fault fs) \<noteq> 0 then [saved_fault_line (last_fault fs)] else [])"
  show "dump_script c did bd fs j = ?pre @ begin_line did (dump_expected c j) (dump_blocks_count c j)
        (dump_persistent_events c j) (of_nat (ring_count j)) (ring_seq j)
      # numbered did 0 (dump_details c j) @ [end_line did (of_nat (length (dump_details c j)))]"
    by (simp add: dump_script_def)
  show "\<forall>line \<in> set ?pre. \<not> dump_text line" by simp
qed

lemma filter_take_append:
  "\<forall>x \<in> set xs. \<not> P x \<Longrightarrow> \<forall>y \<in> set ys. P y \<Longrightarrow> filter P (take n (xs @ ys)) = take (n - length xs) ys"
proof -
  assume "\<forall>x \<in> set xs. \<not> P x" "\<forall>y \<in> set ys. P y"
  then have "filter P (take n xs) = []" "filter P (take (n - length xs) ys) = take (n - length xs) ys"
    by (meson filter_False in_set_takeD, meson filter_True in_set_takeD)
  then show ?thesis by simp
qed

text \<open>
  C8. The dump and its reader agree. The firmware sends a dump over a link with any pattern of
  busy and failed answers, the accepted lines are framed among any other frames (live log lines, replies), and the host
  reads the bytes in chunks of any size: then \<open>tools/read_diag_dump.py\<close> exits with 0 exactly when
  the link accepted the complete dump, and with 1 otherwise.
\<close>

theorem receiver_verdict_exact:
  assumes "kconfig_ok c" and "- (2 ^ 31) \<le> reset_read_result bd" and "reset_read_result bd < 2 ^ 31"
    and "ring_count j \<le> RING_CAP c" and "decodes_ascii decode" and "sent w = []"
    and "lines = sent (totem_host_event_log_dump c did bd fs j w)"
    and "payloads \<in> shuffles (map line_payload lines) others" and "\<forall>p \<in> set others. skipped decode p"
    and "\<forall>p \<in> set payloads. length p \<le> 512" and "concat chunks = concat (map frame payloads)"
  shows "fst (read_diag_dump decode chunks) = (if lines = dump_script c did bd fs j then 0 else 1)"
proof -
  let ?S = "dump_script c did bd fs j" and ?ds = "dump_details c j"
  let ?b = "begin_line did (dump_expected c j) (dump_blocks_count c j) (dump_persistent_events c j)
      (of_nat (ring_count j)) (ring_seq j)"
  let ?core = "?b # numbered did 0 ?ds @ [end_line did (of_nat (length ?ds))]"
  obtain pre where S: "?S = pre @ ?core" and pre: "\<forall>line \<in> set pre. \<not> dump_text line" by (rule script_dump_lines)
  have clean: "\<forall>d \<in> set ?ds. clean_text d" using details_clean by blast
  have core: "\<forall>line \<in> set ?core. dump_text line"
    using filter_numbered [OF clean, of did 0] by (auto simp: filter_id_conv)
  obtain n where n: "n \<le> length ?S" "lines = take n ?S"
    using dump_delivers [OF assms(1-3), of did fs j] unfolding delivers_def assms(7)
    by (metis append_Nil assms(6))
  have lines_ascii: "line \<in> set lines \<Longrightarrow> ascii line" for line
    using n(2) script_ascii by (metis in_set_takeD)
  have "filter (\<lambda>p. \<not> skipped decode p) payloads \<in> shuffles (filter (\<lambda>p. \<not> skipped decode p) (map line_payload lines)) []"
    using assms(8,9) filter_shuffles [of "\<lambda>p. \<not> skipped decode p" "map line_payload lines" others] by fastforce
  also have "filter (\<lambda>p. \<not> skipped decode p) (map line_payload lines) = map line_payload (filter dump_text lines)"
    using lines_ascii skipped_line [OF assms(5)] by (simp add: filter_map comp_def cong: filter_cong)
  also have "filter dump_text lines = take (n - length pre) ?core"
    unfolding n(2) S by (rule filter_take_append [OF pre core])
  finally have kept: "filter (\<lambda>p. \<not> skipped decode p) payloads = map line_payload (take (n - length pre) ?core)" by simp
  have count: "unat (dump_expected c j) = length ?ds"
    "unat (dump_expected c j) = unat (dump_blocks_count c j) + unat (dump_persistent_events c j) + unat (of_nat (ring_count j) :: u16)"
  proof -
    have "ring_count j \<le> 1024" using assms(1,4) by (simp add: kconfig_ok_def)
    then have r: "unat (of_nat (ring_count j) :: u16) = ring_count j" by (intro unat_of_nat_small) simp
    from \<open>ring_count j \<le> 1024\<close> have "length ?ds < 2 ^ LENGTH(32)" using dump_line_count [OF assms(1), of j] by simp
    then show *: "unat (dump_expected c j) = length ?ds"
      unfolding dump_expected_lines [OF assms(1)] by (rule unat_of_nat_small)
    show "unat (dump_expected c j) = unat (dump_blocks_count c j) + unat (dump_persistent_events c j) + unat (of_nat (ring_count j) :: u16)"
      unfolding * r by (rule dump_line_count(1) [OF assms(1)])
  qed
  have between: "between_frames deframer_init" by (simp add: between_frames_def deframer_init_def)
  have "fst (receive decode payloads verifier_init) = (if length ?core \<le> n - length pre then Some 0 else None)"
    using receive_skips [of verifier_init decode payloads] receive_dump [OF assms(5) clean count]
    by (simp only: kept) (simp add: verifier_init_def)
  then have "fst (read_diag_dump decode chunks) = (if length ?core \<le> n - length pre then 0 else 1)"
    using deframe_frames [OF between assms(10)]
    by (simp add: read_diag_dump_def read_loop_code verifier_init_def assms(11))
  moreover have "length ?core \<le> n - length pre \<longleftrightarrow> n = length ?S" using n(1) unfolding S by (simp, linarith)
  moreover have "n = length ?S \<longleftrightarrow> lines = ?S" using n by (metis length_take min.absorb2 take_all_iff)
  ultimately show ?thesis by simp
qed

text \<open>A link that is busy once, a reply frame before the dump, and the bytes in two chunks.\<close>

definition ascii_decode :: "u8 list \<Rightarrow> string" where
  "ascii_decode = map (\<lambda>b. char_of (unat b))"

lemma ascii_decode_ok: "decodes_ascii ascii_decode"
proof -
  have "unat (of_char ch :: u8) = of_char ch" for ch
    by (cases ch) (simp add: of_char_Char horner_sum_simps)
  then show ?thesis by (simp add: decodes_ascii_def ascii_decode_def ascii_bytes_def comp_def)
qed

theorem receiver_verdict_exact_witness:
  "let w = \<lparr>answers = [(True, 0), (False, 0), (True, - 11), (True, 0), (True, 0), (True, 0)], sent = []\<rparr>;
       fs = \<lparr>fault_rec = zero_fault, last_fault = zero_fault\<rparr>;
       lines = sent (totem_host_event_log_dump minimal_config 9 (boot_diag_init 0 0) fs (journal_boot minimal_config) w);
       bytes = concat (map frame ([75] # map line_payload lines))
   in length lines = 4 \<and> fst (read_diag_dump ascii_decode [take 7 bytes, drop 7 bytes]) = 0"
proof -
  let ?w = "\<lparr>answers = [(True, 0), (False, 0), (True, - 11), (True, 0), (True, 0), (True, 0)], sent = []\<rparr>"
  let ?fs = "\<lparr>fault_rec = zero_fault, last_fault = zero_fault\<rparr>" and ?bd = "boot_diag_init 0 0"
  let ?S = "dump_script minimal_config 9 ?bd ?fs (journal_boot minimal_config)"
  let ?lines = "sent (totem_host_event_log_dump minimal_config 9 ?bd ?fs (journal_boot minimal_config) ?w)"
  let ?ps = "[75] # map line_payload ?lines"
  have r: "- (2 ^ 31) \<le> reset_read_result ?bd" "reset_read_result ?bd < 2 ^ 31" by (simp_all add: boot_diag_init_def)
  have len: "length ?S = 4" by (simp add: length_script demo_dump_details zero_fault_def)
  have "link_patient minimal_config 4 ?w" by (simp add: link_patient_def numeral_eq_Suc)
  then have lines: "?lines = ?S" using dump_completes [OF kconfig_ok_minimal r] by (simp add: len)
  have short: "\<forall>p \<in> set ?ps. length p \<le> 512"
  proof -
    have "length line < 120" if "line \<in> set ?S" for line using dump_lines_fit [OF r that] .
    then show ?thesis unfolding lines by (fastforce simp: line_payload_def ascii_bytes_def)
  qed
  have mixed: "?ps \<in> shuffles (map line_payload ?lines) [[75]]" by (simp add: Cons_in_shuffles_rightI)
  have skip: "\<forall>p \<in> set [[75]]. skipped ascii_decode p" by (simp add: skipped_def line_byte_def)
  have ring: "ring_count (journal_boot minimal_config) \<le> RING_CAP minimal_config" by (simp add: journal_boot_def)
  have split: "concat [take 7 bs, drop 7 bs] = bs" for bs :: "u8 list" by simp
  from receiver_verdict_exact [OF kconfig_ok_minimal r ring ascii_decode_ok _ refl mixed skip short split] lines len
  show ?thesis by (simp add: Let_def)
qed

text \<open>The data lines of a dump among some lines: their ordinals.\<close>

definition ordinals :: "nat \<Rightarrow> string list \<Rightarrow> nat list" where
  "ordinals did lines = map (\<lambda>d. d ! 1) (filter (\<lambda>d. d ! 0 = did) (List.map_filter data_match lines))"

lemma ordinals_simps [simp]:
  "ordinals did [] = []" "ordinals did (xs @ ys) = ordinals did xs @ ordinals did ys"
  "data_match line = None \<Longrightarrow> ordinals did [line] = []"
  "data_match line = Some d \<Longrightarrow> ordinals did [line] = (if d ! 0 = did then [d ! 1] else [])"
  by (simp_all add: ordinals_def map_filter_simps List.map_filter_def)

definition verifier_run :: "string list \<Rightarrow> dump_verifier" where
  "verifier_run lines = fold (\<lambda>line v. snd (verifier_feed line v)) lines verifier_init"

text \<open>A complete dump \<open>g\<close> (the groups of its begin line) among the lines after that begin line.\<close>

definition whole_dump :: "nat list \<Rightarrow> string list \<Rightarrow> bool" where
  "whole_dump g lines \<longleftrightarrow> g ! 1 = g ! 2 + g ! 3 + g ! 4
     \<and> (\<exists>mid e post. lines = mid @ [e] @ post \<and> end_match e \<noteq> None \<and> take 2 (the (end_match e)) = [g ! 0, g ! 1]
          \<and> ordinals (g ! 0) mid = [0..<g ! 1])"

lemma whole_dump_more: "whole_dump g lines \<Longrightarrow> whole_dump g (lines @ later)"
  unfolding whole_dump_def by (metis append.assoc)

text \<open>What the verifier knows of the lines after the last begin line.\<close>

definition verifier_knows :: "dump_verifier \<Rightarrow> nat list \<Rightarrow> string list \<Rightarrow> bool" where
  "verifier_knows v g lines \<longleftrightarrow> dv_id v = Some (g ! 0) \<and> dv_expected v = g ! 1
     \<and> (dv_error v = None \<longrightarrow> g ! 1 = g ! 2 + g ! 3 + g ! 4 \<and> ordinals (g ! 0) lines = [0..<dv_next_line v])
     \<and> (dv_complete v \<longrightarrow> whole_dump g lines)"

lemma knows_begin: "verifier_knows (verifier_begin g) g []"
  by (simp add: verifier_knows_def verifier_begin_def)

lemma knows_data:
  assumes "verifier_knows v g lines" and "data_match line = Some d" and "d ! 0 = g ! 0"
  shows "verifier_knows (verifier_data (d ! 1) v) g (lines @ [line])"
  using assms whole_dump_more [of g lines "[line]"] by (auto simp: verifier_knows_def verifier_data_def)

lemma end_groups: "end_match line = Some e \<Longrightarrow> length e = 2"
  by (auto simp: end_match_def END_pieces_def split: option.splits prod.splits if_splits)

lemma knows_end:
  assumes "verifier_knows v g lines" and "end_match line = Some e" and "e ! 0 = g ! 0"
    and "ordinals (g ! 0) [line] = []"
  shows "verifier_knows (verifier_end (e ! 1) v) g (lines @ [line])"
proof -
  have "whole_dump g (lines @ [line])" if "dv_error (verifier_end (e ! 1) v) = None"
  proof -
    from that have ok: "dv_error v = None" "e ! 1 = dv_expected v" "dv_next_line v = dv_expected v"
      by (auto simp: verifier_end_def Let_def split: if_splits option.splits)
    moreover have "take 2 e = [e ! 0, e ! 1]" using end_groups [OF assms(2)] by (auto simp: numeral_2_eq_2 length_Suc_conv)
    ultimately show ?thesis
      using assms unfolding whole_dump_def verifier_knows_def by (intro conjI exI [of _ lines] exI [of _ line] exI [of _ "[]"]) auto
  qed
  with assms show ?thesis
    by (auto simp: verifier_knows_def verifier_end_def Let_def split: if_splits option.splits)
qed

lemma knows_other:
  "verifier_knows v g lines \<Longrightarrow> ordinals (g ! 0) [line] = [] \<Longrightarrow> verifier_knows v g (lines @ [line])"
  using whole_dump_more [of g lines "[line]"] by (auto simp: verifier_knows_def)

lemma knows_feed:
  assumes "verifier_knows v g lines" and "begin_match line = None"
  shows "verifier_knows (snd (verifier_feed line v)) g (lines @ [line])"
proof -
  have did: "dv_id v = Some (g ! 0)" using assms(1) by (simp add: verifier_knows_def)
  have tail: "verifier_knows (snd (feed_end (g ! 0) line v)) g (lines @ [line])" if "ordinals (g ! 0) [line] = []"
    using knows_end [OF assms(1) _ _ that] knows_other [OF assms(1) that]
    by (auto simp: feed_end_def split: option.split)
  show ?thesis
  proof (cases "data_match line")
    case None
    with tail show ?thesis by (simp add: verifier_feed_def assms(2) did)
  next
    case (Some d)
    with tail knows_data [OF assms(1) Some] show ?thesis
      by (cases "d ! 0 = g ! 0") (simp_all add: verifier_feed_def assms(2) did)
  qed
qed

lemma verifier_run_knows:
  "(dv_id (verifier_run lines) = None \<and> \<not> dv_complete (verifier_run lines))
   \<or> (\<exists>pre b g mid. lines = pre @ [b] @ mid \<and> begin_match b = Some g \<and> (\<forall>l \<in> set mid. begin_match l = None)
        \<and> verifier_knows (verifier_run lines) g mid)"
proof (induction lines rule: rev_induct)
  case Nil
  then show ?case by (simp add: verifier_run_def verifier_init_def)
next
  case (snoc line lines)
  have run: "verifier_run (lines @ [line]) = snd (verifier_feed line (verifier_run lines))" by (simp add: verifier_run_def)
  show ?case
  proof (cases "begin_match line")
    case (Some g)
    then show ?thesis
      unfolding run using knows_begin [of g]
      by (intro disjI2 exI [of _ lines] exI [of _ line] exI [of _ g] exI [of _ "[]"]) (simp add: verifier_feed_def)
  next
    case None
    from snoc.IH show ?thesis
    proof (elim disjE exE conjE)
      assume "dv_id (verifier_run lines) = None" "\<not> dv_complete (verifier_run lines)"
      with None show ?thesis unfolding run by (simp add: verifier_feed_def)
    next
      fix pre b g mid
      assume "lines = pre @ [b] @ mid" "begin_match b = Some g" "\<forall>l \<in> set mid. begin_match l = None"
        "verifier_knows (verifier_run lines) g mid"
      with None knows_feed [of "verifier_run lines" g mid line] show ?thesis
        unfolding run by (intro disjI2 exI [of _ pre] exI [of _ b] exI [of _ g] exI [of _ "mid @ [line]"]) simp
    qed
  qed
qed

text \<open>
  C25. The reader is not fooled by a damaged stream: whatever lines arrive, in whatever order and
  number, it reports a complete dump only if after the last begin line, whose counts add up, the
  data lines with the dump's number carried exactly the ordinals 0, 1, 2, ... up to the announced
  number of lines, each once and in order, before an end line that repeats identifier and number.
\<close>

theorem verifier_accepts_whole_dumps:
  assumes "dv_complete (verifier_run lines)"
  shows "\<exists>pre b g mid. lines = pre @ [b] @ mid \<and> begin_match b = Some g \<and> (\<forall>l \<in> set mid. begin_match l = None)
    \<and> whole_dump g mid"
  using verifier_run_knows [of lines] assms unfolding verifier_knows_def by blast

theorem verifier_accepts_whole_dumps_witness:
  "let lines = [''totem_boot x'', ''totem_diag begin id=7 lines=1 blocks=0 persisted=0 ram=1 seq=5'',
       ''totem_diag d=7 n=0 e'', ''totem_diag end id=7 lines=1 status=ok'']
   in dv_complete (verifier_run lines) \<and> (\<exists>g mid. whole_dump g mid)"
proof -
  let ?lines = "[''totem_boot x'', ''totem_diag begin id=7 lines=1 blocks=0 persisted=0 ram=1 seq=5'',
       ''totem_diag d=7 n=0 e'', ''totem_diag end id=7 lines=1 status=ok'']"
  have "dv_complete (verifier_run ?lines)" by code_simp
  with verifier_accepts_whole_dumps [OF this] show ?thesis unfolding Let_def by blast
qed

end
