(* ===== verification/Studio_Extras.thy ===== *)
theory Studio_Extras
  imports Platform Format
begin

text \<open>
  The rest of \<open>src/totem_studio_extras.c\<close>: the request for a journal dump that arrives over the Studio
  transport, and the heartbeat that lists the signal strength of every link while the configurator
  has the log on. The sender of diagnostic lines is in \<open>Journal_Dump\<close>.
\<close>

section \<open>Requests\<close>

definition usb_hid_ready :: "totem_config \<Rightarrow> zmk_transport \<Rightarrow> bool \<Rightarrow> bool" where
  "usb_hid_ready c selected zmk_usb_is_hid_ready =
     (if selected \<noteq> ZMK_TRANSPORT_USB then False
      else if CONFIG_ZMK_USB c then zmk_usb_is_hid_ready else False)"

datatype extras_effect = XS_request_dump | XS_set_streaming bool

text \<open>A frame's first byte is its prefix; the request is the digit 1 after it.\<close>

definition dump_frame_cb :: "u8 list \<Rightarrow> extras_effect list" where
  "dump_frame_cb payload =
     (if length payload < 2 then []
      else if payload ! 1 \<noteq> 0x31 then []
      else [XS_request_dump, XS_set_streaming True])"

section \<open>Signal strength\<close>

text \<open>
  What the host stack and ZMK return: the connection handle, whether a command buffer was free,
  the controller's answer to the command (\<open>None\<close> on an error) and the profile of an address.
\<close>

record extras_env =
  x_uptime_32 :: u32
  x_streaming :: bool
  x_selected :: zmk_transport
  x_adv_state :: string
  x_profile_index :: "bt_addr \<Rightarrow> int"
  bt_hci_get_conn_handle :: "bt_conn \<Rightarrow> u16 option"
  bt_hci_cmd_create :: "bt_conn \<Rightarrow> bool"
  read_rssi_command :: "u16 \<Rightarrow> i8 option"

definition read_conn_rssi :: "extras_env \<Rightarrow> bt_conn \<Rightarrow> i8" where
  "read_conn_rssi e conn =
     (case bt_hci_get_conn_handle e conn of
        None \<Rightarrow> 127
      | Some handle \<Rightarrow>
          if \<not> bt_hci_cmd_create e conn then 127
          else case read_rssi_command e handle of None \<Rightarrow> 127 | Some rssi \<Rightarrow> rssi)"

record rssi_acc =
  acc_line :: string
  acc_n :: nat
  acc_peers :: u8
  acc_hosts :: u8
  acc_split :: u8

definition zero_acc :: rssi_acc where
  "zero_acc = \<lparr>acc_line = [], acc_n = 0, acc_peers = 0, acc_hosts = 0, acc_split = 0\<rparr>"

text \<open>The text of one link, chosen by its profile and role.\<close>

definition rssi_text :: "extras_env \<Rightarrow> bt_conn \<Rightarrow> bt_conn_info \<Rightarrow> string" where
  "rssi_text e conn info =
     (let rssi = read_conn_rssi e conn; idx = x_profile_index e (conn_dst conn) in
      if idx < 0 \<and> info_role info = BT_CONN_ROLE_CENTRAL
      then if rssi = 127 then '' split=--'' else '' split='' @ fmt_d (sint rssi)
      else if idx \<ge> 0
      then if rssi = 127 then '' idx'' @ fmt_d idx @ ''=--'' else '' idx'' @ fmt_d idx @ ''='' @ fmt_d (sint rssi)
      else '' other='' @ fmt_d (sint rssi))"

text \<open>
  \<open>cap\<close> is \<open>CONFIG_ZMK_STUDIO_LOG_LINE_MAX\<close>. \<open>snprintk\<close> at position \<open>n\<close> writes what fits before the final
  zero byte and returns the length of the whole text.
\<close>

definition rssi_one :: "nat \<Rightarrow> extras_env \<Rightarrow> bt_conn \<Rightarrow> rssi_acc \<Rightarrow> rssi_acc" where
  "rssi_one cap e conn acc0 =
     (case conn_info conn of
        None \<Rightarrow> acc0
      | Some info \<Rightarrow>
          if info_state info \<noteq> BT_CONN_STATE_CONNECTED then acc0
          else
            let idx = x_profile_index e (conn_dst conn);
                acc = (if idx < 0 \<and> info_role info = BT_CONN_ROLE_CENTRAL then acc0\<lparr>acc_split := acc_split acc0 + 1\<rparr>
                       else if idx \<ge> 0 then acc0\<lparr>acc_hosts := acc_hosts acc0 + 1\<rparr>
                       else acc0)
            in if acc_n acc \<ge> cap - 16 then acc
               else
                 let text = rssi_text e conn info; wrote = length text
                 in if wrote > 0
                    then acc\<lparr>acc_line := take (acc_n acc) (acc_line acc) @ take (cap - acc_n acc - 1) text,
                             acc_n := acc_n acc + wrote, acc_peers := acc_peers acc + 1\<rparr>
                    else acc)"

section \<open>Heartbeat\<close>

text \<open>The lines of one run; it always schedules the next one, ten seconds later.\<close>

definition heartbeat_work_cb :: "nat \<Rightarrow> extras_env \<Rightarrow> bt_conn list \<Rightarrow> string list \<times> int" where
  "heartbeat_work_cb cap e conns =
     (if \<not> x_streaming e then []
      else
        let hid = (case x_selected e of
                     ZMK_TRANSPORT_USB \<Rightarrow> ''usb'' | ZMK_TRANSPORT_BLE \<Rightarrow> ''ble'' | ZMK_TRANSPORT_NONE \<Rightarrow> ''none'');
            acc = fold (rssi_one cap e) conns zero_acc
        in [''totem_log t='' @ fmt_u (x_uptime_32 e div 1000) @ ''s usb=1 hid='' @ hid @ '' adv='' @ x_adv_state e
              @ '' hosts='' @ fmt_u (acc_hosts acc) @ '' split='' @ fmt_u (acc_split acc),
            if acc_peers acc = 0 then ''totem_ble rssi none'' else ''totem_ble rssi'' @ acc_line acc],
      10000)"

definition totem_studio_extras_init :: "int option" where
  "totem_studio_extras_init = Some 10000"

section \<open>The line buffer\<close>

definition linked :: "bt_conn \<Rightarrow> bool" where
  "linked conn \<longleftrightarrow> (case conn_info conn of None \<Rightarrow> False | Some info \<Rightarrow> info_state info = BT_CONN_STATE_CONNECTED)"

definition link_text :: "extras_env \<Rightarrow> bt_conn \<Rightarrow> string" where
  "link_text e conn = (case conn_info conn of None \<Rightarrow> [] | Some info \<Rightarrow> rssi_text e conn info)"

lemma length_fmt_d_idx: "0 \<le> i \<Longrightarrow> i < 1000 \<Longrightarrow> length (fmt_d i) \<le> 3"
  using length_dec [of "nat i" 2] by (simp add: fmt_d_def nat_less_iff)

lemma rssi_text_length:
  assumes "x_profile_index e (conn_dst conn) < 1000"
  shows "length (rssi_text e conn info) \<le> 15" and "0 < length (rssi_text e conn info)"
proof -
  let ?i = "x_profile_index e (conn_dst conn)"
  have r: "length (fmt_d (sint (read_conn_rssi e conn))) \<le> 4" by (rule length_fmt_d8)
  have i: "length (fmt_d ?i) \<le> 3" if "0 \<le> ?i" using that assms by (rule length_fmt_d_idx)
  show "length (rssi_text e conn info) \<le> 15" using r i by (auto simp: rssi_text_def Let_def)
  show "0 < length (rssi_text e conn info)" by (simp add: rssi_text_def Let_def)
qed

text \<open>The first \<open>m\<close> links are in the line, whole.\<close>

definition acc_ok :: "nat \<Rightarrow> extras_env \<Rightarrow> bt_conn list \<Rightarrow> rssi_acc \<Rightarrow> bool" where
  "acc_ok cap e seen acc \<longleftrightarrow> (\<exists>m \<le> length seen. acc_line acc = concat (map (link_text e) (take m seen))
     \<and> acc_n acc = length (acc_line acc) \<and> acc_n acc < cap \<and> acc_peers acc = of_nat m
     \<and> (m < length seen \<longrightarrow> cap \<le> acc_n acc + 16))"

lemma rssi_one_ok:
  assumes "acc_ok cap e seen acc" and "16 \<le> cap" and "x_profile_index e (conn_dst conn) < 1000"
  shows "acc_ok cap e (seen @ (if linked conn then [conn] else [])) (rssi_one cap e conn acc)"
proof (cases "linked conn")
  case False
  then have "rssi_one cap e conn acc = acc" by (auto simp: rssi_one_def linked_def split: option.splits)
  with False assms(1) show ?thesis by simp
next
  case True
  then obtain info where info: "conn_info conn = Some info" "info_state info = BT_CONN_STATE_CONNECTED"
    by (auto simp: linked_def split: option.splits)
  have lt: "link_text e conn = rssi_text e conn info" by (simp add: link_text_def info)
  note len = rssi_text_length [OF assms(3), of info]
  obtain m where m: "m \<le> length seen" "acc_line acc = concat (map (link_text e) (take m seen))"
    "acc_n acc = length (acc_line acc)" "acc_n acc < cap" "acc_peers acc = of_nat m"
    "m < length seen \<longrightarrow> cap \<le> acc_n acc + 16" using assms(1) unfolding acc_ok_def by blast
  show ?thesis
  proof (cases "acc_n acc \<ge> cap - 16")
    case full: True
    then have same: "acc_line (rssi_one cap e conn acc) = acc_line acc" "acc_n (rssi_one cap e conn acc) = acc_n acc"
      "acc_peers (rssi_one cap e conn acc) = acc_peers acc"
      using info by (simp_all add: rssi_one_def Let_def)
    with full m True assms(2) show ?thesis
      unfolding acc_ok_def same by (intro exI [of _ m]) simp
  next
    case room: False
    then have all: "m = length seen" using m(1,6) by (cases "m < length seen") auto
    have new: "acc_line (rssi_one cap e conn acc) = acc_line acc @ rssi_text e conn info"
      "acc_n (rssi_one cap e conn acc) = acc_n acc + length (rssi_text e conn info)"
      "acc_peers (rssi_one cap e conn acc) = acc_peers acc + 1"
      using info room len m(3) by (simp_all add: rssi_one_def Let_def)
    from room len m True all show ?thesis
      unfolding acc_ok_def new by (intro exI [of _ "Suc m"]) (simp add: lt)
  qed
qed

lemma rssi_all_ok:
  assumes "16 \<le> cap"
  shows "list_all (\<lambda>conn. x_profile_index e (conn_dst conn) < 1000) conns \<Longrightarrow> acc_ok cap e seen acc \<Longrightarrow>
    acc_ok cap e (seen @ filter linked conns) (fold (rssi_one cap e) conns acc)"
proof (induction conns arbitrary: seen acc)
  case Nil
  then show ?case by simp
next
  case (Cons conn conns)
  with rssi_one_ok [OF Cons.prems(2) assms, of conn]
    Cons.IH [of "seen @ (if linked conn then [conn] else [])" "rssi_one cap e conn acc"]
  show ?case by (simp split: if_splits)
qed

section \<open>Properties\<close>

text \<open>
  The signal strength line never overflows its buffer and never shows half an entry: with a
  buffer of at least 16 bytes and profile numbers below 1000, the line is made of the whole texts
  of the first \<open>m\<close> connected links, \<open>m\<close> being the reported number of peers, its length with the
  final zero byte fits the buffer, and links are left out only when fewer than 17 bytes were left.
\<close>

theorem rssi_line_fits:
  assumes "16 \<le> cap" and "list_all (\<lambda>conn. x_profile_index e (conn_dst conn) < 1000) conns"
    and "acc = fold (rssi_one cap e) conns zero_acc"
  shows "\<exists>m \<le> length (filter linked conns).
      acc_line acc = concat (map (link_text e) (take m (filter linked conns)))
    \<and> length (acc_line acc) < cap \<and> acc_peers acc = of_nat m
    \<and> (if m < length (filter linked conns) then cap \<le> length (acc_line acc) + 16 else True)"
proof -
  have "acc_ok cap e [] zero_acc" using assms(1) by (simp add: acc_ok_def zero_acc_def)
  from rssi_all_ok [OF assms(1,2) this] have "acc_ok cap e (filter linked conns) acc" by (simp add: assms(3))
  then obtain m where "m \<le> length (filter linked conns)" "acc_line acc = concat (map (link_text e) (take m (filter linked conns)))"
    "acc_n acc = length (acc_line acc)" "acc_n acc < cap" "acc_peers acc = of_nat m"
    "m < length (filter linked conns) \<longrightarrow> cap \<le> acc_n acc + 16" unfolding acc_ok_def by blast
  then show ?thesis by (intro exI [of _ m]) simp
qed

text \<open>Three links and room for two.\<close>

definition rssi_demo_env :: extras_env where
  "rssi_demo_env = \<lparr>x_uptime_32 = 61000, x_streaming = True, x_selected = ZMK_TRANSPORT_USB, x_adv_state = ''off'',
     x_profile_index = (\<lambda>a. if a = 9 then - 1 else int a), bt_hci_get_conn_handle = (\<lambda>c. Some 1),
     bt_hci_cmd_create = (\<lambda>c. conn_dst c \<noteq> 0), read_rssi_command = (\<lambda>h. Some 0xC4)\<rparr>"

definition rssi_demo_conn :: "nat \<Rightarrow> bt_conn" where
  "rssi_demo_conn a = \<lparr>conn_index = 0, conn_dst = a,
     conn_info = Some \<lparr>info_le = True, info_role = (if a = 9 then BT_CONN_ROLE_CENTRAL else BT_CONN_ROLE_PERIPHERAL),
       info_state = BT_CONN_STATE_CONNECTED, info_interval = 12, info_latency = 0, info_timeout = 400\<rparr>, conn_security = 2\<rparr>"

theorem rssi_line_fits_witness:
  "let acc = fold (rssi_one 32 rssi_demo_env) (map rssi_demo_conn [9, 0, 1]) zero_acc
   in acc_line acc = '' split=-60 idx0=--'' \<and> acc_peers acc = 2 \<and> acc_hosts acc = 2 \<and> length (acc_line acc) < 32"
proof -
  let ?acc = "fold (rssi_one 32 rssi_demo_env) (map rssi_demo_conn [9, 0, 1]) zero_acc"
  have "list_all (\<lambda>conn. x_profile_index rssi_demo_env (conn_dst conn) < 1000) (map rssi_demo_conn [9, 0, 1])"
    by (simp add: rssi_demo_env_def rssi_demo_conn_def)
  from rssi_line_fits [OF _ this refl, of 32] have "length (acc_line ?acc) < 32" by auto
  moreover have "acc_line ?acc = '' split=-60 idx0=--'' \<and> acc_peers ?acc = 2 \<and> acc_hosts ?acc = 2" by code_simp
  ultimately show ?thesis by (simp only: Let_def)
qed

end
