(* ===== verification/Dump_Session.thy ===== *)
theory Dump_Session
  imports Dump_Request Dump_Receiver Studio_Extras
begin

text \<open>
  A whole session with the keyboard after a fault: \<open>tools/read_diag_dump.py\<close> writes its request frame,
  the frame handler of \<open>src/totem_studio_extras.c\<close> asks for a dump, the dump thread sends it, and the
  reader receives and prints it. ZMK's transport hands the payload of a request frame to the handler that is registered
  for its first byte.
\<close>

section \<open>The request\<close>

definition serve_frame :: "u8 list \<Rightarrow> dump_service \<Rightarrow> dump_service" where
  "serve_frame payload = fold (\<lambda>x s. case x of
      XS_request_dump \<Rightarrow> totem_host_event_log_request_dump s
    | XS_set_streaming on \<Rightarrow> s) (dump_frame_cb payload)"

text \<open>\<open>b"D1"\<close>.\<close>

definition reader_request :: "u8 list" where
  "reader_request = ascii_bytes ''D1''"

lemma reader_request_bytes: "reader_request = [0x44, 0x31]"
  by (simp add: reader_request_def ascii_bytes_def)

lemma request_served: "dump_queue_started s \<Longrightarrow> dump_work_queued (serve_frame reader_request s)"
  by (simp add: serve_frame_def reader_request_bytes dump_frame_cb_def totem_host_event_log_request_dump_def)

lemma request_fields [simp]:
  "ds_link (serve_frame payload s) = ds_link s" "dump_queue_started (serve_frame payload s) = dump_queue_started s"
  by (simp_all add: serve_frame_def dump_frame_cb_def totem_host_event_log_request_dump_def)

section \<open>What the reader prints\<close>

lemma read_loop_out:
  "\<not> dv_complete v \<Longrightarrow> snd (read_loop decode chunks d v) = fst (snd (receive decode (fst (deframe (concat chunks) d)) v))"
proof (induction chunks arbitrary: d v)
  case Nil
  then show ?case by simp
next
  case (Cons chunk chunks)
  obtain ps d1 where d: "deframe chunk d = (ps, d1)" by (metis prod.exhaust)
  obtain code out v1 where r: "receive decode ps v = (code, out, v1)" by (metis prod_cases3)
  show ?case
  proof (cases code)
    case None
    with r Cons.prems receive_incomplete [of v decode ps] have "\<not> dv_complete v1" by simp
    from Cons.IH [OF this, of d1] None show ?thesis
      by (simp add: d r deframe_append receive_append Let_def case_prod_beta)
  next
    case (Some k)
    then show ?thesis by (simp add: d r deframe_append receive_append Let_def case_prod_beta)
  qed
qed

lemma shuffles_split:
  "zs \<in> shuffles (xs @ p # xs') ys \<Longrightarrow> \<exists>as bs us. zs = as @ p # bs \<and> set us \<subseteq> set ys \<and> as \<in> shuffles xs us"
proof (induction zs arbitrary: xs ys)
  case Nil
  then show ?case by simp
next
  case (Cons z zs)
  from Cons.prems consider (left) "hd (xs @ p # xs') = z" "zs \<in> shuffles (tl (xs @ p # xs')) ys"
    | (right) "ys \<noteq> []" "hd ys = z" "zs \<in> shuffles (xs @ p # xs') (tl ys)"
    by (auto simp: Cons_in_shuffles_iff)
  then show ?case
  proof cases
    case left
    show ?thesis
    proof (cases xs)
      case Nil
      with left show ?thesis by (intro exI [of _ "[]"] exI [of _ zs]) simp
    next
      case (Cons x xs1)
      with left Cons.IH [of xs1 ys] obtain as bs us
        where s: "zs = as @ p # bs" "set us \<subseteq> set ys" "as \<in> shuffles xs1 us" by auto
      have "z # as \<in> shuffles xs us" using s(3) left(1) by (simp add: Cons Cons_in_shuffles_leftI)
      with s show ?thesis by (intro exI [of _ "z # as"] exI [of _ bs] exI [of _ us]) simp
    qed
  next
    case right
    with Cons.IH [of xs "tl ys"] obtain as bs us
      where s: "zs = as @ p # bs" "set us \<subseteq> set (tl ys)" "as \<in> shuffles xs us" by blast
    have "z # as \<in> shuffles xs (z # us)" by (rule Cons_in_shuffles_rightI [OF s(3)])
    moreover have "set (z # us) \<subseteq> set ys" using right s(2) by (cases ys) auto
    ultimately show ?thesis using s(1) by (intro exI [of _ "z # as"] exI [of _ bs] exI [of _ "z # us"]) simp
  qed
qed

text \<open>A status line before the dump is printed, whatever comes in between.\<close>

lemma receive_prints_fault:
  assumes "decodes_ascii decode" and "\<not> dv_complete v"
    and "payloads \<in> shuffles (map line_payload (ls @ saved_fault_line r # ls')) others"
    and "\<forall>l \<in> set ls. ascii l \<and> \<not> dump_text l" and "\<forall>p \<in> set others. skipped decode p"
  shows "saved_fault_line r \<in> set (fst (snd (receive decode payloads v)))"
proof -
  let ?l = "saved_fault_line r"
  from assms(3) obtain as bs us where s: "payloads = as @ line_payload ?l # bs" "set us \<subseteq> set others"
    "as \<in> shuffles (map line_payload ls) us" using shuffles_split by fastforce
  have "skipped decode p" if "p \<in> set as" for p
    using that set_shuffles [OF s(3)] s(2) assms(4,5) skipped_line [OF assms(1)] by auto
  then have "filter (\<lambda>p. \<not> skipped decode p) as = []" by (simp add: filter_empty_conv)
  with receive_skips [OF assms(2), of decode as] have none: "fst (receive decode as v) = None" by simp
  have "ascii ?l" by (simp add: saved_fault_line_def)
  then have "decode (ascii_bytes ?l) = ?l" using assms(1) by (simp add: decodes_ascii_def)
  moreover have "take 18 ?l = ''totem_fault saved ''" by (simp add: saved_fault_line_def)
  ultimately have "?l \<in> set (fst (snd (receive decode (line_payload ?l # bs) v1)))" for v1
    by (simp add: line_payload_def Let_def case_prod_beta)
  with none show ?thesis by (simp add: s(1) receive_append Let_def case_prod_beta)
qed

lemma status_ascii: "ascii (totem_boot_diagnostics_format previous bd)"
  by (simp add: totem_boot_diagnostics_format_def)

section \<open>Properties\<close>

text \<open>
  C7. From the fault to the screen: the keyboard resets with a sealed fault record in RAM and boots; then
  the reader's request frame arrives, the dump thread runs, and the accepted lines come back as
  frames among any others. If the link accepts each line in time, \<open>tools/read_diag_dump.py\<close>
  ends with exit code 0 and has printed the line with kind, reason and place of the fault.
\<close>

theorem reader_reports_fault:
  assumes "kconfig_ok c" and "CONFIG_SETTINGS c" and "CONFIG_TOTEM_FAULT_CAPTURE c" and "storage_ok flash order"
    and "r = fault_rec (b_fault s)" and "fault_valid crc r" and "fr_kind r \<noteq> 0"
    and "length (in_early i) + 9 \<le> RING_CAP c" and "unat (saved_seq c crc flash) + length (in_early i) + 9 < 2 ^ 32 - 1"
    and "s' = totem_boot c crc R i flash order (soft_reset c s)"
    and "- (2 ^ 31) \<le> fst (in_read i)" and "fst (in_read i) < 2 ^ 31"
    and "link_patient c (length (dump_script c did (b_diag s') (b_fault s') (b_journal s'))) w" and "sent w = []"
    and "d = dump_queue_turn c did (b_diag s') (b_fault s') (b_journal s')
           (serve_frame reader_request (host_diag_dump_init (dump_service_boot w)))"
    and "payloads \<in> shuffles (map line_payload (sent (ds_link d))) others" and "\<forall>p \<in> set others. skipped decode p"
    and "decodes_ascii decode" and "\<forall>p \<in> set payloads. length p \<le> 512" and "concat chunks = concat (map frame payloads)"
  shows "fst (read_diag_dump decode chunks) = 0 \<and> saved_fault_line r \<in> set (snd (read_diag_dump decode chunks))"
proof
  let ?j = "b_journal s'" and ?bd = "b_diag s'" and ?fs = "b_fault s'"
  let ?S = "dump_script c did ?bd ?fs ?j" and ?dump = "sent (totem_host_event_log_dump c did ?bd ?fs ?j w)"
  obtain hist n where h: "history_inv c (unat (saved_seq c crc flash)) hist [] None ?j" "length hist \<le> RING_CAP c"
    "last_fault ?fs = r" using boot_after_fault [OF assms(1,2,4-6,8-10)] by metis
  then have "length (ring_get_ordered ?j) \<le> RING_CAP c" by (simp add: history_inv_def)
  then have ring: "ring_count ?j \<le> RING_CAP c" by (simp add: ring_get_ordered_def)
  have range: "- (2 ^ 31) \<le> reset_read_result ?bd" "reset_read_result ?bd < 2 ^ 31"
    using assms(11,12) by (simp_all add: assms(10) boot_reset_result)
  have "sent (ds_link d) = ?dump"
    using request_served [of "host_diag_dump_init (dump_service_boot w)"]
    by (simp add: assms(15) dump_queue_turn_def dump_work_handler_def) (simp add: host_diag_dump_init_def dump_service_boot_def)
  moreover have "?dump = ?S" using dump_completes [OF assms(1) range, of did ?fs ?j w] assms(13,14) by simp
  ultimately have lines: "sent (ds_link d) = ?S" and dump: "?S = ?dump" by simp_all
  have mixed: "payloads \<in> shuffles (map line_payload ?S) others" using assms(16) by (simp only: lines)
  from receiver_verdict_exact [OF assms(1) range ring assms(18,14) dump mixed assms(17,19,20)]
  show "fst (read_diag_dump decode chunks) = 0" by simp
  have split: "?S = [totem_boot_diagnostics_format False ?bd, totem_boot_diagnostics_format True ?bd]
      @ saved_fault_line r # drop 3 ?S" using assms(3,7) by (simp add: dump_script_def h(3))
  have status: "\<forall>l \<in> set [totem_boot_diagnostics_format False ?bd, totem_boot_diagnostics_format True ?bd]. ascii l \<and> \<not> dump_text l"
    by (simp add: status_ascii)
  have fresh: "\<not> dv_complete verifier_init" and between: "between_frames deframer_init"
    by (simp_all add: verifier_init_def between_frames_def deframer_init_def)
  have "saved_fault_line r \<in> set (fst (snd (receive decode payloads verifier_init)))"
    by (rule receive_prints_fault [OF assms(18) fresh _ status assms(17)]) (subst split [symmetric], rule mixed)
  then show "saved_fault_line r \<in> set (snd (read_diag_dump decode chunks))"
    using deframe_frames [OF between assms(19)] by (simp add: read_diag_dump_def read_loop_out [OF fresh] assms(20))
qed

text \<open>The second watchdog channel expires, and the reader is started after the reset.\<close>

theorem reader_reports_fault_witness:
  "let s = totem_task_wdt_cb (\<lambda>_. 7) 77 0x20001000 None 1 demo_running
   in \<exists>chunks. fst (read_diag_dump ascii_decode chunks) = 0
        \<and> saved_fault_line (fault_rec (b_fault s)) \<in> set (snd (read_diag_dump ascii_decode chunks))"
proof -
  let ?c = minimal_config and ?s = "totem_task_wdt_cb (\<lambda>_. 7) 77 0x20001000 None 1 demo_running"
  let ?b = "totem_boot ?c (\<lambda>_. 7) demo_masks demo_inputs demo_settings [''th/dlog/1'', ''tboot/count''] (soft_reset ?c ?s)"
  let ?S = "dump_script ?c 90 (b_diag ?b) (b_fault ?b) (b_journal ?b)"
  let ?w = "\<lparr>answers = replicate (length ?S) (True, 0), sent = []\<rparr>"
  let ?d = "dump_queue_turn ?c 90 (b_diag ?b) (b_fault ?b) (b_journal ?b)
      (serve_frame reader_request (host_diag_dump_init (dump_service_boot ?w)))"
  have k: "CONFIG_SETTINGS ?c" "CONFIG_TOTEM_FAULT_CAPTURE ?c" "length (in_early demo_inputs) + 9 \<le> RING_CAP ?c"
    by (simp_all add: minimal_config_def totem_left_config_def demo_inputs_def)
  have q: "unat (saved_seq ?c (\<lambda>_. 7) demo_settings) + length (in_early demo_inputs) + 9 < 2 ^ 32 - 1"
    unfolding demo_saved_seq by (simp add: demo_inputs_def)
  have v: "fault_valid (\<lambda>_. 7) (fault_rec (b_fault ?s))"
    by (simp add: totem_task_wdt_cb_def totem_fault_note_task_wdt_def fault_envelope.seal_valid Let_def)
  have f: "fr_kind (fault_rec (b_fault ?s)) \<noteq> 0"
    by (simp add: totem_task_wdt_cb_def totem_fault_note_task_wdt_def Let_def)
  have r: "- (2 ^ 31) \<le> fst (in_read demo_inputs)" "fst (in_read demo_inputs) < 2 ^ 31" by (simp_all add: demo_inputs_def)
  have p: "link_patient ?c (length ?S) ?w" by (simp add: link_patient_def patient_ready)
  have e: "sent ?w = []" by simp
  have range: "- (2 ^ 31) \<le> reset_read_result (b_diag ?b)" "reset_read_result (b_diag ?b) < 2 ^ 31"
    using r by (simp_all add: boot_reset_result)
  have "sent (ds_link ?d) = ?S"
    using dump_completes [OF kconfig_ok_minimal range p] request_served [of "host_diag_dump_init (dump_service_boot ?w)"]
    by (simp add: dump_queue_turn_def dump_work_handler_def) (simp add: host_diag_dump_init_def dump_service_boot_def)
  then have short: "\<forall>x \<in> set (map line_payload (sent (ds_link ?d))). length x \<le> 512"
    using dump_lines_fit [OF range] by (fastforce simp: line_payload_def ascii_bytes_def)
  have mixed: "map line_payload (sent (ds_link ?d)) \<in> shuffles (map line_payload (sent (ds_link ?d))) []" by simp
  have none: "\<forall>x \<in> set []. skipped ascii_decode x" by simp
  have whole: "concat [bs] = bs" for bs :: "u8 list" by simp
  from reader_reports_fault [OF kconfig_ok_minimal k(1,2) demo_storage_ok refl v f k(3) q refl r p e refl mixed none
      ascii_decode_ok short whole]
  show ?thesis unfolding Let_def by blast
qed

end
