(* ===== verification/Dump_Contents.thy ===== *)
theory Dump_Contents
  imports Dump_Receiver
begin

text \<open>
  A dump loses nothing: the text of a complete dump determines every stored block and every event of
  the ring it was made from. Printed numbers are unambiguous (\<open>Line_Scan\<close>), so each line determines
  its record; the header's counts determine where the blocks end and the ring begins.
\<close>

section \<open>Lines determine records\<close>

lemma fmt_append_iff [simp]:
  fixes v w :: "'a::len word"
  assumes "ends_number r" and "ends_number s"
  shows "fmt_u v @ r = fmt_u w @ s \<longleftrightarrow> v = w \<and> r = s" "fmt_d i @ r = fmt_d k @ s \<longleftrightarrow> i = k \<and> r = s"
  using fmt_u_append_inj [of v r w s] fmt_d_append_inj [of i r k s] assms by auto

lemma fmt_u_iff [simp]: "fmt_u v = fmt_u w \<longleftrightarrow> v = w" for v w :: "'a::len word"
  using fmt_u_append_inj [of v "[]" w "[]"] by auto

lemma field_start [simp]: "\<not> is_digit CHR '' ''"
  by (simp add: is_digit_def)

lemma sint_iff: "sint v = sint w \<longleftrightarrow> v = w" for v w :: "'a::len word"
  using signed_word_eqI by blast

lemma event_detail_inj:
  "event_detail e source slot seq = event_detail e' source slot' seq' \<longleftrightarrow> e = e' \<and> slot = slot' \<and> seq = seq'"
  by (auto simp: event_detail_def sint_iff)

lemma block_detail_inj:
  "block_detail slot b = block_detail slot' b' \<longleftrightarrow> slot = slot' \<and> blk_journal_seq b = blk_journal_seq b'
     \<and> blk_first_event_seq b = blk_first_event_seq b' \<and> blk_count b = blk_count b'"
  by (auto simp: block_detail_def)

lemma data_line_inj: "data_line did n d = data_line did n d' \<longleftrightarrow> d = d'"
  by (simp add: data_line_def)

lemma begin_line_inj:
  "begin_line did e b p n q = begin_line did' e' b' p' n' q' \<longleftrightarrow>
     did = did' \<and> e = e' \<and> b = b' \<and> p = p' \<and> n = n' \<and> q = q'"
  by (auto simp: begin_line_def)

lemma numbered_inj: "numbered did ordinal ds = numbered did ordinal ds' \<longleftrightarrow> ds = ds'"
proof (induction ds arbitrary: ordinal ds')
  case Nil
  then show ?case by (cases ds') simp_all
next
  case (Cons d ds)
  then show ?case by (cases ds') (simp_all add: data_line_inj)
qed

section \<open>Blocks and ring\<close>

text \<open>What a dump says of a stored block.\<close>

definition slot_record :: "journal \<Rightarrow> nat \<Rightarrow> (u8 \<times> u32 \<times> u32 \<times> u8) \<times> (u32 \<times> totem_host_event) list" where
  "slot_record j slot = (let b = restored_blocks j ! slot in
     ((of_nat slot, blk_journal_seq b, blk_first_event_seq b, blk_count b), block_events b))"

definition stored_records ::
  "totem_config \<Rightarrow> journal \<Rightarrow> ((u8 \<times> u32 \<times> u32 \<times> u8) \<times> (u32 \<times> totem_host_event) list) list" where
  "stored_records c j = map (slot_record j) (filter (\<lambda>k. restored_valid j ! k) (dump_slot_order c j))"

definition record_lines :: "(u8 \<times> u32 \<times> u32 \<times> u8) \<times> (u32 \<times> totem_host_event) list \<Rightarrow> string list" where
  "record_lines r = (case r of ((slot, jseq, first, count), es) \<Rightarrow>
     (''b s='' @ fmt_u slot @ '' j='' @ fmt_u jseq @ '' first='' @ fmt_u first @ '' count='' @ fmt_u count)
     # map (\<lambda>q. event_detail (snd q) CHR ''p'' slot (fst q)) es)"

lemma record_lines_pair:
  "record_lines ((slot, jseq, first, count), es) =
     (''b s='' @ fmt_u slot @ '' j='' @ fmt_u jseq @ '' first='' @ fmt_u first @ '' count='' @ fmt_u count)
     # map (\<lambda>q. event_detail (snd q) CHR ''p'' slot (fst q)) es"
  by (simp add: record_lines_def)

lemma slot_details_record:
  "slot_details j k = (if restored_valid j ! k then record_lines (slot_record j k) else [])"
  by (simp add: slot_details_def record_lines_def slot_record_def block_detail_def Let_def)

lemma slots_record_lines: "concat (map (slot_details j) (dump_slot_order c j)) = concat (map record_lines (stored_records c j))"
proof -
  have "concat (map (slot_details j) ks) = concat (map record_lines (map (slot_record j) (filter (\<lambda>k. restored_valid j ! k) ks)))"
    for ks by (induction ks) (simp_all add: slot_details_record)
  then show ?thesis by (simp only: stored_records_def)
qed

definition counted :: "(u8 \<times> u32 \<times> u32 \<times> u8) \<times> (u32 \<times> totem_host_event) list \<Rightarrow> bool" where
  "counted r \<longleftrightarrow> length (snd r) = unat (snd (snd (snd (fst r))))"

lemma stored_counted: "r \<in> set (stored_records c j) \<Longrightarrow> counted r"
  by (auto simp: stored_records_def slot_record_def counted_def block_events_def Let_def)

lemma map_event_detail_inj:
  "map (\<lambda>q. event_detail (snd q) source slot (fst q)) es = map (\<lambda>q. event_detail (snd q) source slot (fst q)) es' \<longleftrightarrow> es = es'"
  by (rule inj_map_eq_map) (auto simp: inj_def event_detail_inj prod_eq_iff)

lemma record_lines_inj:
  "\<forall>r \<in> set rs. counted r \<Longrightarrow> \<forall>r \<in> set rs'. counted r \<Longrightarrow>
   concat (map record_lines rs) = concat (map record_lines rs') \<Longrightarrow> rs = rs'"
proof (induction rs arbitrary: rs')
  case Nil
  then show ?case by (cases rs') (auto simp: record_lines_def split: prod.splits)
next
  case (Cons r rs)
  then obtain r' rs'' where rs': "rs' = r' # rs''" by (cases rs') (auto simp: record_lines_def split: prod.splits)
  obtain h es h' es' where r: "r = (h, es)" "r' = (h', es')" by (cases r, cases r')
  from Cons.prems(3) have h: "h = h'" unfolding rs' r by (cases h, cases h') (auto simp: record_lines_pair)
  with Cons.prems(1,2) have "length es = length es'" by (simp add: rs' r counted_def)
  with Cons.prems(3) have "es = es' \<and> concat (map record_lines rs) = concat (map record_lines rs'')"
    unfolding rs' r h by (cases h') (simp add: record_lines_pair map_event_detail_inj)
  with Cons.IH [of rs''] Cons.prems(1,2) show ?case by (simp add: rs' r h)
qed

section \<open>Properties\<close>

lemma script_core:
  assumes "dump_script c did bd fs j = dump_script c did' bd' fs' j'"
  shows "ring_count j mod 65536 = ring_count j' mod 65536" "dump_details c j = dump_details c j'" "ring_seq j = ring_seq j'"
proof -
  let ?core = "\<lambda>did j. begin_line did (dump_expected c j) (dump_blocks_count c j) (dump_persistent_events c j)
      (of_nat (ring_count j)) (ring_seq j) # numbered did 0 (dump_details c j) @ [end_line did (of_nat (length (dump_details c j)))]"
  have "filter dump_text (dump_script c did bd fs j) = ?core did j" for did bd fs j
  proof -
    have clean: "\<forall>d \<in> set (dump_details c j). clean_text d" using details_clean by blast
    obtain pre where "dump_script c did bd fs j = pre @ ?core did j" "\<forall>line \<in> set pre. \<not> dump_text line"
      by (rule script_dump_lines)
    then show ?thesis by (simp add: filter_numbered [OF clean])
  qed
  with assms have core: "?core did j = ?core did' j'" by metis
  then have d: "did = did'" and k: "(of_nat (ring_count j) :: u16) = of_nat (ring_count j')" and q: "ring_seq j = ring_seq j'"
    by (simp_all add: begin_line_inj)
  from core have "numbered did 0 (dump_details c j) = numbered did 0 (dump_details c j')" by (simp add: d)
  then show "dump_details c j = dump_details c j'" by (simp add: numbered_inj)
  from k have "unat (of_nat (ring_count j) :: u16) = unat (of_nat (ring_count j') :: u16)" by simp
  then show "ring_count j mod 65536 = ring_count j' mod 65536" by (simp add: unat_of_nat)
  show "ring_seq j = ring_seq j'" by (rule q)
qed

text \<open>
  C22. The dump loses nothing: if two dumps read the same, line by line, then the journals they were made from hold the
  same stored blocks (slot, journal number, first sequence number, count and every event) in the
  same order and the same events with the same sequence numbers in the ring, whatever else differed.
\<close>

theorem dump_loses_nothing:
  assumes "kconfig_ok c" and "ring_count j \<le> RING_CAP c" and "ring_count j' \<le> RING_CAP c"
    and "dump_script c did bd fs j = dump_script c did' bd' fs' j'"
  shows "stored_records c j = stored_records c j' \<and> ram_events j = ram_events j'"
proof -
  have "ring_count j < 65536" "ring_count j' < 65536" using assms(1-3) by (simp_all add: kconfig_ok_def)
  with script_core [OF assms(4)] have k: "length (ram_events j) = length (ram_events j')"
    and d: "dump_details c j = dump_details c j'" by simp_all
  from d k have blocks: "concat (map record_lines (stored_records c j)) = concat (map record_lines (stored_records c j'))"
    and ram: "ram_events j = ram_events j'"
    by (simp_all add: dump_details_def slots_record_lines map_event_detail_inj)
  from blocks have "stored_records c j = stored_records c j'" by (intro record_lines_inj) (simp_all add: stored_counted)
  with ram show ?thesis by simp
qed

text \<open>The same journal before and after its sequence numbers became final.\<close>

lemma dump_script_ready: "dump_script c did bd fs (j\<lparr>journal_ready := b\<rparr>) = dump_script c did bd fs j"
proof -
  have slot: "slot_details (j\<lparr>journal_ready := b\<rparr>) = slot_details j" by (intro ext) (simp add: slot_details_def)
  show ?thesis
    by (simp add: dump_script_def dump_expected_def dump_blocks_count_def dump_persistent_events_def dump_details_def
        ram_events_def ring_get_ordered_def slot dump_slot_order_def cong: if_cong)
qed

theorem dump_loses_nothing_witness:
  "let j = record_event minimal_config 5 zero_event False (journal_boot minimal_config); j' = j\<lparr>journal_ready := True\<rparr>;
       fs = \<lparr>fault_rec = zero_fault, last_fault = zero_fault\<rparr>
   in ring_count j = 1 \<and> stored_records minimal_config j = stored_records minimal_config j' \<and> ram_events j = ram_events j'"
proof -
  let ?j = "record_event minimal_config 5 zero_event False (journal_boot minimal_config)"
  let ?j' = "?j\<lparr>journal_ready := True\<rparr>" and ?fs = "\<lparr>fault_rec = zero_fault, last_fault = zero_fault\<rparr>"
  have count: "ring_count ?j = 1" by code_simp
  then have ring: "ring_count ?j \<le> RING_CAP minimal_config" "ring_count ?j' \<le> RING_CAP minimal_config"
    using kconfig_ok_minimal by (simp_all add: kconfig_ok_def)
  have "dump_script minimal_config 9 (boot_diag_init 0 0) ?fs ?j = dump_script minimal_config 9 (boot_diag_init 0 0) ?fs ?j'"
    by (simp only: dump_script_ready)
  from dump_loses_nothing [OF kconfig_ok_minimal ring this] count show ?thesis by (simp only: Let_def)
qed

end
