(* ===== verification/Watchdog_Feed.thy ===== *)
theory Watchdog_Feed
  imports Watchdog
begin

text \<open>
  The three feeders of the task watchdog, \<open>src/totem_watchdog.c\<close>: the lowest-priority thread, a work
  item of the system work queue and a timer interrupt each feed a channel of their own. Zephyr's
  task watchdog calls back for a channel that was not fed within the timeout; \<open>fed\<close> is the history
  of \<open>task_wdt_feed\<close> calls.
\<close>

section \<open>Feeders\<close>

record feeders =
  fed :: "(int \<times> int) list"
  wdt_workq_work :: "int option"
  feeder_sleep :: int
  timer_period :: int

definition feed :: "int \<Rightarrow> int \<Rightarrow> feeders \<Rightarrow> feeders" where
  "feed now channel s = s\<lparr>fed := fed s @ [(now, channel)]\<rparr>"

text \<open>What \<open>totem_watchdog_init\<close> starts after arming.\<close>

definition feeders_start :: "totem_config \<Rightarrow> feeders" where
  "feeders_start c = \<lparr>fed = [], wdt_workq_work = Some (WDT_FEED_INTERVAL_MS c), feeder_sleep = 0,
     timer_period = WDT_FEED_INTERVAL_MS c\<rparr>"

text \<open>One turn of the endless loop: the feed, then the sleep.\<close>

definition wdt_feeder :: "totem_config \<Rightarrow> wdt_state \<Rightarrow> int \<Rightarrow> feeders \<Rightarrow> feeders" where
  "wdt_feeder c w now s = (feed now (chan_sched w) s)\<lparr>feeder_sleep := WDT_FEED_INTERVAL_MS c\<rparr>"

definition wdt_workq_handler :: "totem_config \<Rightarrow> wdt_state \<Rightarrow> int \<Rightarrow> feeders \<Rightarrow> feeders" where
  "wdt_workq_handler c w now s = (feed now (chan_workq w) s)\<lparr>wdt_workq_work := Some (WDT_FEED_INTERVAL_MS c)\<rparr>"

definition wdt_timer_handler :: "wdt_state \<Rightarrow> int \<Rightarrow> feeders \<Rightarrow> feeders" where
  "wdt_timer_handler w now s = feed now (chan_timer w) s"

section \<open>Runs\<close>

datatype wdt_context = Ctx_sched | Ctx_workq | Ctx_timer

primrec context_label :: "wdt_context \<Rightarrow> string" where
  "context_label Ctx_sched = ''sched''"
| "context_label Ctx_workq = ''sysworkq''"
| "context_label Ctx_timer = ''timer''"

primrec context_run :: "totem_config \<Rightarrow> wdt_state \<Rightarrow> int \<times> wdt_context \<Rightarrow> feeders \<Rightarrow> feeders" where
  "context_run c w (now, x) s =
     (case x of Ctx_sched \<Rightarrow> wdt_feeder c w now s | Ctx_workq \<Rightarrow> wdt_workq_handler c w now s
      | Ctx_timer \<Rightarrow> wdt_timer_handler w now s)"

primrec context_channel :: "wdt_state \<Rightarrow> wdt_context \<Rightarrow> int" where
  "context_channel w Ctx_sched = chan_sched w"
| "context_channel w Ctx_workq = chan_workq w"
| "context_channel w Ctx_timer = chan_timer w"

text \<open>A channel is overdue when it was neither fed nor added within the timeout.\<close>

definition overdue :: "totem_config \<Rightarrow> int \<Rightarrow> int \<Rightarrow> int \<Rightarrow> feeders \<Rightarrow> bool" where
  "overdue c armed_at now channel s \<longleftrightarrow> now - armed_at > CONFIG_TOTEM_WATCHDOG_TIMEOUT_MS c
     \<and> (\<forall>(t, ch) \<in> set (fed s). ch = channel \<longrightarrow> now - t > CONFIG_TOTEM_WATCHDOG_TIMEOUT_MS c)"

lemma run_fed: "fed (fold (context_run c w) runs s) = fed s @ map (\<lambda>(t, x). (t, context_channel w x)) runs"
  by (induction runs arbitrary: s)
    (auto simp: wdt_feeder_def wdt_workq_handler_def wdt_timer_handler_def feed_def split: wdt_context.splits)

lemma context_channel_inj:
  "distinct [chan_sched w, chan_workq w, chan_timer w] \<Longrightarrow> context_channel w x = context_channel w y \<longleftrightarrow> x = y"
  by (cases x; cases y) auto

lemma chan_label_context:
  "distinct [chan_sched w, chan_workq w, chan_timer w] \<Longrightarrow> chan_label w (context_channel w x) = context_label x"
  by (cases x) (auto simp: chan_label_def)

section \<open>Who is named\<close>

text \<open>
  A hang is blamed on the context that stopped, and only on it: with three distinct channels, the
  overdue channels carry exactly the labels of the contexts that did not run within the timeout,
  whatever the order and the times of the runs.
\<close>

theorem overdue_names_stopped:
  assumes "distinct [chan_sched w, chan_workq w, chan_timer w]" and "now - armed_at > CONFIG_TOTEM_WATCHDOG_TIMEOUT_MS c"
  shows "{chan_label w (context_channel w x) | x.
        overdue c armed_at now (context_channel w x) (fold (context_run c w) runs (feeders_start c))}
    = {context_label x | x. \<forall>(t, y) \<in> set runs. y = x \<longrightarrow> now - t > CONFIG_TOTEM_WATCHDOG_TIMEOUT_MS c}"
proof -
  have "overdue c armed_at now (context_channel w x) (fold (context_run c w) runs (feeders_start c))
      \<longleftrightarrow> (\<forall>(t, y) \<in> set runs. y = x \<longrightarrow> now - t > CONFIG_TOTEM_WATCHDOG_TIMEOUT_MS c)" for x
    using assms(2) context_channel_inj [OF assms(1)]
    by (auto simp: overdue_def run_fed feeders_start_def split: prod.splits)
  with chan_label_context [OF assms(1)] show ?thesis by simp
qed

end
