(* ===== verification/Exclusive_Host.thy ===== *)
theory Exclusive_Host
  imports Platform
begin

text \<open>
  Exclusive host, \<open>src/exclusive_host.c\<close>: background computers are disconnected so that only
  the selected profile's computer stays linked, with guards against eviction storms. Every
  handler is a function on the module's static variables; what it does to the outside (journal
  records, disconnects, work items, clearing bonds) is appended with the clock to \<open>x_out\<close>.
  Console lines are not modelled; the variables that rate-limit them are.
\<close>

section \<open>State\<close>

datatype excl_effect =
    X_log log_call
  | X_disconnect bt_conn u8 int
  | X_submit_evict
  | X_schedule_retry int
  | X_reschedule_fallback int
  | X_submit_bond_clear
  | X_clear_bonds

definition EXCLUSIVE_HOST_RETRY_MS :: int where [simp]: "EXCLUSIVE_HOST_RETRY_MS = 150"
definition EXCLUSIVE_HOST_SETTLE_MS :: int where [simp]: "EXCLUSIVE_HOST_SETTLE_MS = 2000"
definition THRASH_RING_SIZE :: nat where [simp]: "THRASH_RING_SIZE = 16"
definition CLASS_A_WINDOW_MS :: int where [simp]: "CLASS_A_WINDOW_MS = 60000"
definition CLASS_A_FAIL_THRESHOLD :: nat where [simp]: "CLASS_A_FAIL_THRESHOLD = 3"

definition THRASH_WINDOW_MS :: "totem_config \<Rightarrow> int" where
  "THRASH_WINDOW_MS c = CONFIG_TOTEM_THRASH_WINDOW_SEC c * 1000"

record excl =
  bg_ignore_until :: "int list"
  thrash_cap_logged :: bool
  last_active_profile :: int
  thrash_ring :: "int list"
  thrash_ring_head :: nat
  thrash_ring_count :: nat
  class_a_fail_ts :: "int list"
  class_a_fail_count :: nat
  last_skip_log_ms :: int
  last_ignore_log_ms :: int
  active_auth_fail_streak :: u8
  x_out :: "(int \<times> excl_effect) list"

definition excl_boot :: "totem_config \<Rightarrow> excl" where
  "excl_boot c = \<lparr>bg_ignore_until = replicate (ZMK_BLE_PROFILE_COUNT c) 0, thrash_cap_logged = False,
     last_active_profile = - 1, thrash_ring = replicate THRASH_RING_SIZE 0, thrash_ring_head = 0,
     thrash_ring_count = 0, class_a_fail_ts = replicate CLASS_A_FAIL_THRESHOLD 0, class_a_fail_count = 0,
     last_skip_log_ms = 0, last_ignore_log_ms = 0, active_auth_fail_streak = 0, x_out = []\<rparr>"

definition emit :: "ble_env \<Rightarrow> excl_effect \<Rightarrow> excl \<Rightarrow> excl" where
  "emit e x s = s\<lparr>x_out := x_out s @ [(k_uptime_get e, x)]\<rparr>"

section \<open>Per-profile ignore times\<close>

definition bg_clear_ignores :: "excl \<Rightarrow> excl" where
  "bg_clear_ignores s = s\<lparr>bg_ignore_until := replicate (length (bg_ignore_until s)) 0, thrash_cap_logged := False\<rparr>"

definition bg_should_ignore :: "totem_config \<Rightarrow> ble_env \<Rightarrow> int \<Rightarrow> excl \<Rightarrow> bool" where
  "bg_should_ignore c e idx s =
     (if idx < 0 \<or> idx \<ge> int (ZMK_BLE_PROFILE_COUNT c) then False
      else if bg_ignore_until s ! nat idx = 0 then False
      else k_uptime_get e < bg_ignore_until s ! nat idx)"

definition bg_note_evict :: "totem_config \<Rightarrow> ble_env \<Rightarrow> int \<Rightarrow> excl \<Rightarrow> excl" where
  "bg_note_evict c e idx s =
     (if CONFIG_TOTEM_BG_EVICT_IGNORE_MS c > 0 \<and> idx \<ge> 0 \<and> idx < int (ZMK_BLE_PROFILE_COUNT c)
      then s\<lparr>bg_ignore_until := (bg_ignore_until s)[nat idx := k_uptime_get e + CONFIG_TOTEM_BG_EVICT_IGNORE_MS c]\<rparr>
      else s)"

section \<open>Thrash window\<close>

text \<open>The loop walks the ring from the newest entry backwards and stops outside the window.\<close>

definition thrash_newest_first :: "excl \<Rightarrow> int list" where
  "thrash_newest_first s =
     map (\<lambda>i. thrash_ring s ! ((thrash_ring_head s + THRASH_RING_SIZE - 1 - i) mod THRASH_RING_SIZE))
       [0..<thrash_ring_count s]"

definition thrash_win_count :: "totem_config \<Rightarrow> ble_env \<Rightarrow> excl \<Rightarrow> nat" where
  "thrash_win_count c e s =
     (if CONFIG_TOTEM_THRASH_DETECT c
      then length (takeWhile (\<lambda>t. \<not> k_uptime_get e - t > THRASH_WINDOW_MS c) (thrash_newest_first s))
      else 0)"

definition thrash_push :: "int \<Rightarrow> excl \<Rightarrow> excl" where
  "thrash_push now s = s\<lparr>thrash_ring := (thrash_ring s)[thrash_ring_head s := now],
     thrash_ring_head := (thrash_ring_head s + 1) mod THRASH_RING_SIZE,
     thrash_ring_count := (if thrash_ring_count s < THRASH_RING_SIZE then thrash_ring_count s + 1
                           else thrash_ring_count s)\<rparr>"

definition thrash_note_bg_evict :: "totem_config \<Rightarrow> ble_env \<Rightarrow> excl \<Rightarrow> excl" where
  "thrash_note_bg_evict c e s0 =
     (if \<not> CONFIG_TOTEM_THRASH_DETECT c then s0
      else
        let s = thrash_push (k_uptime_get e) s0;
            win = thrash_win_count c e s
        in emit e (X_log (log_args TOTEM_HEVT_THRASH_WIN (- 1) (to_i8 (zmk_ble_active_profile_index e))
                     (of_nat win) (of_nat win) 0)) s)"

definition thrash_clear :: "totem_config \<Rightarrow> excl \<Rightarrow> excl" where
  "thrash_clear c s = (if CONFIG_TOTEM_THRASH_DETECT c then s\<lparr>thrash_ring_head := 0, thrash_ring_count := 0\<rparr> else s)"

section \<open>Authentication failures of the active host\<close>

text \<open>Compaction in place: entry \<open>i\<close> moves down to position \<open>kept\<close> when it is recent.\<close>

definition class_a_compact :: "int \<Rightarrow> nat \<Rightarrow> int list \<Rightarrow> nat \<times> int list" where
  "class_a_compact now count ts =
     fold (\<lambda>i (kept, ts). if now - ts ! i \<le> CLASS_A_WINDOW_MS then (kept + 1, ts[kept := ts ! i]) else (kept, ts))
       [0..<count] (0, ts)"

definition class_a_append :: "int \<Rightarrow> nat \<Rightarrow> int list \<Rightarrow> nat \<times> int list" where
  "class_a_append now count ts =
     (if count < CLASS_A_FAIL_THRESHOLD then (count + 1, ts[count := now])
      else (count, (fold (\<lambda>i ts. ts[i - 1 := ts ! i]) [1..<CLASS_A_FAIL_THRESHOLD] ts)
                     [CLASS_A_FAIL_THRESHOLD - 1 := now]))"

definition class_a_note_auth_event :: "totem_config \<Rightarrow> ble_env \<Rightarrow> bool \<Rightarrow> excl \<Rightarrow> excl" where
  "class_a_note_auth_event c e is_fail s0 =
     (if \<not> CONFIG_TOTEM_THRASH_DETECT c then s0
      else if \<not> is_fail then s0\<lparr>class_a_fail_count := 0\<rparr>
      else
        let now = k_uptime_get e;
            (kept, ts) = class_a_compact now (class_a_fail_count s0) (class_a_fail_ts s0);
            (count, ts') = class_a_append now kept ts;
            s = s0\<lparr>class_a_fail_ts := ts', class_a_fail_count := count\<rparr>;
            win = thrash_win_count c e s;
            act = to_i8 (zmk_ble_active_profile_index e)
        in if count \<ge> CLASS_A_FAIL_THRESHOLD \<and> win < 2
           then emit e (X_log (log_args TOTEM_HEVT_CLASS_A_SUSPECT act act (of_nat count) (of_nat win) 0)) s
           else s)"

section \<open>Eviction\<close>

text \<open>What the guards of \<open>drop_if_non_active_host\<close> decide, in their order.\<close>

datatype verdict = Spare | Active_down | Ignored | Capped | Evict

definition evict_verdict :: "totem_config \<Rightarrow> ble_env \<Rightarrow> bool \<Rightarrow> bt_conn \<Rightarrow> excl \<Rightarrow> verdict" where
  "evict_verdict c e force conn s =
     (case conn_info conn of
        None \<Rightarrow> Spare
      | Some info \<Rightarrow>
          if info_role info \<noteq> BT_CONN_ROLE_PERIPHERAL then Spare
          else if totem_hid_is_usb e \<or> totem_usb_cable_up c e then Spare
          else
            let idx = zmk_ble_profile_index e (conn_dst conn); active = zmk_ble_active_profile_index e in
            if idx < 0 then Spare
            else if idx = active then Spare
            else if CONFIG_TOTEM_EVICT_REQUIRES_BONDED_ACTIVE c \<and>
                    (zmk_ble_active_profile_is_open e \<or> \<not> zmk_ble_active_profile_is_connected e) then Active_down
            else if \<not> force \<and> bg_should_ignore c e idx s then Ignored
            else if \<not> force \<and> CONFIG_TOTEM_THRASH_DETECT c \<and> thrash_win_count c e s \<ge> CONFIG_TOTEM_BG_EVICT_CAP c
            then Capped
            else Evict)"

definition drop_if_non_active_host :: "totem_config \<Rightarrow> ble_env \<Rightarrow> bool \<Rightarrow> bt_conn \<Rightarrow> excl \<Rightarrow> excl" where
  "drop_if_non_active_host c e force conn s =
     (let idx = zmk_ble_profile_index e (conn_dst conn);
          active = zmk_ble_active_profile_index e;
          now = k_uptime_get e
      in case evict_verdict c e force conn s of
        Spare \<Rightarrow> s
      | Active_down \<Rightarrow>
          if last_skip_log_ms s = 0 \<or> now - last_skip_log_ms s \<ge> 10000
          then emit e (X_log (log_args TOTEM_HEVT_BG_EVICT (to_i8 idx) (to_i8 active) 0
                         (of_nat (thrash_win_count c e s)) 1)) (s\<lparr>last_skip_log_ms := now\<rparr>)
          else s
      | Ignored \<Rightarrow>
          if last_ignore_log_ms s = 0 \<or> now - last_ignore_log_ms s \<ge> 5000
          then s\<lparr>last_ignore_log_ms := now\<rparr> else s
      | Capped \<Rightarrow> s\<lparr>thrash_cap_logged := True\<rparr>
      | Evict \<Rightarrow>
          let err = bt_conn_disconnect e conn (EVICT_DISCONNECT_REASON c);
              s1 = emit e (X_disconnect conn (EVICT_DISCONNECT_REASON c) err) s
          in if err \<noteq> 0 then s1
             else
               let s2 = thrash_note_bg_evict c e (bg_note_evict c e idx s1)
               in emit e (X_log (log_args TOTEM_HEVT_BG_EVICT (to_i8 idx) (to_i8 active)
                            (EVICT_DISCONNECT_REASON c) (of_nat (thrash_win_count c e s2)) 0)) s2)"

text \<open>\<open>bt_conn_foreach\<close> over the connection table \<open>conns\<close>.\<close>

definition exclusive_host_evict_all :: "totem_config \<Rightarrow> ble_env \<Rightarrow> bool \<Rightarrow> bt_conn list \<Rightarrow> excl \<Rightarrow> excl" where
  "exclusive_host_evict_all c e force conns = fold (drop_if_non_active_host c e force) conns"

text \<open>The three work handlers (immediate, retry and settle scan) all scan without force.\<close>

definition exclusive_host_evict_work_handler :: "totem_config \<Rightarrow> ble_env \<Rightarrow> bt_conn list \<Rightarrow> excl \<Rightarrow> excl" where
  "exclusive_host_evict_work_handler c e conns = exclusive_host_evict_all c e False conns"

section \<open>Bond heal\<close>

definition bond_heal_clear_active_work_handler :: "ble_env \<Rightarrow> excl \<Rightarrow> excl" where
  "bond_heal_clear_active_work_handler e s = emit e X_clear_bonds (s\<lparr>active_auth_fail_streak := 0\<rparr>)"

definition bond_heal_note_auth_failure :: "totem_config \<Rightarrow> ble_env \<Rightarrow> excl \<Rightarrow> excl" where
  "bond_heal_note_auth_failure c e s0 =
     (let s = s0\<lparr>active_auth_fail_streak := active_auth_fail_streak s0 + 1\<rparr>
      in if unat (active_auth_fail_streak s) < CONFIG_TOTEM_BOND_HEAL_THRESHOLD c then s
         else emit e X_submit_bond_clear s)"

definition bond_heal_note_auth_ok :: "excl \<Rightarrow> excl" where
  "bond_heal_note_auth_ok s = (if active_auth_fail_streak s \<noteq> 0 then s\<lparr>active_auth_fail_streak := 0\<rparr> else s)"

section \<open>Callbacks\<close>

definition schedule_retry :: "ble_env \<Rightarrow> excl \<Rightarrow> excl" where
  "schedule_retry e = emit e (X_schedule_retry EXCLUSIVE_HOST_RETRY_MS)"

definition log_host_conn_disc :: "totem_config \<Rightarrow> ble_env \<Rightarrow> bt_conn \<Rightarrow> u8 \<Rightarrow> excl \<Rightarrow> excl" where
  "log_host_conn_disc c e conn disc_reason s =
     (let role = (case conn_info conn of None \<Rightarrow> - 1 | Some info \<Rightarrow> role_num (info_role info))
      in emit e (X_log (log_args TOTEM_HEVT_DISC (to_i8 (zmk_ble_profile_index e (conn_dst conn)))
                   (to_i8 (zmk_ble_active_profile_index e)) disc_reason
                   (of_nat (thrash_win_count c e s)) (to_u8 role))) s)"

definition exclusive_host_connected :: "totem_config \<Rightarrow> ble_env \<Rightarrow> bt_conn \<Rightarrow> u8 \<Rightarrow> excl \<Rightarrow> excl" where
  "exclusive_host_connected c e conn err s =
     (let idx = to_i8 (zmk_ble_profile_index e (conn_dst conn)); active = to_i8 (zmk_ble_active_profile_index e)
      in if err \<noteq> 0 then emit e (X_log (log_args TOTEM_HEVT_CONN_FAIL idx active err 0 0)) s
         else emit e (X_reschedule_fallback EXCLUSIVE_HOST_SETTLE_MS)
                (schedule_retry e (emit e X_submit_evict
                  (emit e (X_log (log_args TOTEM_HEVT_CONN idx active 0 (of_nat (thrash_win_count c e s)) 0)) s))))"

definition exclusive_host_security_changed ::
  "totem_config \<Rightarrow> ble_env \<Rightarrow> bt_conn \<Rightarrow> nat \<Rightarrow> nat \<Rightarrow> excl \<Rightarrow> excl" where
  "exclusive_host_security_changed c e conn level err s0 =
     (let idx = zmk_ble_profile_index e (conn_dst conn);
          active = zmk_ble_active_profile_index e;
          win = of_nat (thrash_win_count c e s0);
          s1 = (if err \<noteq> 0
                then emit e (X_log (log_args TOTEM_HEVT_SEC_FAIL (to_i8 idx) (to_i8 active) (of_nat err) win (of_nat level))) s0
                else emit e (X_log (log_args TOTEM_HEVT_SEC_OK (to_i8 idx) (to_i8 active) 0 win (of_nat level))) s0);
          s2 = (if idx \<noteq> active then s1
                else if err \<noteq> 0 then class_a_note_auth_event c e True s1
                else if level \<ge> BT_SECURITY_L2 then class_a_note_auth_event c e False s1
                else s1);
          s3 = (if \<not> CONFIG_TOTEM_BOND_HEAL c \<or> idx \<noteq> active then s2
                else if err \<noteq> 0 then bond_heal_note_auth_failure c e s2
                else if level \<ge> BT_SECURITY_L2 then bond_heal_note_auth_ok s2
                else s2)
      in schedule_retry e (emit e X_submit_evict s3))"

definition exclusive_host_disconnected :: "totem_config \<Rightarrow> ble_env \<Rightarrow> bt_conn \<Rightarrow> u8 \<Rightarrow> excl \<Rightarrow> excl" where
  "exclusive_host_disconnected c e conn reason s0 =
     (let s1 = log_host_conn_disc c e conn reason s0;
          hit = (zmk_ble_profile_index e (conn_dst conn) = zmk_ble_active_profile_index e
                 \<and> reason = BT_HCI_ERR_AUTH_FAIL);
          s2 = (if hit then class_a_note_auth_event c e True s1 else s1)
      in if CONFIG_TOTEM_BOND_HEAL c \<and> hit then bond_heal_note_auth_failure c e s2 else s2)"

definition exclusive_host_identity_resolved :: "ble_env \<Rightarrow> bt_addr \<Rightarrow> excl \<Rightarrow> excl" where
  "exclusive_host_identity_resolved e identity s =
     schedule_retry e (emit e X_submit_evict
       (emit e (X_log (log_args TOTEM_HEVT_IDENTITY (to_i8 (zmk_ble_profile_index e identity))
          (to_i8 (zmk_ble_active_profile_index e)) 0 0 0)) s))"

definition exclusive_host_profile_changed :: "totem_config \<Rightarrow> ble_env \<Rightarrow> excl \<Rightarrow> excl" where
  "exclusive_host_profile_changed c e s0 =
     (let active = zmk_ble_active_profile_index e;
          switched = (last_active_profile s0 \<ge> 0 \<and> last_active_profile s0 \<noteq> active);
          s1 = s0\<lparr>last_active_profile := active\<rparr>;
          s2 = (if switched
                then class_a_note_auth_event c e False (bg_clear_ignores (thrash_clear c
                       (if CONFIG_TOTEM_BOND_HEAL c then s1\<lparr>active_auth_fail_streak := 0\<rparr> else s1)))
                else s1)
      in schedule_retry e (emit e X_submit_evict
           (emit e (X_log (log_args TOTEM_HEVT_PROFILE_CHANGED (to_i8 active) (to_i8 active)
              (bool_u8 (zmk_ble_active_profile_is_connected e)) 0
              (bool_u8 (zmk_ble_active_profile_is_open e)))) s2)))"

section \<open>Runs\<close>

text \<open>One invocation of a handler; \<open>X_scan\<close> is any of the three work handlers.\<close>

datatype excl_event =
    X_connected bt_conn u8
  | X_security_changed bt_conn nat nat
  | X_disconnected bt_conn u8
  | X_identity_resolved bt_addr
  | X_profile_changed
  | X_scan "bt_conn list"
  | X_bond_clear

primrec excl_step :: "totem_config \<Rightarrow> ble_env \<Rightarrow> excl_event \<Rightarrow> excl \<Rightarrow> excl" where
  "excl_step c e (X_connected conn err) s = exclusive_host_connected c e conn err s"
| "excl_step c e (X_security_changed conn level err) s = exclusive_host_security_changed c e conn level err s"
| "excl_step c e (X_disconnected conn reason) s = exclusive_host_disconnected c e conn reason s"
| "excl_step c e (X_identity_resolved identity) s = exclusive_host_identity_resolved e identity s"
| "excl_step c e X_profile_changed s = exclusive_host_profile_changed c e s"
| "excl_step c e (X_scan conns) s = exclusive_host_evict_work_handler c e conns s"
| "excl_step c e X_bond_clear s = bond_heal_clear_active_work_handler e s"

definition excl_run :: "totem_config \<Rightarrow> (ble_env \<times> excl_event) list \<Rightarrow> excl \<Rightarrow> excl" where
  "excl_run c evs s = fold (\<lambda>(e, ev). excl_step c e ev) evs s"

text \<open>The disconnects a state's history contains, and the times of the successful ones.\<close>

fun disconnects :: "(int \<times> excl_effect) list \<Rightarrow> (int \<times> bt_conn \<times> int) list" where
  "disconnects [] = []"
| "disconnects ((t, X_disconnect conn r err) # xs) = (t, conn, err) # disconnects xs"
| "disconnects (_ # xs) = disconnects xs"

definition evictions :: "excl \<Rightarrow> (int \<times> bt_conn \<times> int) list" where
  "evictions s = filter (\<lambda>(t, conn, err). err = 0) (disconnects (x_out s))"

definition evict_times :: "excl \<Rightarrow> int list" where
  "evict_times s = map fst (evictions s)"

section \<open>Lemmas\<close>

lemma disconnects_append [simp]: "disconnects (xs @ ys) = disconnects xs @ disconnects ys"
  by (induction xs rule: disconnects.induct) simp_all

lemma emit_fields [simp]:
  "bg_ignore_until (emit e x s) = bg_ignore_until s" "thrash_ring (emit e x s) = thrash_ring s"
  "thrash_ring_head (emit e x s) = thrash_ring_head s" "thrash_ring_count (emit e x s) = thrash_ring_count s"
  "last_active_profile (emit e x s) = last_active_profile s"
  "class_a_fail_ts (emit e x s) = class_a_fail_ts s" "class_a_fail_count (emit e x s) = class_a_fail_count s"
  "x_out (emit e x s) = x_out s @ [(k_uptime_get e, x)]"
  by (simp_all add: emit_def)

text \<open>The variables the eviction guards read.\<close>

definition guard_vars :: "excl \<Rightarrow> int list \<times> int list \<times> nat \<times> nat \<times> int" where
  "guard_vars s = (bg_ignore_until s, thrash_ring s, thrash_ring_head s, thrash_ring_count s, last_active_profile s)"

definition quiet :: "excl \<Rightarrow> excl \<Rightarrow> bool" where
  "quiet s s' \<longleftrightarrow> guard_vars s' = guard_vars s \<and> disconnects (x_out s') = disconnects (x_out s)"

lemma class_a_quiet: "quiet s (class_a_note_auth_event c e b s)"
  by (simp add: quiet_def guard_vars_def class_a_note_auth_event_def Let_def case_prod_beta)

lemma bond_heal_quiet:
  "quiet s (bond_heal_note_auth_failure c e s)" "quiet s (bond_heal_note_auth_ok s)"
  "quiet s (bond_heal_clear_active_work_handler e s)"
  by (simp_all add: quiet_def guard_vars_def bond_heal_note_auth_failure_def bond_heal_note_auth_ok_def
      bond_heal_clear_active_work_handler_def Let_def)

lemma emit_quiet: "(\<And>conn r err. x \<noteq> X_disconnect conn r err) \<Longrightarrow> quiet s (emit e x s)"
  by (cases x) (auto simp: quiet_def guard_vars_def)

lemma quiet_refl: "quiet s s"
  by (simp add: quiet_def)

lemma quiet_trans: "quiet s t \<Longrightarrow> quiet t u \<Longrightarrow> quiet s u"
  by (simp add: quiet_def)

lemma callbacks_quiet:
  "quiet s (exclusive_host_connected c e conn err s)"
  "quiet s (exclusive_host_security_changed c e conn level serr s)"
  "quiet s (exclusive_host_disconnected c e conn reason s)"
  "quiet s (exclusive_host_identity_resolved e identity s)"
proof -
  note em = emit_quiet quiet_trans [OF _ emit_quiet]
  show "quiet s (exclusive_host_connected c e conn err s)"
    unfolding exclusive_host_connected_def schedule_retry_def Let_def
    by (cases "err \<noteq> 0") (simp_all add: em)
  show "quiet s (exclusive_host_identity_resolved e identity s)"
    unfolding exclusive_host_identity_resolved_def schedule_retry_def by (simp add: em)
  show "quiet s (exclusive_host_disconnected c e conn reason s)"
    unfolding exclusive_host_disconnected_def log_host_conn_disc_def Let_def
    by (auto intro!: em quiet_trans [OF _ class_a_quiet] quiet_trans [OF _ bond_heal_quiet(1)])
  show "quiet s (exclusive_host_security_changed c e conn level serr s)"
    unfolding exclusive_host_security_changed_def schedule_retry_def Let_def
    by (auto intro!: em quiet_trans [OF _ class_a_quiet] quiet_trans [OF _ bond_heal_quiet(1)]
        quiet_trans [OF _ bond_heal_quiet(2)])
qed

lemma profile_changed_quiet:
  assumes "last_active_profile s < 0 \<or> last_active_profile s = zmk_ble_active_profile_index e"
  shows "disconnects (x_out (exclusive_host_profile_changed c e s)) = disconnects (x_out s)"
    "guard_vars (exclusive_host_profile_changed c e s) = guard_vars (s\<lparr>last_active_profile := zmk_ble_active_profile_index e\<rparr>)"
  using assms by (auto simp: exclusive_host_profile_changed_def schedule_retry_def guard_vars_def Let_def)

subsection \<open>One eviction attempt\<close>

abbreviation (input) conn_idx :: "ble_env \<Rightarrow> bt_conn \<Rightarrow> int" where
  "conn_idx e conn \<equiv> zmk_ble_profile_index e (conn_dst conn)"

abbreviation (input) disc_err :: "totem_config \<Rightarrow> ble_env \<Rightarrow> bt_conn \<Rightarrow> int" where
  "disc_err c e conn \<equiv> bt_conn_disconnect e conn (EVICT_DISCONNECT_REASON c)"

lemma evict_verdict_Evict:
  assumes "evict_verdict c e force conn s = Evict"
  shows "\<exists>info. conn_info conn = Some info \<and> info_role info = BT_CONN_ROLE_PERIPHERAL"
    and "\<not> totem_hid_is_usb e" and "\<not> totem_usb_cable_up c e"
    and "0 \<le> conn_idx e conn" and "conn_idx e conn \<noteq> zmk_ble_active_profile_index e"
    and "CONFIG_TOTEM_EVICT_REQUIRES_BONDED_ACTIVE c \<Longrightarrow>
      \<not> zmk_ble_active_profile_is_open e \<and> zmk_ble_active_profile_is_connected e"
    and "\<not> force \<Longrightarrow> \<not> bg_should_ignore c e (conn_idx e conn) s"
    and "\<not> force \<Longrightarrow> CONFIG_TOTEM_THRASH_DETECT c \<Longrightarrow> thrash_win_count c e s < CONFIG_TOTEM_BG_EVICT_CAP c"
  using assms
  by (auto simp: evict_verdict_def Let_def split: option.splits if_splits)

lemma drop_not_evicted:
  assumes "evict_verdict c e force conn s \<noteq> Evict"
  shows "quiet s (drop_if_non_active_host c e force conn s)"
  using assms
  by (auto simp: drop_if_non_active_host_def quiet_def guard_vars_def Let_def split: verdict.splits)

lemma note_evict_fields [simp]:
  "thrash_ring (bg_note_evict c e i s) = thrash_ring s" "thrash_ring_head (bg_note_evict c e i s) = thrash_ring_head s"
  "thrash_ring_count (bg_note_evict c e i s) = thrash_ring_count s" "x_out (bg_note_evict c e i s) = x_out s"
  "last_active_profile (bg_note_evict c e i s) = last_active_profile s"
  "length (bg_ignore_until (bg_note_evict c e i s)) = length (bg_ignore_until s)"
  by (simp_all add: bg_note_evict_def)

lemma thrash_push_fields [simp]:
  "bg_ignore_until (thrash_push t s) = bg_ignore_until s" "x_out (thrash_push t s) = x_out s"
  "last_active_profile (thrash_push t s) = last_active_profile s"
  by (simp_all add: thrash_push_def)

lemma drop_evicted:
  assumes "evict_verdict c e force conn s = Evict"
  shows "disconnects (x_out (drop_if_non_active_host c e force conn s))
      = disconnects (x_out s) @ [(k_uptime_get e, conn, disc_err c e conn)]"
    and "disc_err c e conn \<noteq> 0 \<Longrightarrow> guard_vars (drop_if_non_active_host c e force conn s) = guard_vars s"
    and "disc_err c e conn = 0 \<Longrightarrow> guard_vars (drop_if_non_active_host c e force conn s)
      = guard_vars ((if CONFIG_TOTEM_THRASH_DETECT c then thrash_push (k_uptime_get e) else (\<lambda>s. s))
          (bg_note_evict c e (conn_idx e conn) s))"
  using assms
  by (simp_all add: drop_if_non_active_host_def thrash_note_bg_evict_def bg_note_evict_def thrash_push_def
      guard_vars_def Let_def)

subsection \<open>The thrash ring is a bounded log\<close>

definition thrash_contents :: "excl \<Rightarrow> int list" where
  "thrash_contents s = ring_ordered (thrash_ring s) (thrash_ring_head s) (thrash_ring_count s)"

definition thrash_inv :: "excl \<Rightarrow> bool" where
  "thrash_inv s \<longleftrightarrow> length (thrash_ring s) = THRASH_RING_SIZE \<and> thrash_ring_head s < THRASH_RING_SIZE
     \<and> thrash_ring_count s \<le> THRASH_RING_SIZE"

interpretation thrash_log: bounded_log thrash_push "\<lambda>t. t" thrash_contents THRASH_RING_SIZE thrash_inv
proof unfold_locales
  show "thrash_inv (thrash_push t s)" if "thrash_inv s" for s t
    using that by (simp add: thrash_inv_def thrash_push_def)
  show "thrash_contents (thrash_push t s) = lastn THRASH_RING_SIZE (thrash_contents s @ [t])" if "thrash_inv s" for s t
    using that ring_ordered_push [of "thrash_ring_head s" "thrash_ring s" "thrash_ring_count s" t]
    by (simp add: thrash_inv_def thrash_contents_def thrash_push_def)
  show "length (thrash_contents s) \<le> THRASH_RING_SIZE" if "thrash_inv s" for s
    using that by (simp add: thrash_inv_def thrash_contents_def)
qed

lemma newest_first_rev: "thrash_inv s \<Longrightarrow> thrash_newest_first s = rev (thrash_contents s)"
proof (rule nth_equalityI)
  assume inv: "thrash_inv s"
  show "length (thrash_newest_first s) = length (rev (thrash_contents s))"
    by (simp add: thrash_newest_first_def thrash_contents_def)
  fix i assume "i < length (thrash_newest_first s)"
  then have i: "i < thrash_ring_count s" by (simp add: thrash_newest_first_def)
  have idx: "thrash_ring_head s + 16 - thrash_ring_count s + (thrash_ring_count s - Suc i) = thrash_ring_head s + 15 - i"
    using i inv by (simp add: thrash_inv_def)
  show "thrash_newest_first s ! i = rev (thrash_contents s) ! i"
    using i inv idx
    by (simp add: thrash_newest_first_def thrash_contents_def thrash_inv_def rev_nth nth_ring_ordered)
qed

lemma win_count_contents:
  "thrash_inv s \<Longrightarrow> CONFIG_TOTEM_THRASH_DETECT c \<Longrightarrow> thrash_win_count c e s
     = length (takeWhile (\<lambda>t. k_uptime_get e - t \<le> THRASH_WINDOW_MS c) (rev (thrash_contents s)))"
  by (simp add: thrash_win_count_def newest_first_rev not_less)

lemma thrash_guard_vars:
  "guard_vars s = guard_vars s' \<Longrightarrow> thrash_inv s = thrash_inv s' \<and> thrash_contents s = thrash_contents s'"
  by (simp add: guard_vars_def thrash_inv_def thrash_contents_def)

subsection \<open>Who is disconnected\<close>

text \<open>The hosts exclusivity may drop at all, whatever the state of the rate limits.\<close>

definition background_host :: "totem_config \<Rightarrow> ble_env \<Rightarrow> bt_conn \<Rightarrow> bool" where
  "background_host c e conn \<longleftrightarrow>
     (case conn_info conn of None \<Rightarrow> False | Some info \<Rightarrow> info_role info = BT_CONN_ROLE_PERIPHERAL)
   \<and> \<not> totem_hid_is_usb e \<and> \<not> totem_usb_cable_up c e
   \<and> 0 \<le> conn_idx e conn \<and> conn_idx e conn \<noteq> zmk_ble_active_profile_index e
   \<and> (if CONFIG_TOTEM_EVICT_REQUIRES_BONDED_ACTIVE c
      then \<not> zmk_ble_active_profile_is_open e \<and> zmk_ble_active_profile_is_connected e else True)"

lemma evict_background: "evict_verdict c e force conn s = Evict \<Longrightarrow> background_host c e conn"
  using evict_verdict_Evict [of c e force conn s] by (auto simp: background_host_def)

lemma drop_disconnects:
  "disconnects (x_out (drop_if_non_active_host c e force conn s)) = disconnects (x_out s)
     @ (if evict_verdict c e force conn s = Evict then [(k_uptime_get e, conn, disc_err c e conn)] else [])"
  using drop_not_evicted [of c e force conn s] drop_evicted(1) [of c e force conn s] by (simp add: quiet_def)

lemma scan_disconnects:
  "\<exists>ds. disconnects (x_out (fold (drop_if_non_active_host c e force) conns s)) = disconnects (x_out s) @ ds
     \<and> (\<forall>(t, conn, err) \<in> set ds. t = k_uptime_get e \<and> conn \<in> set conns \<and> background_host c e conn)"
proof (induction conns arbitrary: s)
  case Nil
  then show ?case by simp
next
  case (Cons k conns)
  let ?s = "drop_if_non_active_host c e force k s"
  obtain ds where ds: "disconnects (x_out (fold (drop_if_non_active_host c e force) conns ?s)) = disconnects (x_out ?s) @ ds"
    "\<forall>(t, conn, err) \<in> set ds. t = k_uptime_get e \<and> conn \<in> set conns \<and> background_host c e conn"
    using Cons.IH by blast
  let ?d = "if evict_verdict c e force k s = Evict then [(k_uptime_get e, k, disc_err c e k)] else []"
  show ?case
    using ds evict_background [of c e force k s]
    by (intro exI [of _ "?d @ ds"]) (auto simp: drop_disconnects)
qed

lemma profile_changed_disconnects:
  "disconnects (x_out (exclusive_host_profile_changed c e s)) = disconnects (x_out s)"
proof -
  have "disconnects (x_out (class_a_note_auth_event c e False t)) = disconnects (x_out t)" for t
    using class_a_quiet [of t c e False] by (simp add: quiet_def)
  then show ?thesis
    by (simp add: exclusive_host_profile_changed_def schedule_retry_def bg_clear_ignores_def thrash_clear_def Let_def)
qed

lemma step_disconnects:
  "\<exists>ds. disconnects (x_out (excl_step c e ev s)) = disconnects (x_out s) @ ds
     \<and> (\<forall>(t, conn, err) \<in> set ds. t = k_uptime_get e \<and> background_host c e conn)"
proof (cases ev)
  case (X_scan conns)
  then show ?thesis
    using scan_disconnects [of c e False conns s]
    by (fastforce simp: exclusive_host_evict_work_handler_def exclusive_host_evict_all_def)
qed (use callbacks_quiet bond_heal_quiet(3) profile_changed_disconnects in \<open>auto simp: quiet_def\<close>)

subsection \<open>The cap over a run\<close>

text \<open>
  The ring holds the newest evictions of the run; any \<open>cap + 1\<close> consecutive ones span more than
  the window.
\<close>

definition cap_spaced :: "totem_config \<Rightarrow> int list \<Rightarrow> bool" where
  "cap_spaced c ts \<longleftrightarrow> (\<forall>i. i + CONFIG_TOTEM_BG_EVICT_CAP c < length ts \<longrightarrow>
     ts ! (i + CONFIG_TOTEM_BG_EVICT_CAP c) - ts ! i > THRASH_WINDOW_MS c)"

text \<open>
  The ring holds the newest of the evictions \<open>ts\<close>, those since it was last cleared.
\<close>

definition segment_inv :: "totem_config \<Rightarrow> int list \<Rightarrow> int \<Rightarrow> excl \<Rightarrow> bool" where
  "segment_inv c ts now s \<longleftrightarrow> thrash_inv s \<and> thrash_contents s = lastn THRASH_RING_SIZE ts
     \<and> sorted ts \<and> (\<forall>t \<in> set ts. t \<le> now) \<and> cap_spaced c ts"

definition cap_inv :: "totem_config \<Rightarrow> int \<Rightarrow> int \<Rightarrow> excl \<Rightarrow> bool" where
  "cap_inv c a now s \<longleftrightarrow> segment_inv c (evict_times s) now s \<and> (last_active_profile s < 0 \<or> last_active_profile s = a)"

lemma cap_inv_unfold:
  "cap_inv c a now s \<longleftrightarrow> thrash_inv s \<and> thrash_contents s = lastn THRASH_RING_SIZE (evict_times s)
     \<and> sorted (evict_times s) \<and> (\<forall>t \<in> set (evict_times s). t \<le> now) \<and> cap_spaced c (evict_times s)
     \<and> (last_active_profile s < 0 \<or> last_active_profile s = a)"
  by (simp add: cap_inv_def segment_inv_def)

lemma cap_inv_boot: "cap_inv c a now (excl_boot c)"
  by (simp add: cap_inv_unfold thrash_inv_def thrash_contents_def evict_times_def evictions_def cap_spaced_def excl_boot_def)

lemma cap_inv_later: "cap_inv c a now s \<Longrightarrow> now \<le> now' \<Longrightarrow> cap_inv c a now' s"
  by (auto simp: cap_inv_unfold)

lemma cap_inv_quiet: "cap_inv c a now s \<Longrightarrow> quiet s s' \<Longrightarrow> cap_inv c a now s'"
  using thrash_guard_vars [of s' s]
  by (simp add: cap_inv_unfold quiet_def evict_times_def evictions_def) (simp add: guard_vars_def)

lemma below_cap_outside:
  assumes "thrash_inv s" and "thrash_contents s = lastn THRASH_RING_SIZE ts" and "sorted ts"
    and "CONFIG_TOTEM_THRASH_DETECT c" and "thrash_win_count c e s < cap" and "cap \<le> 16" and "cap \<le> length ts"
  shows "k_uptime_get e - ts ! (length ts - cap) > THRASH_WINDOW_MS c"
proof -
  let ?P = "\<lambda>t. k_uptime_get e - t \<le> THRASH_WINDOW_MS c" and ?r = "rev (lastn 16 ts)"
  let ?n = "length (takeWhile ?P ?r)"
  have n: "?n < cap" using assms(5) win_count_contents [OF assms(1,4), of e] assms(2) by simp
  have len: "length ?r = min 16 (length ts)" by simp
  have "?n < length ?r" using n assms(6,7) by simp
  from nth_length_takeWhile [OF this] have out: "k_uptime_get e - ?r ! ?n > THRASH_WINDOW_MS c" by simp
  have "?r ! ?n = ts ! (length ts - Suc ?n)"
    using n assms(6,7) by (simp add: rev_nth lastn_def)
  moreover have "ts ! (length ts - cap) \<le> ts ! (length ts - Suc ?n)"
    using n assms(3,7) by (intro sorted_nth_mono) auto
  ultimately show ?thesis using out by simp
qed

lemma cap_spaced_snoc:
  assumes "cap_spaced c ts" and "CONFIG_TOTEM_BG_EVICT_CAP c \<le> length ts \<Longrightarrow>
      now - ts ! (length ts - CONFIG_TOTEM_BG_EVICT_CAP c) > THRASH_WINDOW_MS c"
    and "0 < CONFIG_TOTEM_BG_EVICT_CAP c"
  shows "cap_spaced c (ts @ [now])"
  unfolding cap_spaced_def
proof (intro allI impI)
  fix i let ?k = "CONFIG_TOTEM_BG_EVICT_CAP c"
  assume i: "i + ?k < length (ts @ [now])"
  show "(ts @ [now]) ! (i + ?k) - (ts @ [now]) ! i > THRASH_WINDOW_MS c"
  proof (cases "i + ?k < length ts")
    case True
    with assms(1) show ?thesis by (simp add: cap_spaced_def nth_append)
  next
    case False
    with i have i': "i = length ts - ?k" "?k \<le> length ts" by simp_all
    with assms(3) have "i < length ts" by linarith
    with i' assms(2) show ?thesis by (simp add: nth_append)
  qed
qed

lemma segment_inv_later: "segment_inv c ts now s \<Longrightarrow> now \<le> now' \<Longrightarrow> segment_inv c ts now' s"
  by (auto simp: segment_inv_def)

lemma segment_inv_guards: "segment_inv c ts now s \<Longrightarrow> guard_vars s' = guard_vars s \<Longrightarrow> segment_inv c ts now s'"
  using thrash_guard_vars [of s' s] by (simp add: segment_inv_def)

lemma segment_inv_drop:
  assumes "segment_inv c ts (k_uptime_get e) s" and "kconfig_ok c" and "CONFIG_TOTEM_THRASH_DETECT c"
    and "s' = drop_if_non_active_host c e False conn s"
  obtains new where "segment_inv c (ts @ new) (k_uptime_get e) s'" and "evict_times s' = evict_times s @ new"
    and "set new \<subseteq> {k_uptime_get e}" and "last_active_profile s' = last_active_profile s"
proof (cases "evict_verdict c e False conn s = Evict \<and> disc_err c e conn = 0")
  case False
  then have g: "guard_vars s' = guard_vars s" and "evict_times s' = evict_times s"
    using drop_not_evicted [of c e False conn s] drop_evicted(1,2) [of c e False conn s]
    unfolding assms(4) by (cases "evict_verdict c e False conn s = Evict"; simp add: quiet_def evict_times_def evictions_def)+
  then show thesis
    using segment_inv_guards [OF assms(1) g] by (intro that [of "[]"]) (simp_all add: guard_vars_def)
next
  case True
  then have ev: "evict_verdict c e False conn s = Evict" and zero: "disc_err c e conn = 0" by simp_all
  let ?now = "k_uptime_get e"
  note d = drop_evicted [OF ev, folded assms(4)]
  have times: "evict_times s' = evict_times s @ [?now]" using d(1) zero by (simp add: evict_times_def evictions_def)
  let ?p = "thrash_push ?now (bg_note_evict c e (conn_idx e conn) s)"
  have inv0: "thrash_inv (bg_note_evict c e (conn_idx e conn) s)"
    "thrash_contents (bg_note_evict c e (conn_idx e conn) s) = thrash_contents s"
    using assms(1) by (simp_all add: segment_inv_def thrash_inv_def thrash_contents_def)
  have g: "guard_vars s' = guard_vars ?p" using d(3) [OF zero] assms(3) by simp
  have ring: "thrash_inv s'" "thrash_contents s' = lastn THRASH_RING_SIZE (ts @ [?now])"
    using thrash_guard_vars [OF g] thrash_log.push_invar [OF inv0(1)] thrash_log.push_contents [OF inv0(1), of ?now]
      assms(1) inv0(2) by (simp_all add: segment_inv_def lastn_append_lastn del: THRASH_RING_SIZE_def)
  have cap: "0 < CONFIG_TOTEM_BG_EVICT_CAP c" "CONFIG_TOTEM_BG_EVICT_CAP c \<le> 16"
    using assms(2) by (simp_all add: kconfig_ok_def)
  have "thrash_win_count c e s < CONFIG_TOTEM_BG_EVICT_CAP c" using evict_verdict_Evict(8) [OF ev] assms(3) by simp
  with below_cap_outside [of s ts c e] assms(1,3) cap
  have "cap_spaced c (ts @ [?now])" by (intro cap_spaced_snoc) (auto simp: segment_inv_def)
  with assms(1) ring times g show thesis
    by (intro that [of "[?now]"]) (simp_all add: segment_inv_def sorted_append, simp add: guard_vars_def)
qed

lemma segment_inv_scan:
  assumes "kconfig_ok c" and "CONFIG_TOTEM_THRASH_DETECT c"
  shows "segment_inv c ts (k_uptime_get e) s \<Longrightarrow> s' = fold (drop_if_non_active_host c e False) conns s \<Longrightarrow>
    \<exists>new. segment_inv c (ts @ new) (k_uptime_get e) s' \<and> evict_times s' = evict_times s @ new
      \<and> set new \<subseteq> {k_uptime_get e} \<and> last_active_profile s' = last_active_profile s"
proof (induction conns arbitrary: ts s)
  case Nil
  then show ?case by (intro exI [of _ "[]"]) simp
next
  case (Cons k conns)
  from segment_inv_drop [OF Cons.prems(1) assms refl, of k] obtain n1
    where a: "segment_inv c (ts @ n1) (k_uptime_get e) (drop_if_non_active_host c e False k s)"
      "evict_times (drop_if_non_active_host c e False k s) = evict_times s @ n1" "set n1 \<subseteq> {k_uptime_get e}"
      "last_active_profile (drop_if_non_active_host c e False k s) = last_active_profile s" by metis
  from Cons.IH [OF a(1)] Cons.prems(2) obtain n2
    where "segment_inv c ((ts @ n1) @ n2) (k_uptime_get e) s'"
      "evict_times s' = evict_times (drop_if_non_active_host c e False k s) @ n2" "set n2 \<subseteq> {k_uptime_get e}"
      "last_active_profile s' = last_active_profile (drop_if_non_active_host c e False k s)" by auto
  with a show ?case by (intro exI [of _ "n1 @ n2"]) simp
qed

lemma cap_inv_scan:
  assumes "cap_inv c a (k_uptime_get e) s" and "kconfig_ok c" and "CONFIG_TOTEM_THRASH_DETECT c"
  shows "cap_inv c a (k_uptime_get e) (fold (drop_if_non_active_host c e False) conns s)"
proof -
  have "segment_inv c (evict_times s) (k_uptime_get e) s" using assms(1) by (simp add: cap_inv_def)
  from segment_inv_scan [OF assms(2,3) this refl, of conns] assms(1) show ?thesis by (auto simp: cap_inv_def)
qed

lemma cap_inv_step:
  assumes "cap_inv c a (k_uptime_get e) s" and "kconfig_ok c" and "CONFIG_TOTEM_THRASH_DETECT c"
    and "zmk_ble_active_profile_index e = a"
  shows "cap_inv c a (k_uptime_get e) (excl_step c e ev s)"
proof (cases ev)
  case (X_scan conns)
  with assms cap_inv_scan show ?thesis
    by (simp add: exclusive_host_evict_work_handler_def exclusive_host_evict_all_def)
next
  case X_profile_changed
  have "last_active_profile s < 0 \<or> last_active_profile s = zmk_ble_active_profile_index e"
    using assms(1,4) by (simp add: cap_inv_unfold)
  note q = profile_changed_quiet [OF this, of c]
  let ?s = "exclusive_host_profile_changed c e s"
  have v: "thrash_inv ?s = thrash_inv s" "thrash_contents ?s = thrash_contents s" "last_active_profile ?s = a"
    using q(2) assms(4) by (simp_all add: guard_vars_def thrash_inv_def thrash_contents_def)
  have "evict_times ?s = evict_times s" using q(1) by (simp add: evict_times_def evictions_def)
  with v assms(1) X_profile_changed show ?thesis by (simp add: cap_inv_unfold)
qed (use cap_inv_quiet [OF assms(1)] callbacks_quiet bond_heal_quiet(3) in simp_all)

text \<open>A run with the clock going forward while profile \<open>a\<close> stays selected; \<open>now\<close> bounds its start.\<close>

lemma cap_inv_run:
  assumes "kconfig_ok c" and "CONFIG_TOTEM_THRASH_DETECT c"
  shows "cap_inv c a now s \<Longrightarrow> sorted (now # map (\<lambda>ev. k_uptime_get (fst ev)) evs) \<Longrightarrow>
    list_all (\<lambda>ev. zmk_ble_active_profile_index (fst ev) = a) evs \<Longrightarrow>
    cap_inv c a (last (now # map (\<lambda>ev. k_uptime_get (fst ev)) evs)) (excl_run c evs s)"
proof (induction evs arbitrary: now s)
  case Nil
  then show ?case by (simp add: excl_run_def)
next
  case (Cons ev evs)
  have "cap_inv c a (k_uptime_get (fst ev)) s" using Cons.prems by (auto intro: cap_inv_later)
  then have "cap_inv c a (k_uptime_get (fst ev)) (excl_step c (fst ev) (snd ev) s)"
    using Cons.prems(3) by (intro cap_inv_step assms) simp_all
  with Cons.IH [of "k_uptime_get (fst ev)" "excl_step c (fst ev) (snd ev) s"] Cons.prems show ?case
    by (simp add: excl_run_def case_prod_beta)
qed

lemma cap_inv_boot_run:
  assumes "kconfig_ok c" and "CONFIG_TOTEM_THRASH_DETECT c"
    and "sorted (map (\<lambda>ev. k_uptime_get (fst ev)) evs)"
    and "list_all (\<lambda>ev. zmk_ble_active_profile_index (fst ev) = a) evs"
  shows "cap_inv c a (if evs = [] then now0 else k_uptime_get (fst (last evs))) (excl_run c evs (excl_boot c))"
proof (cases evs)
  case Nil
  then show ?thesis using cap_inv_boot by (simp add: excl_run_def)
next
  case (Cons ev es)
  have "sorted (k_uptime_get (fst ev) # map (\<lambda>ev. k_uptime_get (fst ev)) evs)" using assms(3) Cons by simp
  from cap_inv_run [OF assms(1,2) cap_inv_boot this assms(4)] Cons show ?thesis by (cases "es = []") (simp_all add: last_map)
qed

subsection \<open>The cap across profile switches\<close>

text \<open>
  When the selection changed, seen by the module: the times of the profile events that find another
  profile selected than the one before (none before the first).
\<close>

primrec switch_times :: "int \<Rightarrow> (ble_env \<times> excl_event) list \<Rightarrow> int list" where
  "switch_times a [] = []"
| "switch_times a (ev # evs) = (if snd ev = X_profile_changed
     then (if 0 \<le> a \<and> a \<noteq> zmk_ble_active_profile_index (fst ev) then [k_uptime_get (fst ev)] else [])
          @ switch_times (zmk_ble_active_profile_index (fst ev)) evs
     else switch_times a evs)"

definition in_window :: "totem_config \<Rightarrow> int \<Rightarrow> int \<Rightarrow> bool" where
  "in_window c t0 t \<longleftrightarrow> t0 \<le> t \<and> t \<le> t0 + THRASH_WINDOW_MS c"

lemma window_segment:
  assumes "sorted ts" and "cap_spaced c ts"
  shows "length (filter (in_window c t0) ts) \<le> CONFIG_TOTEM_BG_EVICT_CAP c"
proof (rule ccontr)
  let ?k = "CONFIG_TOTEM_BG_EVICT_CAP c" and ?I = "{i. i < length ts \<and> in_window c t0 (ts ! i)}"
  assume "\<not> ?thesis"
  then have card: "?k < card ?I" by (simp add: length_filter_conv_card)
  have fin: "finite ?I" by simp
  have "?I \<noteq> {}" using card by (metis card.empty not_less_zero)
  then have lo: "Min ?I \<in> ?I" and hi: "Max ?I \<in> ?I" using Min_in [OF fin] Max_in [OF fin] by blast+
  have sub: "?I \<subseteq> {Min ?I..Max ?I}" using Min_le [OF fin] Max_ge [OF fin] by (meson atLeastAtMost_iff subsetI)
  have "card ?I \<le> Max ?I + 1 - Min ?I" using card_mono [OF _ sub] by simp
  then have far: "Min ?I + ?k \<le> Max ?I" using card by linarith
  then have "ts ! (Min ?I + ?k) \<le> ts ! Max ?I" using assms(1) hi by (intro sorted_nth_mono) auto
  moreover have "ts ! (Min ?I + ?k) - ts ! Min ?I > THRASH_WINDOW_MS c"
    using assms(2) far hi unfolding cap_spaced_def by auto
  ultimately show False using lo hi by (auto simp: in_window_def)
qed

text \<open>
  The evictions \<open>old\<close> before the last switch, the segment \<open>ts\<close> since then, and the switches \<open>sw\<close> so far.
\<close>

definition storm_parts :: "totem_config \<Rightarrow> int list \<Rightarrow> int list \<Rightarrow> int list \<Rightarrow> int \<Rightarrow> excl \<Rightarrow> bool" where
  "storm_parts c old ts sw now s \<longleftrightarrow> evict_times s = old @ ts \<and> segment_inv c ts now s
     \<and> (\<forall>t \<in> set (old @ sw). t \<le> now) \<and> (\<forall>t \<in> set ts. \<forall>u \<in> set sw. u \<le> t)
     \<and> (\<forall>t0. length (filter (in_window c t0) old) \<le> CONFIG_TOTEM_BG_EVICT_CAP c * (1 + length (filter (in_window c t0) sw)))
     \<and> (\<forall>t0. (\<forall>u \<in> set sw. u \<le> t0 + THRASH_WINDOW_MS c) \<longrightarrow>
          length (filter (in_window c t0) old) \<le> CONFIG_TOTEM_BG_EVICT_CAP c * length (filter (in_window c t0) sw))"

definition storm_inv :: "totem_config \<Rightarrow> int list \<Rightarrow> int \<Rightarrow> excl \<Rightarrow> bool" where
  "storm_inv c sw now s \<longleftrightarrow> (\<exists>old ts. storm_parts c old ts sw now s)"

lemma storm_inv_boot: "storm_inv c [] now (excl_boot c)"
  unfolding storm_inv_def
  by (intro exI [of _ "[]"]) (simp add: storm_parts_def segment_inv_def thrash_inv_def thrash_contents_def evict_times_def
      evictions_def cap_spaced_def excl_boot_def)

lemma storm_parts_bound:
  assumes "storm_parts c old ts sw now s"
  shows "length (filter (in_window c t0) (old @ ts)) \<le> CONFIG_TOTEM_BG_EVICT_CAP c * (1 + length (filter (in_window c t0) sw))"
proof (cases "\<forall>u \<in> set sw. u \<le> t0 + THRASH_WINDOW_MS c")
  case True
  then have "length (filter (in_window c t0) old) \<le> CONFIG_TOTEM_BG_EVICT_CAP c * length (filter (in_window c t0) sw)"
    using assms by (simp add: storm_parts_def)
  moreover have "length (filter (in_window c t0) ts) \<le> CONFIG_TOTEM_BG_EVICT_CAP c"
    using assms by (intro window_segment) (simp_all add: storm_parts_def segment_inv_def)
  ultimately show ?thesis by simp
next
  case False
  then obtain u where "u \<in> set sw" "t0 + THRASH_WINDOW_MS c < u" by force
  then have "filter (in_window c t0) ts = []"
    using assms by (fastforce simp: filter_empty_conv storm_parts_def in_window_def)
  with assms show ?thesis by (simp add: storm_parts_def)
qed

lemma storm_inv_bound:
  "storm_inv c sw now s \<Longrightarrow> length (filter (in_window c t0) (evict_times s))
     \<le> CONFIG_TOTEM_BG_EVICT_CAP c * (1 + length (filter (in_window c t0) sw))"
proof -
  assume "storm_inv c sw now s"
  then obtain old ts where p: "storm_parts c old ts sw now s" by (auto simp: storm_inv_def)
  then have "evict_times s = old @ ts" by (simp add: storm_parts_def)
  with storm_parts_bound [OF p] show ?thesis by simp
qed

lemma storm_inv_later: "storm_inv c sw now s \<Longrightarrow> now \<le> now' \<Longrightarrow> storm_inv c sw now' s"
proof -
  assume "storm_inv c sw now s" and le: "now \<le> now'"
  then obtain old ts where p: "storm_parts c old ts sw now s" by (auto simp: storm_inv_def)
  have "segment_inv c ts now' s" using p le unfolding storm_parts_def by (blast intro: segment_inv_later)
  moreover have "\<forall>t \<in> set (old @ sw). t \<le> now'" using p le unfolding storm_parts_def by (meson order_trans)
  ultimately have "storm_parts c old ts sw now' s" using p unfolding storm_parts_def by blast
  then show ?thesis by (auto simp: storm_inv_def)
qed

lemma profile_switched:
  assumes "0 \<le> last_active_profile s" and "last_active_profile s \<noteq> zmk_ble_active_profile_index e"
    and "CONFIG_TOTEM_THRASH_DETECT c"
  shows "thrash_ring_count (exclusive_host_profile_changed c e s) = 0" "thrash_ring_head (exclusive_host_profile_changed c e s) = 0"
    "thrash_ring (exclusive_host_profile_changed c e s) = thrash_ring s"
    "last_active_profile (exclusive_host_profile_changed c e s) = zmk_ble_active_profile_index e"
  using assms class_a_quiet [of _ c e False]
  by (simp_all add: exclusive_host_profile_changed_def schedule_retry_def thrash_clear_def bg_clear_ignores_def quiet_def
      guard_vars_def Let_def)

lemma storm_inv_guards:
  assumes "storm_inv c sw now s" and "guard_vars s' = guard_vars s" and "disconnects (x_out s') = disconnects (x_out s)"
  shows "storm_inv c sw now s'"
proof -
  obtain old ts where p: "storm_parts c old ts sw now s" using assms(1) by (auto simp: storm_inv_def)
  have "segment_inv c ts now s'" using segment_inv_guards [OF _ assms(2), of c ts now] p unfolding storm_parts_def by blast
  moreover have "evict_times s' = evict_times s" using assms(3) by (simp add: evict_times_def evictions_def)
  ultimately have "storm_parts c old ts sw now s'" using p unfolding storm_parts_def by simp
  then show ?thesis by (auto simp: storm_inv_def)
qed

lemma storm_inv_switch:
  assumes "storm_inv c sw (k_uptime_get e) s" and "CONFIG_TOTEM_THRASH_DETECT c"
    and "0 \<le> last_active_profile s" and "last_active_profile s \<noteq> zmk_ble_active_profile_index e"
  shows "storm_inv c (sw @ [k_uptime_get e]) (k_uptime_get e) (exclusive_host_profile_changed c e s)"
proof -
  let ?now = "k_uptime_get e" and ?s = "exclusive_host_profile_changed c e s"
  obtain old ts where p: "storm_parts c old ts sw ?now s" using assms(1) by (auto simp: storm_inv_def)
  have times: "evict_times ?s = (old @ ts) @ []"
    using p profile_changed_disconnects [of c e s] by (simp add: evict_times_def evictions_def storm_parts_def)
  note sw = profile_switched [OF assms(3,4,2)]
  have past: "\<forall>t \<in> set (old @ ts). t \<le> ?now" using p by (auto simp: storm_parts_def segment_inv_def)
  have seg: "segment_inv c [] ?now ?s"
    using p sw by (simp add: segment_inv_def storm_parts_def thrash_inv_def thrash_contents_def cap_spaced_def)
  have bound: "length (filter (in_window c t0) (old @ ts)) \<le> CONFIG_TOTEM_BG_EVICT_CAP c * (1 + length (filter (in_window c t0) sw))" for t0
    by (rule storm_parts_bound [OF p])
  have after: "length (filter (in_window c t0) (old @ ts)) \<le> CONFIG_TOTEM_BG_EVICT_CAP c * length (filter (in_window c t0) (sw @ [?now]))"
    if "?now \<le> t0 + THRASH_WINDOW_MS c" for t0
  proof (cases "t0 \<le> ?now")
    case True
    with that bound [of t0] show ?thesis by (simp add: in_window_def)
  next
    case False
    have "\<not> in_window c t0 t" if "t \<in> set (old @ ts)" for t using past that False unfolding in_window_def by fastforce
    then have "filter (in_window c t0) (old @ ts) = []" by (simp only: filter_empty_conv) blast
    then show ?thesis by simp
  qed
  have "length (filter (in_window c t0) (old @ ts)) \<le> CONFIG_TOTEM_BG_EVICT_CAP c * (1 + length (filter (in_window c t0) (sw @ [?now])))" for t0
    by (rule order_trans [OF bound]) simp
  then have "storm_parts c (old @ ts) [] (sw @ [?now]) ?now ?s"
    unfolding storm_parts_def times using seg past after p by (auto simp: storm_parts_def)
  then show ?thesis by (auto simp: storm_inv_def)
qed

lemma storm_inv_step:
  assumes "kconfig_ok c" and "CONFIG_TOTEM_THRASH_DETECT c" and "storm_inv c sw (k_uptime_get e) s"
  shows "storm_inv c (sw @ switch_times (last_active_profile s) [(e, ev)]) (k_uptime_get e) (excl_step c e ev s)"
    and "last_active_profile (excl_step c e ev s) = (if ev = X_profile_changed then zmk_ble_active_profile_index e else last_active_profile s)"
proof -
  have both: "storm_inv c (sw @ switch_times (last_active_profile s) [(e, ev)]) (k_uptime_get e) (excl_step c e ev s)
    \<and> last_active_profile (excl_step c e ev s) = (if ev = X_profile_changed then zmk_ble_active_profile_index e else last_active_profile s)"
  proof (cases ev)
    case (X_scan conns)
    obtain old ts where p: "storm_parts c old ts sw (k_uptime_get e) s" using assms(3) by (auto simp: storm_inv_def)
    then have "segment_inv c ts (k_uptime_get e) s" by (simp add: storm_parts_def)
    from segment_inv_scan [OF assms(1,2) this refl, of conns] obtain new
      where n: "segment_inv c (ts @ new) (k_uptime_get e) (excl_step c e ev s)" "evict_times (excl_step c e ev s) = evict_times s @ new"
        "set new \<subseteq> {k_uptime_get e}" "last_active_profile (excl_step c e ev s) = last_active_profile s"
      by (auto simp: X_scan exclusive_host_evict_work_handler_def exclusive_host_evict_all_def)
    have "\<forall>t \<in> set (ts @ new). \<forall>u \<in> set sw. u \<le> t" using n(3) p by (auto simp: storm_parts_def)
    with n p have "storm_parts c old (ts @ new) sw (k_uptime_get e) (excl_step c e ev s)" by (simp add: storm_parts_def)
    with n(4) X_scan show ?thesis by (auto simp: storm_inv_def)
  next
    case X_profile_changed
    show ?thesis
    proof (cases "0 \<le> last_active_profile s \<and> last_active_profile s \<noteq> zmk_ble_active_profile_index e")
      case True
      with storm_inv_switch [OF assms(3,2)] profile_switched(4) [of s e c] assms(2) X_profile_changed show ?thesis by simp
    next
      case False
      then have "last_active_profile s < 0 \<or> last_active_profile s = zmk_ble_active_profile_index e" by auto
      note q = profile_changed_quiet [OF this, of c]
      let ?s = "s\<lparr>last_active_profile := zmk_ble_active_profile_index e\<rparr>"
      have "storm_inv c sw (k_uptime_get e) ?s"
        using assms(3) by (simp add: storm_inv_def storm_parts_def segment_inv_def thrash_inv_def thrash_contents_def
            evict_times_def evictions_def)
      from storm_inv_guards [OF this q(2)] q(1) have "storm_inv c sw (k_uptime_get e) (exclusive_host_profile_changed c e s)" by simp
      moreover have "last_active_profile (exclusive_host_profile_changed c e s) = zmk_ble_active_profile_index e"
        using q(2) by (simp add: guard_vars_def)
      ultimately show ?thesis using False X_profile_changed by auto
    qed
  qed (use callbacks_quiet bond_heal_quiet(3) storm_inv_guards [OF assms(3)] in \<open>simp_all add: quiet_def\<close>, simp_all add: guard_vars_def)
  then show "storm_inv c (sw @ switch_times (last_active_profile s) [(e, ev)]) (k_uptime_get e) (excl_step c e ev s)"
    and "last_active_profile (excl_step c e ev s) = (if ev = X_profile_changed then zmk_ble_active_profile_index e else last_active_profile s)"
    by blast+
qed

lemma storm_inv_run:
  assumes "kconfig_ok c" and "CONFIG_TOTEM_THRASH_DETECT c"
  shows "storm_inv c sw now s \<Longrightarrow> sorted (now # map (\<lambda>ev. k_uptime_get (fst ev)) evs) \<Longrightarrow>
    storm_inv c (sw @ switch_times (last_active_profile s) evs) (last (now # map (\<lambda>ev. k_uptime_get (fst ev)) evs)) (excl_run c evs s)"
proof (induction evs arbitrary: sw now s)
  case Nil
  then show ?case by (simp add: excl_run_def)
next
  case (Cons ev evs)
  obtain e x where ev: "ev = (e, x)" by (rule prod.exhaust)
  have "storm_inv c sw (k_uptime_get e) s" using Cons.prems by (auto intro: storm_inv_later simp: ev)
  note st = storm_inv_step [OF assms this, of x]
  have "sorted (k_uptime_get e # map (\<lambda>ev. k_uptime_get (fst ev)) evs)" using Cons.prems(2) by (simp add: ev)
  note ih = Cons.IH [OF st(1) this]
  have l: "last (now # map (\<lambda>ev. k_uptime_get (fst ev)) (ev # evs)) = last (k_uptime_get e # map (\<lambda>ev. k_uptime_get (fst ev)) evs)"
    and r: "excl_run c (ev # evs) s = excl_run c evs (excl_step c e x s)" by (simp_all add: ev excl_run_def)
  have "(sw @ switch_times (last_active_profile s) [(e, x)]) @ switch_times (last_active_profile (excl_step c e x s)) evs
      = sw @ switch_times (last_active_profile s) (ev # evs)" by (simp add: st(2) ev del: excl_step.simps)
  with ih show ?case unfolding l r by simp
qed

subsection \<open>The per-profile ignore time\<close>

text \<open>Does the event evict profile \<open>k\<close>?\<close>

definition evicts_profile :: "totem_config \<Rightarrow> nat \<Rightarrow> ble_env \<times> excl_event \<Rightarrow> excl \<Rightarrow> bool" where
  "evicts_profile c k ev s = list_ex (\<lambda>(t, conn, err). err = 0 \<and> conn_idx (fst ev) conn = int k)
     (drop (length (disconnects (x_out s))) (disconnects (x_out (excl_step c (fst ev) (snd ev) s))))"

definition ignore_until :: "nat \<Rightarrow> excl \<Rightarrow> int" where
  "ignore_until k s = bg_ignore_until s ! k"

definition ignore_inv :: "totem_config \<Rightarrow> int \<Rightarrow> excl \<Rightarrow> bool" where
  "ignore_inv c a s \<longleftrightarrow> length (bg_ignore_until s) = ZMK_BLE_PROFILE_COUNT c
     \<and> (last_active_profile s < 0 \<or> last_active_profile s = a)"

text \<open>Events while profile \<open>a\<close> stays selected.\<close>

definition steady_event :: "totem_config \<Rightarrow> nat \<Rightarrow> int \<Rightarrow> ble_env \<times> excl_event \<Rightarrow> bool" where
  "steady_event c k a ev \<longleftrightarrow> 0 < CONFIG_TOTEM_BG_EVICT_IGNORE_MS c \<and> k < ZMK_BLE_PROFILE_COUNT c
     \<and> 0 \<le> k_uptime_get (fst ev) \<and> zmk_ble_active_profile_index (fst ev) = a"

lemma drop_ignore:
  fixes conn :: bt_conn
  assumes "length (bg_ignore_until s) = ZMK_BLE_PROFILE_COUNT c" and "k < ZMK_BLE_PROFILE_COUNT c"
    and "0 < CONFIG_TOTEM_BG_EVICT_IGNORE_MS c" and "0 \<le> k_uptime_get e"
  defines "hit \<equiv> evict_verdict c e False conn s = Evict \<and> disc_err c e conn = 0 \<and> conn_idx e conn = int k"
    and "s' \<equiv> drop_if_non_active_host c e False conn s"
  shows "length (bg_ignore_until s') = ZMK_BLE_PROFILE_COUNT c" and "last_active_profile s' = last_active_profile s"
    and "ignore_until k s' = (if hit then k_uptime_get e + CONFIG_TOTEM_BG_EVICT_IGNORE_MS c else ignore_until k s)"
    and "hit \<Longrightarrow> ignore_until k s \<le> k_uptime_get e"
proof -
  have split: "(evict_verdict c e False conn s \<noteq> Evict \<or> disc_err c e conn \<noteq> 0) \<and> guard_vars s' = guard_vars s
    \<or> (evict_verdict c e False conn s = Evict \<and> disc_err c e conn = 0
       \<and> guard_vars s' = guard_vars ((if CONFIG_TOTEM_THRASH_DETECT c then thrash_push (k_uptime_get e) else (\<lambda>s. s))
          (bg_note_evict c e (conn_idx e conn) s)))"
    using drop_not_evicted [of c e False conn s] drop_evicted(2,3) [of c e False conn s]
    unfolding s'_def quiet_def by blast
  then show len: "length (bg_ignore_until s') = ZMK_BLE_PROFILE_COUNT c" and "last_active_profile s' = last_active_profile s"
    using assms(1) by (auto simp: guard_vars_def split: if_splits)
  have note_k: "bg_ignore_until (bg_note_evict c e (conn_idx e conn) s) ! k
      = (if conn_idx e conn = int k then k_uptime_get e + CONFIG_TOTEM_BG_EVICT_IGNORE_MS c else bg_ignore_until s ! k)"
    if "0 \<le> conn_idx e conn"
    using that assms(1-3) by (auto simp: bg_note_evict_def nth_list_update)
  show "ignore_until k s' = (if hit then k_uptime_get e + CONFIG_TOTEM_BG_EVICT_IGNORE_MS c else ignore_until k s)"
    using split
  proof (elim disjE conjE)
    assume ev: "evict_verdict c e False conn s = Evict" and z: "disc_err c e conn = 0"
      and g: "guard_vars s' = guard_vars ((if CONFIG_TOTEM_THRASH_DETECT c then thrash_push (k_uptime_get e) else (\<lambda>s. s))
          (bg_note_evict c e (conn_idx e conn) s))"
    have "0 \<le> conn_idx e conn" by (rule evict_verdict_Evict(4) [OF ev])
    from note_k [OF this] g ev z show ?thesis
      by (auto simp: hit_def ignore_until_def guard_vars_def split: if_splits)
  qed (auto simp: hit_def ignore_until_def guard_vars_def)
  show "hit \<Longrightarrow> ignore_until k s \<le> k_uptime_get e"
    using evict_verdict_Evict(7) [of c e False conn s] assms(2,4)
    by (auto simp: hit_def ignore_until_def bg_should_ignore_def split: if_splits)
qed

lemma scan_ignore:
  assumes "length (bg_ignore_until s) = ZMK_BLE_PROFILE_COUNT c" and "k < ZMK_BLE_PROFILE_COUNT c"
    and "0 < CONFIG_TOTEM_BG_EVICT_IGNORE_MS c" and "0 \<le> k_uptime_get e"
    and "s' = fold (drop_if_non_active_host c e False) conns s"
  shows "length (bg_ignore_until s') = ZMK_BLE_PROFILE_COUNT c \<and> last_active_profile s' = last_active_profile s
    \<and> (\<exists>ds. disconnects (x_out s') = disconnects (x_out s) @ ds
         \<and> (if list_ex (\<lambda>(t, conn, err). err = 0 \<and> conn_idx e conn = int k) ds
            then ignore_until k s \<le> k_uptime_get e
              \<and> ignore_until k s' = k_uptime_get e + CONFIG_TOTEM_BG_EVICT_IGNORE_MS c
            else ignore_until k s' = ignore_until k s))"
  using assms
proof (induction conns arbitrary: s s')
  case Nil
  then show ?case by simp
next
  case (Cons conn conns)
  let ?t = "drop_if_non_active_host c e False conn s"
  let ?hit = "evict_verdict c e False conn s = Evict \<and> disc_err c e conn = 0 \<and> conn_idx e conn = int k"
  note d = drop_ignore [OF Cons.prems(1-4), of conn]
  from Cons.IH [OF d(1) Cons.prems(2-4), of s'] Cons.prems(5) obtain ds
    where IH: "length (bg_ignore_until s') = ZMK_BLE_PROFILE_COUNT c" "last_active_profile s' = last_active_profile ?t"
      "disconnects (x_out s') = disconnects (x_out ?t) @ ds"
      "if list_ex (\<lambda>(t, conn, err). err = 0 \<and> conn_idx e conn = int k) ds
       then ignore_until k ?t \<le> k_uptime_get e
         \<and> ignore_until k s' = k_uptime_get e + CONFIG_TOTEM_BG_EVICT_IGNORE_MS c
       else ignore_until k s' = ignore_until k ?t" by auto
  let ?d = "if evict_verdict c e False conn s = Evict then [(k_uptime_get e, conn, disc_err c e conn)] else []"
  have ds: "disconnects (x_out s') = disconnects (x_out s) @ (?d @ ds)" using IH(3) by (simp add: drop_disconnects)
  have "list_ex (\<lambda>(t, conn, err). err = 0 \<and> conn_idx e conn = int k) ?d = ?hit" by auto
  then show ?case
    using IH(1,2,4) d(2-4) Cons.prems(3) ds
    by (intro conjI exI [of _ "?d @ ds"]) (auto split: if_splits)
qed

lemma step_ignore:
  assumes "ignore_inv c a s" and "steady_event c k a (e, ev)"
  shows "ignore_inv c a (excl_step c e ev s)
    \<and> (if evicts_profile c k (e, ev) s
       then ignore_until k s \<le> k_uptime_get e
         \<and> ignore_until k (excl_step c e ev s) = k_uptime_get e + CONFIG_TOTEM_BG_EVICT_IGNORE_MS c
       else ignore_until k (excl_step c e ev s) = ignore_until k s)"
proof -
  have hyp: "length (bg_ignore_until s) = ZMK_BLE_PROFILE_COUNT c" "k < ZMK_BLE_PROFILE_COUNT c"
    "0 < CONFIG_TOTEM_BG_EVICT_IGNORE_MS c" "0 \<le> k_uptime_get e"
    "last_active_profile s < 0 \<or> last_active_profile s = a" "zmk_ble_active_profile_index e = a"
    using assms by (simp_all add: ignore_inv_def steady_event_def)
  have calm: ?thesis if "quiet s (excl_step c e ev s)"
    using that hyp by (simp add: quiet_def guard_vars_def ignore_inv_def ignore_until_def evicts_profile_def)
  show ?thesis
  proof (cases ev)
    case (X_scan conns)
    then have eq: "excl_step c e ev s = fold (drop_if_non_active_host c e False) conns s"
      by (simp add: exclusive_host_evict_work_handler_def exclusive_host_evict_all_def)
    from scan_ignore [OF hyp(1-4) eq] obtain ds where
      r: "length (bg_ignore_until (excl_step c e ev s)) = ZMK_BLE_PROFILE_COUNT c"
      "last_active_profile (excl_step c e ev s) = last_active_profile s"
      and ds: "disconnects (x_out (excl_step c e ev s)) = disconnects (x_out s) @ ds"
      and k: "if list_ex (\<lambda>(t, conn, err). err = 0 \<and> conn_idx e conn = int k) ds
        then ignore_until k s \<le> k_uptime_get e
          \<and> ignore_until k (excl_step c e ev s) = k_uptime_get e + CONFIG_TOTEM_BG_EVICT_IGNORE_MS c
        else ignore_until k (excl_step c e ev s) = ignore_until k s" by blast
    have "evicts_profile c k (e, ev) s = list_ex (\<lambda>(t, conn, err). err = 0 \<and> conn_idx e conn = int k) ds"
      by (simp add: evicts_profile_def ds)
    with r k hyp(5) show ?thesis by (simp add: ignore_inv_def)
  next
    case X_profile_changed
    with profile_changed_quiet [of s e c] hyp show ?thesis
      by (simp add: guard_vars_def ignore_inv_def ignore_until_def evicts_profile_def)
  qed (rule calm, simp add: callbacks_quiet bond_heal_quiet(3))+
qed

interpretation bg_evictor: rate_limited "\<lambda>ev. excl_step c (fst ev) (snd ev)" "\<lambda>ev. k_uptime_get (fst ev)"
  "evicts_profile c k" "ignore_until k" "CONFIG_TOTEM_BG_EVICT_IGNORE_MS c" "steady_event c k a" "ignore_inv c a"
  for c k a
proof unfold_locales
  fix ev s
  assume ok: "steady_event c k a ev"
  show "0 \<le> CONFIG_TOTEM_BG_EVICT_IGNORE_MS c" using ok by (simp add: steady_event_def)
  have gap: "0 < CONFIG_TOTEM_BG_EVICT_IGNORE_MS c" using ok by (simp add: steady_event_def)
  assume inv: "ignore_inv c a s"
  note st = step_ignore [OF inv, of k "fst ev" "snd ev"]
  show "ignore_inv c a (excl_step c (fst ev) (snd ev) s)" using st ok by simp
  show "ignore_until k s \<le> k_uptime_get (fst ev)"
    and "k_uptime_get (fst ev) + CONFIG_TOTEM_BG_EVICT_IGNORE_MS c \<le> ignore_until k (excl_step c (fst ev) (snd ev) s)"
    if "evicts_profile c k ev s" using st ok that by simp_all
  show "ignore_until k s \<le> ignore_until k (excl_step c (fst ev) (snd ev) s)" if "\<not> evicts_profile c k ev s"
    using st ok that by simp
qed

subsection \<open>Auth-failure history\<close>

text \<open>The compaction loop keeps exactly the recent entries, in order.\<close>

lemma class_a_compact_prefix:
  assumes "count \<le> length ts"
  shows "\<exists>kept ts'. class_a_compact now count ts = (kept, ts') \<and> length ts' = length ts \<and> kept \<le> count
    \<and> take kept ts' = filter (\<lambda>t. now - t \<le> CLASS_A_WINDOW_MS) (take count ts)
    \<and> (\<forall>i. count \<le> i \<longrightarrow> ts' ! i = ts ! i)"
  using assms
proof (induction count)
  case 0
  then show ?case by (simp add: class_a_compact_def)
next
  case (Suc count)
  then obtain kept ts' where IH: "class_a_compact now count ts = (kept, ts')" "length ts' = length ts" "kept \<le> count"
    "take kept ts' = filter (\<lambda>t. now - t \<le> CLASS_A_WINDOW_MS) (take count ts)" "\<forall>i. count \<le> i \<longrightarrow> ts' ! i = ts ! i"
    by auto
  have this_entry: "ts' ! count = ts ! count" "take (Suc count) ts = take count ts @ [ts ! count]"
    using IH(5) Suc.prems by (simp_all add: take_Suc_conv_app_nth)
  have step: "class_a_compact now (Suc count) ts
      = (if now - ts ! count \<le> CLASS_A_WINDOW_MS then (kept + 1, ts'[kept := ts ! count]) else (kept, ts'))"
    using IH(1) this_entry(1) by (simp add: class_a_compact_def)
  show ?case
  proof (cases "now - ts ! count \<le> CLASS_A_WINDOW_MS")
    case True
    have "take (Suc kept) (ts'[kept := ts ! count]) = take kept ts' @ [ts ! count]"
      using IH(2,3) Suc.prems by (simp add: take_Suc_conv_app_nth)
    with True step IH this_entry show ?thesis by simp
  next
    case False
    with step IH this_entry show ?thesis by simp
  qed
qed

definition class_a_fails :: "excl \<Rightarrow> int list" where
  "class_a_fails s = take (class_a_fail_count s) (class_a_fail_ts s)"

definition class_a_inv :: "excl \<Rightarrow> bool" where
  "class_a_inv s \<longleftrightarrow> length (class_a_fail_ts s) = CLASS_A_FAIL_THRESHOLD \<and> class_a_fail_count s \<le> CLASS_A_FAIL_THRESHOLD"

lemma class_a_append_take:
  assumes "length ts = 3" and "kept \<le> 3" and "class_a_append now kept ts = (count, ts')"
  shows "length ts' = 3 \<and> count \<le> 3 \<and> take count ts' = lastn 3 (take kept ts @ [now])"
proof (cases "kept < 3")
  case True
  with assms show ?thesis by (auto simp: class_a_append_def take_Suc_conv_app_nth)
next
  case False
  obtain x y z where ts: "ts = [x, y, z]" using assms(1) by (auto simp: numeral_eq_Suc length_Suc_conv)
  have "[1..<3] = [1, 2 :: nat]" by (simp add: upt_rec)
  with False assms ts show ?thesis by (auto simp: class_a_append_def lastn_def)
qed

lemma class_a_fail_step:
  fixes e :: ble_env
  assumes "class_a_inv s" and "CONFIG_TOTEM_THRASH_DETECT c"
  defines "s' \<equiv> class_a_note_auth_event c e True s"
    and "recent \<equiv> filter (\<lambda>t. k_uptime_get e - t \<le> CLASS_A_WINDOW_MS) (class_a_fails s)"
  shows "class_a_inv s'" and "class_a_fails s' = lastn 3 (recent @ [k_uptime_get e])"
    and "x_out s' = x_out s @ (if length (class_a_fails s') = 3 \<and> thrash_win_count c e s < 2
       then [(k_uptime_get e, X_log (log_args TOTEM_HEVT_CLASS_A_SUSPECT (to_i8 (zmk_ble_active_profile_index e))
              (to_i8 (zmk_ble_active_profile_index e)) 3 (of_nat (thrash_win_count c e s)) 0))] else [])"
proof -
  have len: "length (class_a_fail_ts s) = 3" "class_a_fail_count s \<le> 3" using assms(1) by (simp_all add: class_a_inv_def)
  from class_a_compact_prefix [of "class_a_fail_count s" "class_a_fail_ts s" "k_uptime_get e"] len
  obtain kept ts where k: "class_a_compact (k_uptime_get e) (class_a_fail_count s) (class_a_fail_ts s) = (kept, ts)"
    "length ts = 3" "kept \<le> 3" "take kept ts = recent" by (auto simp: recent_def class_a_fails_def)
  obtain count ts' where a: "class_a_append (k_uptime_get e) kept ts = (count, ts')" by (metis prod.exhaust)
  note t = class_a_append_take [OF k(2,3) a, unfolded k(4)]
  have win: "thrash_win_count c e (s\<lparr>class_a_fail_ts := ts', class_a_fail_count := count\<rparr>) = thrash_win_count c e s"
    by (simp add: thrash_win_count_def thrash_newest_first_def)
  let ?act = "to_i8 (zmk_ble_active_profile_index e)" and ?w = "thrash_win_count c e s"
  have s': "s' = (let u = s\<lparr>class_a_fail_ts := ts', class_a_fail_count := count\<rparr> in
      if count \<ge> 3 \<and> ?w < 2
      then emit e (X_log (log_args TOTEM_HEVT_CLASS_A_SUSPECT ?act ?act (of_nat count) (of_nat ?w) 0)) u else u)"
    using assms(2) by (simp add: s'_def class_a_note_auth_event_def k(1) a win Let_def)
  have fields: "class_a_fail_ts s' = ts'" "class_a_fail_count s' = count" by (simp_all add: s' Let_def)
  then show "class_a_inv s'" using t by (simp add: class_a_inv_def)
  have fails: "class_a_fails s' = take count ts'" using fields by (simp add: class_a_fails_def)
  with t show "class_a_fails s' = lastn 3 (recent @ [k_uptime_get e])" by simp
  have "length (take count ts') = count" using conjunct1 [OF t] conjunct1 [OF conjunct2 [OF t]] by simp
  then have "length (class_a_fails s') = 3 \<longleftrightarrow> count \<ge> 3" unfolding fails using t by auto
  moreover have "count = 3" if "count \<ge> 3" using that t by simp
  ultimately show "x_out s' = x_out s @ (if length (class_a_fails s') = 3 \<and> ?w < 2
       then [(k_uptime_get e, X_log (log_args TOTEM_HEVT_CLASS_A_SUSPECT ?act ?act 3 (of_nat ?w) 0))] else [])"
    by (auto simp: s' Let_def)
qed

subsection \<open>Bonds\<close>

fun touches_bonds :: "excl_effect \<Rightarrow> bool" where
  "touches_bonds X_submit_bond_clear = True"
| "touches_bonds X_clear_bonds = True"
| "touches_bonds _ = False"

definition bond_effects :: "excl \<Rightarrow> (int \<times> excl_effect) list" where
  "bond_effects s = filter (touches_bonds \<circ> snd) (x_out s)"

lemma bond_effects_emit [simp]: "\<not> touches_bonds x \<Longrightarrow> bond_effects (emit e x s) = bond_effects s"
  by (simp add: bond_effects_def)

lemma bond_effects_upd [simp]:
  "bond_effects (s\<lparr>class_a_fail_ts := a, class_a_fail_count := n\<rparr>) = bond_effects s"
  "bond_effects (s\<lparr>class_a_fail_count := n\<rparr>) = bond_effects s"
  "bond_effects (s\<lparr>class_a_fail_ts := a\<rparr>) = bond_effects s"
  "bond_effects (s\<lparr>last_skip_log_ms := t\<rparr>) = bond_effects s"
  "bond_effects (s\<lparr>last_ignore_log_ms := t\<rparr>) = bond_effects s"
  "bond_effects (s\<lparr>thrash_cap_logged := b\<rparr>) = bond_effects s"
  "bond_effects (s\<lparr>last_active_profile := i\<rparr>) = bond_effects s"
  "bond_effects (bg_note_evict c e i s) = bond_effects s"
  "bond_effects (thrash_push t s) = bond_effects s"
  "bond_effects (bg_clear_ignores s) = bond_effects s"
  "bond_effects (thrash_clear c s) = bond_effects s"
  by (simp_all add: bond_effects_def bg_clear_ignores_def thrash_clear_def)

lemma bond_effects_class_a [simp]: "bond_effects (class_a_note_auth_event c e b s) = bond_effects s"
  by (simp add: class_a_note_auth_event_def Let_def case_prod_beta)

lemma bond_effects_drop: "bond_effects (drop_if_non_active_host c e f conn s) = bond_effects s"
  by (simp add: drop_if_non_active_host_def thrash_note_bg_evict_def Let_def split: verdict.splits)

lemma bond_effects_scan: "bond_effects (fold (drop_if_non_active_host c e f) conns s) = bond_effects s"
  by (induction conns arbitrary: s) (simp_all add: bond_effects_drop)

lemma bond_effects_step:
  assumes "\<not> CONFIG_TOTEM_BOND_HEAL c" and "ev \<noteq> X_bond_clear"
  shows "bond_effects (excl_step c e ev s) = bond_effects s"
  using assms
  by (cases ev) (simp_all add: exclusive_host_connected_def exclusive_host_security_changed_def
      exclusive_host_disconnected_def log_host_conn_disc_def exclusive_host_identity_resolved_def
      exclusive_host_profile_changed_def schedule_retry_def exclusive_host_evict_work_handler_def
      exclusive_host_evict_all_def bond_effects_scan Let_def)

section \<open>Properties\<close>

text \<open>
  C9. Exclusivity only ever disconnects a resolved background computer: whatever handler runs
  in whatever state, a disconnect it issues is to a peripheral-role link whose address belongs
  to a stored profile other than the selected one, never while USB carries the keystrokes or the
  cable is in, and (with the guard configured) never while the selected profile has no connected
  host. In particular an unresolved address, a pairing in progress, the selected host and the
  split half are never dropped.
\<close>

theorem evict_only_background:
  assumes "(t, conn, err) \<in> set (drop (length (disconnects (x_out s))) (disconnects (x_out (excl_step c e ev s))))"
  shows "t = k_uptime_get e
    \<and> (case conn_info conn of None \<Rightarrow> False | Some info \<Rightarrow> info_role info = BT_CONN_ROLE_PERIPHERAL)
    \<and> \<not> totem_hid_is_usb e \<and> \<not> totem_usb_cable_up c e
    \<and> 0 \<le> zmk_ble_profile_index e (conn_dst conn)
    \<and> zmk_ble_profile_index e (conn_dst conn) \<noteq> zmk_ble_active_profile_index e
    \<and> (if CONFIG_TOTEM_EVICT_REQUIRES_BONDED_ACTIVE c
       then \<not> zmk_ble_active_profile_is_open e \<and> zmk_ble_active_profile_is_connected e else True)"
proof -
  from step_disconnects [of c e ev s] obtain ds
    where "disconnects (x_out (excl_step c e ev s)) = disconnects (x_out s) @ ds"
      and "\<forall>(t, conn, err) \<in> set ds. t = k_uptime_get e \<and> background_host c e conn" by blast
  with assms have "t = k_uptime_get e" "background_host c e conn" by auto
  then show ?thesis by (simp add: background_host_def)
qed

text \<open>A computer on profile 1 while profile 0 is selected and connected.\<close>

definition demo_env :: "int \<Rightarrow> ble_env" where
  "demo_env t = \<lparr>k_uptime_get = t, zmk_ble_active_profile_index = 0, zmk_ble_active_profile_is_open = False,
     zmk_ble_active_profile_is_connected = True, zmk_ble_host_adv_suppressed = False,
     zmk_ble_profile_index = int, zmk_endpoint_selected_transport = ZMK_TRANSPORT_BLE,
     zmk_usb_is_powered = False, bt_conn_disconnect = (\<lambda>_ _. 0)\<rparr>"

definition demo_conn :: "nat \<Rightarrow> bt_conn" where
  "demo_conn a = \<lparr>conn_index = 0, conn_dst = a,
     conn_info = Some \<lparr>info_le = True, info_role = BT_CONN_ROLE_PERIPHERAL, info_state = BT_CONN_STATE_CONNECTED,
       info_interval = 12, info_latency = 0, info_timeout = 400\<rparr>, conn_security = 2\<rparr>"

theorem evict_only_background_witness:
  "disconnects (x_out (excl_step totem_left_config (demo_env 5) (X_scan [demo_conn 0, demo_conn 1])
      (excl_boot totem_left_config))) = [(5, demo_conn 1, 0)]
   \<and> zmk_ble_profile_index (demo_env 5) (conn_dst (demo_conn 1)) \<noteq> zmk_ble_active_profile_index (demo_env 5)"
proof -
  let ?s = "excl_boot totem_left_config"
  have b: "disconnects (x_out ?s) = []" by (simp add: excl_boot_def)
  have d: "disconnects (x_out (excl_step totem_left_config (demo_env 5) (X_scan [demo_conn 0, demo_conn 1]) ?s))
      = [(5, demo_conn 1, 0)]" by code_simp
  have "(5, demo_conn 1, 0) \<in> set (drop (length (disconnects (x_out ?s)))
     (disconnects (x_out (excl_step totem_left_config (demo_env 5) (X_scan [demo_conn 0, demo_conn 1]) ?s))))"
    unfolding d b by simp
  from evict_only_background [OF this] d show ?thesis by blast
qed

text \<open>
  C29. A kicked profile is left alone: while the selection does not change, two evictions of the
  same profile are at least \<open>CONFIG_TOTEM_BG_EVICT_IGNORE_MS\<close> apart, however often that computer
  reconnects and whatever else happens in between.
\<close>

theorem evictions_of_profile_spaced:
  assumes "list_all (steady_event c k a) evs" and "ignore_inv c a s"
  shows "sorted_wrt (\<lambda>t t'. t + CONFIG_TOTEM_BG_EVICT_IGNORE_MS c \<le> t')
    (fire_times (\<lambda>ev. excl_step c (fst ev) (snd ev)) (\<lambda>ev. k_uptime_get (fst ev)) (evicts_profile c k) evs s)"
  by (rule bg_evictor.fire_times_spaced [OF assms])

theorem evictions_of_profile_spaced_witness:
  "let evs = map (\<lambda>t. (demo_env t, X_scan [demo_conn 1])) [5, 155, 2005, 10005]
   in fire_times (\<lambda>ev. excl_step totem_left_config (fst ev) (snd ev)) (\<lambda>ev. k_uptime_get (fst ev))
        (evicts_profile totem_left_config 1) evs (excl_boot totem_left_config) = [5, 10005]
      \<and> sorted_wrt (\<lambda>t t'. t + 10000 \<le> t') [5, 10005 :: int]"
proof -
  let ?evs = "map (\<lambda>t. (demo_env t, X_scan [demo_conn 1])) [5, 155, 2005, 10005]"
  let ?f = "fire_times (\<lambda>ev. excl_step totem_left_config (fst ev) (snd ev)) (\<lambda>ev. k_uptime_get (fst ev))
        (evicts_profile totem_left_config 1) ?evs (excl_boot totem_left_config)"
  have gap: "CONFIG_TOTEM_BG_EVICT_IGNORE_MS totem_left_config = 10000" by (simp add: totem_left_config_def)
  have adm: "list_all (steady_event totem_left_config 1 0) ?evs"
    by (simp add: steady_event_def demo_env_def totem_left_config_def)
  have inv: "ignore_inv totem_left_config 0 (excl_boot totem_left_config)" by (simp add: ignore_inv_def excl_boot_def)
  have f: "?f = [5, 10005]" by code_simp
  from evictions_of_profile_spaced [OF adm inv] have "sorted_wrt (\<lambda>t t'. t + 10000 \<le> t') ?f" by (simp only: gap)
  with f show ?thesis by (simp only: Let_def)
qed

text \<open>
  C10. The storm cap holds over every run: from boot, with the clock running forward and whatever is
  selected when, no time window of the configured length contains more evictions (of any profiles)
  than \<open>CONFIG_TOTEM_BG_EVICT_CAP\<close> for each stretch between the profile switches in it: with no
  switch in the window at most the cap, with each switch, which starts the count afresh, at most
  the cap more.
\<close>

theorem eviction_storm_capped:
  assumes "kconfig_ok c" and "CONFIG_TOTEM_THRASH_DETECT c"
    and "sorted (map (\<lambda>ev. k_uptime_get (fst ev)) evs)"
    and "window = (\<lambda>t. t0 \<le> t \<and> t \<le> t0 + CONFIG_TOTEM_THRASH_WINDOW_SEC c * 1000)"
  shows "length (filter window (evict_times (excl_run c evs (excl_boot c))))
    \<le> CONFIG_TOTEM_BG_EVICT_CAP c * (1 + length (filter window (switch_times (- 1) evs)))"
proof -
  have w: "window = in_window c t0" by (simp add: assms(4) in_window_def THRASH_WINDOW_MS_def fun_eq_iff)
  obtain now where "sorted (now # map (\<lambda>ev. k_uptime_get (fst ev)) evs)"
    using assms(3) by (cases evs) (auto intro: that [of "k_uptime_get (fst (hd evs))"])
  from storm_inv_run [OF assms(1,2) storm_inv_boot this] have
    "storm_inv c (switch_times (- 1) evs) (last (now # map (\<lambda>ev. k_uptime_get (fst ev)) evs)) (excl_run c evs (excl_boot c))"
    by (simp add: excl_boot_def)
  from storm_inv_bound [OF this] show ?thesis unfolding w .
qed

text \<open>Another profile reconnects over and over; the ignore time is off, the cap is two, and the selection moves once.\<close>

definition storm_config :: totem_config where
  "storm_config = totem_left_config\<lparr>CONFIG_TOTEM_BG_EVICT_IGNORE_MS := 0, CONFIG_TOTEM_BG_EVICT_CAP := 2\<rparr>"

theorem eviction_storm_capped_witness:
  "let env = (\<lambda>a t. (demo_env t)\<lparr>zmk_ble_active_profile_index := a\<rparr>);
       evs = [(env 0 50, X_profile_changed)] @ map (\<lambda>t. (env 0 t, X_scan [demo_conn 1])) [100, 200, 300]
          @ [(env 2 400, X_profile_changed)] @ map (\<lambda>t. (env 2 t, X_scan [demo_conn 1])) [500, 600, 700, 10601];
       run = excl_run storm_config evs (excl_boot storm_config); window = (\<lambda>t. 50 \<le> t \<and> t \<le> 50 + 10 * 1000)
   in evict_times run = [100, 200, 500, 600, 10601] \<and> switch_times (- 1) evs = [400]
      \<and> length (filter window (evict_times run)) \<le> 2 * (1 + length (filter window (switch_times (- 1) evs)))"
proof -
  let ?env = "\<lambda>a t. (demo_env t)\<lparr>zmk_ble_active_profile_index := a\<rparr>"
  let ?evs = "[(?env 0 50, X_profile_changed)] @ map (\<lambda>t. (?env 0 t, X_scan [demo_conn 1])) [100, 200, 300]
     @ [(?env 2 400, X_profile_changed)] @ map (\<lambda>t. (?env 2 t, X_scan [demo_conn 1])) [500, 600, 700, 10601]"
  have ts: "evict_times (excl_run storm_config ?evs (excl_boot storm_config)) = [100, 200, 500, 600, 10601]"
    and sw: "switch_times (- 1) ?evs = [400]" by code_simp+
  have k: "kconfig_ok storm_config" "CONFIG_TOTEM_THRASH_DETECT storm_config" "CONFIG_TOTEM_BG_EVICT_CAP storm_config = 2"
    "CONFIG_TOTEM_THRASH_WINDOW_SEC storm_config = 10"
    by (simp_all add: kconfig_ok_def storm_config_def totem_left_config_def)
  have e: "sorted (map (\<lambda>ev. k_uptime_get (fst ev)) ?evs)" by (simp add: demo_env_def)
  from eviction_storm_capped [OF k(1,2) e refl, of 50] ts sw show ?thesis unfolding Let_def k(3,4) by blast
qed

text \<open>
  C30. The Class-A alarm means what it says: after an authentication failure of the selected host
  the module remembers exactly the newest (at most three) failures of the last 60 seconds since
  the last success, and raises the alarm exactly when there are three of them and fewer than two
  evictions in the thrash window.
\<close>

theorem class_a_alarm_exact:
  assumes "class_a_inv s" and "CONFIG_TOTEM_THRASH_DETECT c"
    and "s' = class_a_note_auth_event c e True s"
  shows "class_a_inv s'
    \<and> class_a_fails s' = lastn 3 (filter (\<lambda>t. k_uptime_get e - t \<le> 60000) (class_a_fails s) @ [k_uptime_get e])
    \<and> x_out s' = x_out s @ (if length (class_a_fails s') = 3 \<and> thrash_win_count c e s < 2
        then [(k_uptime_get e, X_log (log_args TOTEM_HEVT_CLASS_A_SUSPECT (to_i8 (zmk_ble_active_profile_index e))
               (to_i8 (zmk_ble_active_profile_index e)) 3 (of_nat (thrash_win_count c e s)) 0))] else [])
    \<and> class_a_fails (class_a_note_auth_event c e False s) = []"
  using class_a_fail_step [OF assms(1,2), of e] assms(2)
  by (simp add: assms(3) class_a_fails_def class_a_note_auth_event_def)

theorem class_a_alarm_exact_witness:
  "let s = (excl_boot totem_left_config)\<lparr>class_a_fail_ts := [10, 20, 30], class_a_fail_count := 3\<rparr>;
       s' = class_a_note_auth_event totem_left_config (demo_env 60015) True s
   in class_a_fails s' = [20, 30, 60015] \<and> length (x_out s') = 1"
proof -
  let ?s = "(excl_boot totem_left_config)\<lparr>class_a_fail_ts := [10, 20, 30], class_a_fail_count := 3\<rparr>"
  have a: "class_a_inv ?s" "CONFIG_TOTEM_THRASH_DETECT totem_left_config"
    by (simp_all add: class_a_inv_def totem_left_config_def)
  have f: "class_a_fails ?s = [10, 20, 30]" "x_out ?s = []" "k_uptime_get (demo_env 60015) = 60015"
    by (simp_all add: class_a_fails_def excl_boot_def demo_env_def)
  have w: "thrash_win_count totem_left_config (demo_env 60015) ?s = 0"
    by (simp add: thrash_win_count_def thrash_newest_first_def excl_boot_def)
  from class_a_alarm_exact [OF a refl, of "demo_env 60015"] show ?thesis
    by (simp add: f w lastn_def Let_def)
qed

text \<open>
  Without the experimental bond healing, exclusivity never touches a bond: over every run of
  its handlers no bond clearing is requested or performed.
\<close>

theorem bonds_never_touched:
  assumes "\<not> CONFIG_TOTEM_BOND_HEAL c" and "X_bond_clear \<notin> snd ` set evs"
  shows "bond_effects (excl_run c evs (excl_boot c)) = []"
proof -
  have "bond_effects (excl_run c evs s) = bond_effects s" if "X_bond_clear \<notin> snd ` set evs" for evs s
    using that by (induction evs arbitrary: s) (auto simp: excl_run_def bond_effects_step [OF assms(1)])
  with assms(2) show ?thesis by (simp add: bond_effects_def excl_boot_def)
qed

theorem bonds_never_touched_witness:
  "bond_effects (excl_run totem_left_config
     (replicate 5 (demo_env 9, X_disconnected (demo_conn 0) 5)) (excl_boot totem_left_config)) = []"
proof -
  have "\<not> CONFIG_TOTEM_BOND_HEAL totem_left_config" by (simp add: totem_left_config_def)
  moreover have "X_bond_clear \<notin> snd ` set (replicate 5 (demo_env 9, X_disconnected (demo_conn 0) 5))" by simp
  ultimately show ?thesis by (rule bonds_never_touched)
qed

end
