(* ===== verification/Exclusive_Host_Runs.thy ===== *)
theory Exclusive_Host_Runs
  imports Exclusive_Host "HOL-Library.Sublist"
begin

text \<open>
  Runs of the exclusive-host module of \<open>Exclusive_Host\<close>: the shape of its static arrays and indices,
  which every handler keeps, and the eviction count of \<open>thrash_win_count\<close>, a ring of sixteen entries
  scanned with an early exit, against the count over the whole history.
\<close>

section \<open>Shape of the static variables\<close>

definition excl_wf :: "totem_config \<Rightarrow> excl \<Rightarrow> bool" where
  "excl_wf c s \<longleftrightarrow> length (bg_ignore_until s) = ZMK_BLE_PROFILE_COUNT c \<and> thrash_inv s \<and> class_a_inv s"

lemma excl_wf_boot: "excl_wf c (excl_boot c)"
  by (simp add: excl_wf_def excl_boot_def thrash_inv_def class_a_inv_def)

lemma excl_wf_upd [simp]:
  "excl_wf c (emit e x s) = excl_wf c s" "excl_wf c (s\<lparr>last_skip_log_ms := t\<rparr>) = excl_wf c s"
  "excl_wf c (s\<lparr>last_ignore_log_ms := t\<rparr>) = excl_wf c s" "excl_wf c (s\<lparr>thrash_cap_logged := b\<rparr>) = excl_wf c s"
  "excl_wf c (s\<lparr>active_auth_fail_streak := n\<rparr>) = excl_wf c s" "excl_wf c (s\<lparr>last_active_profile := i\<rparr>) = excl_wf c s"
  by (simp_all add: excl_wf_def thrash_inv_def class_a_inv_def)

lemma excl_wf_parts [simp]:
  "excl_wf c s \<Longrightarrow> excl_wf c (bg_clear_ignores s)" "excl_wf c s \<Longrightarrow> excl_wf c (bg_note_evict c e i s)"
  "excl_wf c s \<Longrightarrow> excl_wf c (thrash_push t s)" "excl_wf c s \<Longrightarrow> excl_wf c (thrash_clear c s)"
  by (simp_all add: excl_wf_def thrash_inv_def class_a_inv_def bg_clear_ignores_def bg_note_evict_def thrash_push_def
      thrash_clear_def)

lemma excl_wf_class_a [simp]:
  assumes "excl_wf c s"
  shows "excl_wf c (class_a_note_auth_event c e b s)"
proof (cases "CONFIG_TOTEM_THRASH_DETECT c \<and> b")
  case True
  have "guard_vars (class_a_note_auth_event c e b s) = guard_vars s" using class_a_quiet by (simp add: quiet_def)
  moreover from this have "thrash_inv (class_a_note_auth_event c e b s) = thrash_inv s" using thrash_guard_vars by blast
  moreover have "class_a_inv (class_a_note_auth_event c e b s)"
    using True assms class_a_fail_step(1) [of s c e] by (simp add: excl_wf_def)
  ultimately show ?thesis using assms by (simp add: excl_wf_def guard_vars_def)
next
  case False
  with assms show ?thesis by (auto simp: class_a_note_auth_event_def excl_wf_def class_a_inv_def thrash_inv_def)
qed

lemma excl_wf_bond_heal [simp]:
  "excl_wf c s \<Longrightarrow> excl_wf c (bond_heal_note_auth_failure c e s)" "excl_wf c s \<Longrightarrow> excl_wf c (bond_heal_note_auth_ok s)"
  by (simp_all add: bond_heal_note_auth_failure_def bond_heal_note_auth_ok_def Let_def)

lemma excl_wf_drop: "excl_wf c s \<Longrightarrow> excl_wf c (drop_if_non_active_host c e force conn s)"
  by (auto simp: drop_if_non_active_host_def thrash_note_bg_evict_def Let_def split: verdict.splits)

lemma excl_wf_scan: "excl_wf c s \<Longrightarrow> excl_wf c (fold (drop_if_non_active_host c e force) conns s)"
  by (induction conns arbitrary: s) (simp_all add: excl_wf_drop)

lemmas excl_callback_defs = exclusive_host_connected_def exclusive_host_security_changed_def exclusive_host_disconnected_def
  log_host_conn_disc_def exclusive_host_identity_resolved_def exclusive_host_profile_changed_def schedule_retry_def
  bond_heal_clear_active_work_handler_def Let_def

lemma excl_wf_step: "excl_wf c s \<Longrightarrow> excl_wf c (excl_step c e ev s)"
  by (cases ev) (auto simp: excl_callback_defs exclusive_host_evict_work_handler_def exclusive_host_evict_all_def excl_wf_scan)

lemma excl_wf_run: "excl_wf c s \<Longrightarrow> excl_wf c (excl_run c evs s)"
  by (induction evs arbitrary: s) (auto simp: excl_run_def excl_wf_step)

section \<open>Handlers only append\<close>

lemma class_a_prefix: "prefix (x_out s) (x_out (class_a_note_auth_event c e b s))"
  by (simp add: class_a_note_auth_event_def Let_def case_prod_beta)

lemma drop_prefix: "prefix (x_out s) (x_out (drop_if_non_active_host c e force conn s))"
  by (simp add: drop_if_non_active_host_def thrash_note_bg_evict_def Let_def split: verdict.split)

lemma scan_prefix: "prefix (x_out s) (x_out (fold (drop_if_non_active_host c e force) conns s))"
  by (induction conns arbitrary: s) (simp, metis drop_prefix fold_simps(2) prefix_order.trans)

lemma out_upd [simp]:
  "x_out (bg_clear_ignores s) = x_out s" "x_out (thrash_clear c s) = x_out s" "x_out (bond_heal_note_auth_ok s) = x_out s"
  by (simp_all add: bg_clear_ignores_def thrash_clear_def bond_heal_note_auth_ok_def)

lemma heal_prefix: "prefix (x_out s) (x_out (bond_heal_note_auth_failure c e s))"
  by (simp add: bond_heal_note_auth_failure_def Let_def)

lemma prefix_emit: "prefix xs (x_out s) \<Longrightarrow> prefix xs (x_out (emit e x s))"
  by simp

lemma prefix_class_a: "prefix xs (x_out s) \<Longrightarrow> prefix xs (x_out (class_a_note_auth_event c e b s))"
  using class_a_prefix prefix_order.trans by blast

lemma prefix_heal: "prefix xs (x_out s) \<Longrightarrow> prefix xs (x_out (bond_heal_note_auth_failure c e s))"
  using heal_prefix prefix_order.trans by blast

lemma excl_step_prefix: "prefix (x_out s) (x_out (excl_step c e ev s))"
  by (cases ev)
    (simp_all add: excl_callback_defs exclusive_host_evict_work_handler_def exclusive_host_evict_all_def scan_prefix
      prefix_class_a prefix_heal)

section \<open>Whom a run disconnects\<close>

lemma run_disconnects_computers:
  "(t, conn, err) \<in> set (disconnects (x_out (excl_run c evs (excl_boot c)))) \<Longrightarrow> computer_link conn"
proof (induction evs rule: rev_induct)
  case Nil
  then show ?case by (simp add: excl_run_def excl_boot_def)
next
  case (snoc ev evs)
  let ?s = "excl_run c evs (excl_boot c)"
  have run: "excl_run c (evs @ [ev]) (excl_boot c) = excl_step c (fst ev) (snd ev) ?s" by (simp add: excl_run_def case_prod_beta)
  from step_disconnects [of c "fst ev" "snd ev" ?s] obtain ds
    where "disconnects (x_out (excl_step c (fst ev) (snd ev) ?s)) = disconnects (x_out ?s) @ ds"
      and "\<forall>(t, conn, err) \<in> set ds. t = k_uptime_get (fst ev) \<and> background_host c (fst ev) conn" by blast
  with snoc run show ?case by (auto simp: background_host_def computer_link_def)
qed

section \<open>Early exit against a full count\<close>

lemma takeWhile_rev_sorted:
  assumes "sorted ts" and up: "\<And>t u. P t \<Longrightarrow> t \<le> u \<Longrightarrow> P u"
  shows "length (takeWhile P (rev ts)) = length (filter P ts)"
  using assms(1)
proof (induction ts rule: rev_induct)
  case Nil
  then show ?case by simp
next
  case (snoc t ts)
  have "filter P ts = []" if "\<not> P t"
    using snoc.prems that up by (auto simp: filter_empty_conv sorted_append)
  with snoc show ?case by (auto simp: sorted_append)
qed

lemma length_takeWhile_take: "length (takeWhile P (take n xs)) = min n (length (takeWhile P xs))"
  by (induction xs arbitrary: n) (auto simp: take_Cons split: nat.splits)

lemma window_within_cap:
  assumes "cap_inv c a now s" and "kconfig_ok c"
  shows "length (filter (\<lambda>t. now - t \<le> THRASH_WINDOW_MS c) (evict_times s)) \<le> CONFIG_TOTEM_BG_EVICT_CAP c"
proof (rule ccontr)
  let ?P = "\<lambda>t. now - t \<le> THRASH_WINDOW_MS c" and ?ts = "evict_times s" and ?k = "CONFIG_TOTEM_BG_EVICT_CAP c"
  let ?n = "length ?ts - Suc ?k"
  assume "\<not> ?thesis"
  then have more: "?k < length (takeWhile ?P (rev ?ts))"
    using assms(1) takeWhile_rev_sorted [of ?ts ?P] by (simp add: cap_inv_unfold)
  then have len: "?k < length ?ts" using length_takeWhile_le [of ?P "rev ?ts"] by simp
  have "takeWhile ?P (rev ?ts) ! ?k = rev ?ts ! ?k" using more by (rule takeWhile_nth)
  then have "?P (rev ?ts ! ?k)" using more set_takeWhileD [of _ ?P "rev ?ts"] by (metis nth_mem)
  then have old: "now - ?ts ! ?n \<le> THRASH_WINDOW_MS c" using len by (simp add: rev_nth)
  have "?n + ?k < length ?ts" using len by simp
  moreover have "cap_spaced c ?ts" using assms(1) by (simp add: cap_inv_unfold)
  ultimately have "?ts ! (?n + ?k) - ?ts ! ?n > THRASH_WINDOW_MS c" unfolding cap_spaced_def by blast
  moreover have "?ts ! (?n + ?k) \<le> now" using assms(1) len by (simp add: cap_inv_unfold)
  ultimately show False using old by simp
qed

section \<open>What one scan does\<close>

lemma verdict_iff:
  "evict_verdict c e False conn s = Evict \<longleftrightarrow> background_host c e conn \<and> \<not> bg_should_ignore c e (conn_idx e conn) s
     \<and> \<not> (CONFIG_TOTEM_THRASH_DETECT c \<and> thrash_win_count c e s \<ge> CONFIG_TOTEM_BG_EVICT_CAP c)"
  by (auto simp: evict_verdict_def background_host_def Let_def split: option.splits)

lemma guards_read:
  "guard_vars s = guard_vars s' \<Longrightarrow> bg_should_ignore c e i s = bg_should_ignore c e i s' \<and> thrash_win_count c e s = thrash_win_count c e s'"
  by (simp add: guard_vars_def bg_should_ignore_def thrash_win_count_def thrash_newest_first_def)

lemma win_count_push:
  assumes "thrash_inv s" and "CONFIG_TOTEM_THRASH_DETECT c" and "thrash_win_count c e s < 16" and "0 \<le> THRASH_WINDOW_MS c"
  shows "thrash_win_count c e (thrash_push (k_uptime_get e) s) = thrash_win_count c e s + 1"
proof -
  let ?P = "\<lambda>t. k_uptime_get e - t \<le> THRASH_WINDOW_MS c" and ?ts = "thrash_contents s"
  have "rev (lastn 16 (?ts @ [k_uptime_get e])) = take 16 (k_uptime_get e # rev ?ts)"
    by (cases "length ?ts \<le> 15") (simp_all add: lastn_def rev_drop take_Cons')
  with assms have "thrash_win_count c e (thrash_push (k_uptime_get e) s) = length (takeWhile ?P (take 16 (k_uptime_get e # rev ?ts)))"
    by (simp add: win_count_contents thrash_log.push_invar thrash_log.push_contents)
  with assms show ?thesis
    by (simp add: length_takeWhile_take win_count_contents)
qed

lemma ignore_after_evict:
  "i \<noteq> idx \<Longrightarrow> 0 \<le> i \<Longrightarrow> 0 \<le> idx \<Longrightarrow> bg_should_ignore c e i (bg_note_evict c e idx s) = bg_should_ignore c e i s"
  by (simp add: bg_should_ignore_def bg_note_evict_def)

lemma ignore_push [simp]: "bg_should_ignore c e i (thrash_push t s) = bg_should_ignore c e i s"
  by (simp add: bg_should_ignore_def)

lemma scan_evicts:
  assumes "kconfig_ok c" and "CONFIG_TOTEM_THRASH_DETECT c" and "thrash_inv s"
    and "\<And>conn. conn \<in> set conns \<Longrightarrow> disc_err c e conn = 0"
    and "distinct (map (conn_idx e) (filter (background_host c e) conns))"
  shows "disconnects (x_out (fold (drop_if_non_active_host c e False) conns s)) = disconnects (x_out s) @
    map (\<lambda>conn. (k_uptime_get e, conn, 0)) (take (CONFIG_TOTEM_BG_EVICT_CAP c - thrash_win_count c e s)
      (filter (\<lambda>conn. background_host c e conn \<and> \<not> bg_should_ignore c e (conn_idx e conn) s) conns))"
  using assms(3-5)
proof (induction conns arbitrary: s)
  case Nil
  then show ?case by simp
next
  case (Cons conn conns)
  let ?s = "drop_if_non_active_host c e False conn s" and ?w = "thrash_win_count c e s"
  let ?f = "\<lambda>s conn. background_host c e conn \<and> \<not> bg_should_ignore c e (conn_idx e conn) s"
  have cap: "CONFIG_TOTEM_BG_EVICT_CAP c \<le> 16" "0 \<le> THRASH_WINDOW_MS c"
    using assms(1) by (simp_all add: kconfig_ok_def THRASH_WINDOW_MS_def)
  have IH: "disconnects (x_out (fold (drop_if_non_active_host c e False) conns ?s)) = disconnects (x_out ?s) @
      map (\<lambda>conn. (k_uptime_get e, conn, 0)) (take (CONFIG_TOTEM_BG_EVICT_CAP c - thrash_win_count c e ?s) (filter (?f ?s) conns))"
    if "thrash_inv ?s" using Cons.IH [OF that] Cons.prems by (simp split: if_splits)
  show ?case
  proof (cases "evict_verdict c e False conn s = Evict")
    case False
    have q: "guard_vars ?s = guard_vars s" using drop_not_evicted [OF False] by (simp add: quiet_def)
    have "thrash_inv ?s" using thrash_guard_vars [OF q] Cons.prems(1) by simp
    from IH [OF this] False guards_read [OF q, of c e] verdict_iff [of c e conn s] assms(2) show ?thesis
      by (cases "?f s conn") (auto simp: drop_disconnects)
  next
    case True
    then have v: "background_host c e conn" "\<not> bg_should_ignore c e (conn_idx e conn) s" "?w < CONFIG_TOTEM_BG_EVICT_CAP c"
      using verdict_iff [of c e conn s] assms(2) by auto
    have z: "disc_err c e conn = 0" using Cons.prems(2) by simp
    let ?n = "bg_note_evict c e (conn_idx e conn) s"
    have g: "guard_vars ?s = guard_vars (thrash_push (k_uptime_get e) ?n)" using drop_evicted(3) [OF True z] assms(2) by simp
    have ni: "thrash_inv ?n" "thrash_win_count c e ?n = ?w"
      using Cons.prems(1) by (simp_all add: thrash_inv_def thrash_win_count_def thrash_newest_first_def)
    have inv: "thrash_inv ?s" using thrash_guard_vars [OF g] thrash_log.push_invar [OF ni(1)] by simp
    have win: "thrash_win_count c e ?s = ?w + 1"
      using guards_read [OF g, of c e] win_count_push [OF ni(1) assms(2)] ni(2) v(3) cap by simp
    have other: "bg_should_ignore c e (conn_idx e x) ?s = bg_should_ignore c e (conn_idx e x) s"
      if "x \<in> set conns" "background_host c e x" for x
    proof -
      have "conn_idx e x \<noteq> conn_idx e conn" using Cons.prems(3) v(1) that by (force simp: image_iff)
      moreover have "0 \<le> conn_idx e x" "0 \<le> conn_idx e conn" using that(2) v(1) by (simp_all add: background_host_def)
      ultimately have "bg_should_ignore c e (conn_idx e x) ?n = bg_should_ignore c e (conn_idx e x) s"
        by (rule ignore_after_evict)
      with guards_read [OF g, of c e] show ?thesis by simp
    qed
    have rest: "filter (?f ?s) conns = filter (?f s) conns" using other by (intro filter_cong) auto
    have "CONFIG_TOTEM_BG_EVICT_CAP c - ?w = Suc (CONFIG_TOTEM_BG_EVICT_CAP c - (?w + 1))" using v(3) by simp
    with IH [OF inv] True v(1,2) z show ?thesis
      by (simp add: drop_disconnects win rest)
  qed
qed

section \<open>Properties\<close>


text \<open>
  C17. The optimised eviction count is exact: in any run from boot with the clock going forward
  and the selection unchanged, the backward scan of the sixteen-entry ring, which stops at the
  first entry outside the window, returns the number of all evictions of the whole history that
  lie in the window; the ring is never too small and the early exit never misses one.
\<close>

theorem thrash_count_exact:
  assumes "kconfig_ok c" and "CONFIG_TOTEM_THRASH_DETECT c"
    and "sorted (map (\<lambda>ev. k_uptime_get (fst ev)) evs @ [k_uptime_get e])"
    and "list_all (\<lambda>ev. zmk_ble_active_profile_index (fst ev) = a) evs"
  shows "thrash_win_count c e (excl_run c evs (excl_boot c))
    = length (filter (\<lambda>t. k_uptime_get e - t \<le> THRASH_WINDOW_MS c) (evict_times (excl_run c evs (excl_boot c))))"
proof -
  let ?s = "excl_run c evs (excl_boot c)" and ?P = "\<lambda>t. k_uptime_get e - t \<le> THRASH_WINDOW_MS c"
  have "sorted (map (\<lambda>ev. k_uptime_get (fst ev)) evs)" using assms(3) by (simp add: sorted_append)
  note run = cap_inv_boot_run [OF assms(1,2) this assms(4), of "k_uptime_get e"]
  have "(if evs = [] then k_uptime_get e else k_uptime_get (fst (last evs))) \<le> k_uptime_get e"
    using assms(3) by (auto simp: sorted_append)
  from cap_inv_later [OF run this] have inv: "cap_inv c a (k_uptime_get e) ?s" .
  have full: "length (takeWhile ?P (rev (evict_times ?s))) = length (filter ?P (evict_times ?s))"
    using inv by (intro takeWhile_rev_sorted) (auto simp: cap_inv_unfold)
  have small: "length (filter ?P (evict_times ?s)) \<le> 16"
    using window_within_cap [OF inv assms(1)] assms(1) by (simp add: kconfig_ok_def)
  have "thrash_win_count c e ?s = length (takeWhile ?P (rev (lastn 16 (evict_times ?s))))"
    using inv win_count_contents [of ?s c e] assms(2) by (simp add: cap_inv_unfold)
  also have "\<dots> = min 16 (length (takeWhile ?P (rev (evict_times ?s))))"
    using length_takeWhile_le [of ?P "rev (evict_times ?s)"] by (simp add: lastn_def rev_drop length_takeWhile_take)
  finally show ?thesis using full small by simp
qed

theorem thrash_count_exact_witness:
  "let evs = map (\<lambda>t. (demo_env t, X_scan [demo_conn 1])) [100, 200, 300, 9000, 10101]
   in thrash_win_count storm_config (demo_env 10150) (excl_run storm_config evs (excl_boot storm_config)) = 2"
proof -
  let ?evs = "map (\<lambda>t. (demo_env t, X_scan [demo_conn 1])) [100, 200, 300, 9000, 10101]"
  have k: "kconfig_ok storm_config" "CONFIG_TOTEM_THRASH_DETECT storm_config"
    by (simp_all add: kconfig_ok_def storm_config_def totem_left_config_def)
  have e: "sorted (map (\<lambda>ev. k_uptime_get (fst ev)) ?evs @ [k_uptime_get (demo_env 10150)])"
    "list_all (\<lambda>ev. zmk_ble_active_profile_index (fst ev) = 0) ?evs"
    by (simp_all add: demo_env_def)
  have ts: "evict_times (excl_run storm_config ?evs (excl_boot storm_config)) = [100, 200, 10101]" by code_simp
  have "THRASH_WINDOW_MS storm_config = 10000" "k_uptime_get (demo_env 10150) = 10150"
    by (simp_all add: THRASH_WINDOW_MS_def storm_config_def totem_left_config_def demo_env_def)
  with thrash_count_exact [OF k e] ts show ?thesis by (simp only: Let_def) simp
qed

text \<open>
  C14. A scan does what the module promises, no less: after any run, when every disconnect
  succeeds and each profile has one link, a scan disconnects, in the order of the connection
  table, every background computer that is not in its ignore time, up to the number that the storm
  cap still allows in the current window, and nobody else; below the cap it leaves no background
  computer connected.
\<close>

theorem scan_evicts_exactly:
  assumes "kconfig_ok c" and "CONFIG_TOTEM_THRASH_DETECT c" and "s = excl_run c evs (excl_boot c)"
    and "\<forall>conn \<in> set conns. bt_conn_disconnect e conn (EVICT_DISCONNECT_REASON c) = 0"
    and "distinct (map (\<lambda>conn. zmk_ble_profile_index e (conn_dst conn)) (filter (background_host c e) conns))"
  shows "drop (length (disconnects (x_out s))) (disconnects (x_out (excl_step c e (X_scan conns) s)))
    = map (\<lambda>conn. (k_uptime_get e, conn, 0)) (take (CONFIG_TOTEM_BG_EVICT_CAP c - thrash_win_count c e s)
        (filter (\<lambda>conn. background_host c e conn
           \<and> \<not> bg_should_ignore c e (zmk_ble_profile_index e (conn_dst conn)) s) conns))"
proof -
  have "thrash_inv s" using excl_wf_run [OF excl_wf_boot, of c evs] by (simp add: excl_wf_def assms(3))
  from scan_evicts [OF assms(1,2) this, of conns e] assms(4,5) show ?thesis
    by (simp add: exclusive_host_evict_work_handler_def exclusive_host_evict_all_def)
qed

text \<open>Three background computers, one of them evicted a second ago, with room for one more eviction.\<close>

theorem scan_evicts_exactly_witness:
  "let c = totem_left_config\<lparr>CONFIG_TOTEM_BG_EVICT_CAP := 2\<rparr>;
       s = excl_run c [(demo_env 100, X_scan [demo_conn 1])] (excl_boot c)
   in drop (length (disconnects (x_out s))) (disconnects (x_out (excl_step c (demo_env 1100)
        (X_scan [demo_conn 0, demo_conn 1, demo_conn 2, demo_conn 3]) s))) = [(1100, demo_conn 2, 0)]"
proof -
  let ?c = "totem_left_config\<lparr>CONFIG_TOTEM_BG_EVICT_CAP := 2\<rparr>" and ?e = "demo_env 1100"
  let ?s = "excl_run ?c [(demo_env 100, X_scan [demo_conn 1])] (excl_boot ?c)"
    and ?conns = "[demo_conn 0, demo_conn 1, demo_conn 2, demo_conn 3]"
  have k: "kconfig_ok ?c" "CONFIG_TOTEM_THRASH_DETECT ?c" by (simp_all add: kconfig_ok_def totem_left_config_def)
  have d: "\<forall>conn \<in> set ?conns. bt_conn_disconnect ?e conn (EVICT_DISCONNECT_REASON ?c) = 0" by (simp add: demo_env_def)
  have b: "filter (background_host ?c ?e) ?conns = [demo_conn 1, demo_conn 2, demo_conn 3]" by code_simp
  then have n: "distinct (map (\<lambda>conn. zmk_ble_profile_index ?e (conn_dst conn)) (filter (background_host ?c ?e) ?conns))"
    by (simp add: demo_env_def demo_conn_def)
  have f: "filter (\<lambda>conn. background_host ?c ?e conn \<and> \<not> bg_should_ignore ?c ?e (zmk_ble_profile_index ?e (conn_dst conn)) ?s) ?conns
      = [demo_conn 2, demo_conn 3]" by code_simp
  have w: "CONFIG_TOTEM_BG_EVICT_CAP ?c - thrash_win_count ?c ?e ?s = 1" by code_simp
  have "k_uptime_get ?e = 1100" by (simp add: demo_env_def)
  with scan_evicts_exactly [OF k refl d n, of "[(demo_env 100, X_scan [demo_conn 1])]"] f w show ?thesis
    by (simp only: Let_def) simp
qed

end
