(* ===== verification/Reconnect_Watch.thy ===== *)
theory Reconnect_Watch
  imports Platform "HOL-Library.Multiset"
begin

text \<open>
  Reconnect watch, \<open>src/reconnect_watch.c\<close>: after a profile switch or a lost active host, a ladder
  of at most three timed steps (advertise harder, evict background hosts, verify) that stops as
  soon as the selected host is up. The delayable work item is the field \<open>watch_timer\<close> (the pending
  delay in seconds); other effects, the references taken on connection objects and their release
  included, are appended to \<open>w_out\<close>. Console lines are not modelled.
\<close>

section \<open>State\<close>

datatype reconnect_step =
    RECONNECT_STEP_NONE | RECONNECT_STEP_READV | RECONNECT_STEP_EVICT | RECONNECT_STEP_ZOMBIE

datatype watch_effect =
    W_log log_call
  | W_disconnect bt_conn u8 int
  | W_adv_boost_rearm
  | W_adv_kick
  | W_submit_active_down
  | W_ref bt_conn
  | W_unref bt_conn

record watch =
  next_step :: reconnect_step
  ladder_from_active_down :: bool
  watch_profile_index :: int
  watch_timer :: "int option"
  w_out :: "watch_effect list"

definition w_emit :: "watch_effect \<Rightarrow> watch \<Rightarrow> watch" where
  "w_emit x s = s\<lparr>w_out := w_out s @ [x]\<rparr>"

text \<open>\<open>k_work_schedule\<close> keeps a pending delay, \<open>k_work_reschedule\<close> replaces it.\<close>

definition watch_schedule :: "int \<Rightarrow> watch \<Rightarrow> watch" where
  "watch_schedule sec s = (case watch_timer s of None \<Rightarrow> s\<lparr>watch_timer := Some sec\<rparr> | Some _ \<Rightarrow> s)"

definition watch_reschedule :: "int \<Rightarrow> watch \<Rightarrow> watch" where
  "watch_reschedule sec s = s\<lparr>watch_timer := Some sec\<rparr>"

definition reconnect_watch_first_delay_sec :: "totem_config \<Rightarrow> int" where
  "reconnect_watch_first_delay_sec c =
     (if CONFIG_ZMK_BLE_ADV_BOOST c \<and> CONFIG_ZMK_BLE_ADV_BOOST_SEC c > CONFIG_TOTEM_RECONNECT_WATCH_SEC c
      then CONFIG_ZMK_BLE_ADV_BOOST_SEC c else CONFIG_TOTEM_RECONNECT_WATCH_SEC c)"

section \<open>Connection scan\<close>

record host_conn_scan =
  active_match :: "bt_conn option"
  any_host :: "bt_conn option"
  host_count :: nat

definition empty_scan :: host_conn_scan where
  "empty_scan = \<lparr>active_match = None, any_host = None, host_count = 0\<rparr>"

definition scan_host_conns :: "ble_env \<Rightarrow> bt_conn \<Rightarrow> host_conn_scan \<times> watch \<Rightarrow> host_conn_scan \<times> watch" where
  "scan_host_conns e conn ss =
     (let (scan, s) = ss in
      case conn_info conn of
        None \<Rightarrow> ss
      | Some info \<Rightarrow>
          if info_role info \<noteq> BT_CONN_ROLE_PERIPHERAL then ss
          else if info_state info \<noteq> BT_CONN_STATE_CONNECTED then ss
          else
            let scan0 = scan\<lparr>host_count := host_count scan + 1\<rparr>;
                (scan1, s1) = (if any_host scan0 = None then (scan0\<lparr>any_host := Some conn\<rparr>, w_emit (W_ref conn) s)
                               else (scan0, s))
            in if zmk_ble_profile_index e (conn_dst conn) = zmk_ble_active_profile_index e \<and> active_match scan1 = None
               then (scan1\<lparr>active_match := Some conn\<rparr>, w_emit (W_ref conn) s1) else (scan1, s1))"

definition host_conn_scan_release :: "host_conn_scan \<times> watch \<Rightarrow> host_conn_scan \<times> watch" where
  "host_conn_scan_release ss =
     (let (scan, s) = ss;
          (scan1, s1) = (case active_match scan of None \<Rightarrow> (scan, s)
                         | Some conn \<Rightarrow> (scan\<lparr>active_match := None\<rparr>, w_emit (W_unref conn) s))
      in case any_host scan1 of None \<Rightarrow> (scan1, s1)
         | Some conn \<Rightarrow> (scan1\<lparr>any_host := None\<rparr>, w_emit (W_unref conn) s1))"

definition drop_non_active_hosts :: "ble_env \<Rightarrow> bt_conn \<Rightarrow> watch \<Rightarrow> watch" where
  "drop_non_active_hosts e conn s =
     (case conn_info conn of
        None \<Rightarrow> s
      | Some info \<Rightarrow>
          if info_role info \<noteq> BT_CONN_ROLE_PERIPHERAL then s
          else
            let idx = zmk_ble_profile_index e (conn_dst conn) in
            if idx < 0 \<or> idx = zmk_ble_active_profile_index e then s
            else if conn_security conn < BT_SECURITY_L2 then s
            else w_emit (W_disconnect conn BT_HCI_ERR_REMOTE_USER_TERM_CONN
                   (bt_conn_disconnect e conn BT_HCI_ERR_REMOTE_USER_TERM_CONN)) s)"

section \<open>The ladder\<close>

definition reconnect_watch_reset :: "watch \<Rightarrow> watch" where
  "reconnect_watch_reset s = s\<lparr>next_step := RECONNECT_STEP_NONE, ladder_from_active_down := False, watch_timer := None\<rparr>"

definition watch_step_log :: "ble_env \<Rightarrow> u8 \<Rightarrow> nat \<Rightarrow> watch \<Rightarrow> watch" where
  "watch_step_log e n hosts s =
     (let a = to_i8 (zmk_ble_active_profile_index e)
      in w_emit (W_log (log_args TOTEM_HEVT_WATCH_STEP a a n (of_nat hosts) (bool_u8 (ladder_from_active_down s)))) s)"

text \<open>The \<open>switch\<close> over the step.\<close>

definition watch_ladder_step :: "totem_config \<Rightarrow> ble_env \<Rightarrow> bt_conn list \<Rightarrow> nat \<Rightarrow> watch \<Rightarrow> watch" where
  "watch_ladder_step c e conns hosts s =
     (case next_step s of
          RECONNECT_STEP_READV \<Rightarrow>
            let s1 = watch_step_log e 1 hosts s;
                s2 = w_emit (if CONFIG_ZMK_BLE_ADV_BOOST c then W_adv_boost_rearm else W_adv_kick) s1
            in watch_schedule (CONFIG_TOTEM_RECONNECT_WATCH_SEC c) (s2\<lparr>next_step := RECONNECT_STEP_EVICT\<rparr>)
        | RECONNECT_STEP_EVICT \<Rightarrow>
            let s1 = fold (drop_non_active_hosts e) conns (watch_step_log e 2 hosts s)
            in watch_schedule (CONFIG_TOTEM_RECONNECT_WATCH_SEC c) (s1\<lparr>next_step := RECONNECT_STEP_ZOMBIE\<rparr>)
        | RECONNECT_STEP_ZOMBIE \<Rightarrow> reconnect_watch_reset (watch_step_log e 3 hosts s)
        | RECONNECT_STEP_NONE \<Rightarrow> reconnect_watch_reset s)"

text \<open>The handler proper; the work item is no longer pending when it runs.\<close>

definition reconnect_watch_work_handler :: "totem_config \<Rightarrow> ble_env \<Rightarrow> bt_conn list \<Rightarrow> watch \<Rightarrow> watch" where
  "reconnect_watch_work_handler c e conns s =
     (if totem_hid_is_usb e \<or> totem_usb_cable_up c e \<or> zmk_ble_host_adv_suppressed e then reconnect_watch_reset s
      else if zmk_ble_active_profile_is_open e then reconnect_watch_reset s
      else if zmk_ble_active_profile_is_connected e then reconnect_watch_reset s
      else
        let (scan, s0) = fold (scan_host_conns e) conns (empty_scan, s) in
        if active_match scan \<noteq> None then snd (host_conn_scan_release (scan, reconnect_watch_reset s0))
        else snd (host_conn_scan_release (scan, watch_ladder_step c e conns (host_count scan) s0)))"

definition reconnect_watch_arm_full :: "totem_config \<Rightarrow> ble_env \<Rightarrow> watch \<Rightarrow> watch" where
  "reconnect_watch_arm_full c e s =
     (if totem_hid_is_usb e \<or> totem_usb_cable_up c e \<or> zmk_ble_host_adv_suppressed e then reconnect_watch_reset s
      else if zmk_ble_active_profile_is_open e \<or> zmk_ble_active_profile_is_connected e then reconnect_watch_reset s
      else
        let delay = reconnect_watch_first_delay_sec c; a = to_i8 (zmk_ble_active_profile_index e)
        in watch_reschedule delay (w_emit (W_log (log_args TOTEM_HEVT_WATCH_ARM a a (to_u8 delay) 0 0))
             (s\<lparr>ladder_from_active_down := False, next_step := RECONNECT_STEP_READV\<rparr>)))"

definition reconnect_watch_arm_light :: "totem_config \<Rightarrow> ble_env \<Rightarrow> watch \<Rightarrow> watch" where
  "reconnect_watch_arm_light c e s =
     (if totem_hid_is_usb e \<or> totem_usb_cable_up c e then s
      else if zmk_ble_active_profile_is_open e \<or> zmk_ble_active_profile_is_connected e then reconnect_watch_reset s
      else if zmk_ble_host_adv_suppressed e then s
      else if next_step s \<noteq> RECONNECT_STEP_NONE then s
      else
        let sec = CONFIG_TOTEM_RECONNECT_WATCH_SEC c; a = to_i8 (zmk_ble_active_profile_index e)
        in watch_reschedule sec (w_emit (W_log (log_args TOTEM_HEVT_WATCH_ARM a a (to_u8 sec) 0 1))
             (s\<lparr>ladder_from_active_down := True, next_step := RECONNECT_STEP_READV\<rparr>)))"

definition totem_reconnect_watch_arm_if_needed :: "totem_config \<Rightarrow> ble_env \<Rightarrow> watch \<Rightarrow> watch" where
  "totem_reconnect_watch_arm_if_needed = reconnect_watch_arm_light"

definition active_down_arm_work_handler :: "totem_config \<Rightarrow> ble_env \<Rightarrow> watch \<Rightarrow> watch" where
  "active_down_arm_work_handler c e s =
     (if \<not> CONFIG_TOTEM_RECONNECT_WATCH_ON_ACTIVE_DOWN c then s
      else if zmk_ble_active_profile_is_open e then s
      else if zmk_ble_host_adv_suppressed e then s
      else if zmk_ble_active_profile_is_connected e then s
      else if next_step s \<noteq> RECONNECT_STEP_NONE then s
      else
        let a = to_i8 (zmk_ble_active_profile_index e)
        in reconnect_watch_arm_light c e (w_emit (W_log (log_args TOTEM_HEVT_ACTIVE_DOWN_ARM a a 0 0 0)) s))"

section \<open>Callbacks\<close>

definition reconnect_watch_profile_changed :: "totem_config \<Rightarrow> ble_env \<Rightarrow> watch \<Rightarrow> watch" where
  "reconnect_watch_profile_changed c e s =
     (let profile = zmk_ble_active_profile_index e
      in if profile = watch_profile_index s then s
         else reconnect_watch_arm_full c e (s\<lparr>watch_profile_index := profile\<rparr>))"

definition reconnect_watch_connected :: "ble_env \<Rightarrow> u8 \<Rightarrow> watch \<Rightarrow> watch" where
  "reconnect_watch_connected e err s =
     (if err \<noteq> 0 then s
      else if zmk_ble_active_profile_is_connected e then reconnect_watch_reset s else s)"

definition reconnect_watch_disconnected :: "totem_config \<Rightarrow> ble_env \<Rightarrow> bt_conn \<Rightarrow> watch \<Rightarrow> watch" where
  "reconnect_watch_disconnected c e conn s =
     (let idx = zmk_ble_profile_index e (conn_dst conn); active = zmk_ble_active_profile_index e
      in if totem_hid_is_usb e \<or> totem_usb_cable_up c e then s
         else if idx < 0 \<or> idx \<noteq> active then s
         else if \<not> CONFIG_TOTEM_RECONNECT_WATCH_ON_ACTIVE_DOWN c then s
         else w_emit W_submit_active_down s)"

definition reconnect_watch_security_changed :: "ble_env \<Rightarrow> nat \<Rightarrow> watch \<Rightarrow> watch" where
  "reconnect_watch_security_changed e level s =
     (if level \<ge> BT_SECURITY_L2 \<and> zmk_ble_active_profile_is_connected e then reconnect_watch_reset s else s)"

text \<open>\<open>reconnect_watch_init\<close> and the settings commit both read the selected profile.\<close>

definition reconnect_watch_settings_commit :: "ble_env \<Rightarrow> watch \<Rightarrow> watch" where
  "reconnect_watch_settings_commit e s = s\<lparr>watch_profile_index := zmk_ble_active_profile_index e\<rparr>"

definition reconnect_watch_init :: "ble_env \<Rightarrow> watch" where
  "reconnect_watch_init e = \<lparr>next_step = RECONNECT_STEP_NONE, ladder_from_active_down = False,
     watch_profile_index = zmk_ble_active_profile_index e, watch_timer = None, w_out = []\<rparr>"

section \<open>Reachable states\<close>

text \<open>The timer's handler runs only when the work item was pending.\<close>

inductive watch_reach :: "totem_config \<Rightarrow> watch \<Rightarrow> bool" for c where
  init: "watch_reach c (reconnect_watch_init e)"
| fired: "watch_reach c s \<Longrightarrow> watch_timer s = Some sec \<Longrightarrow>
    watch_reach c (reconnect_watch_work_handler c e conns (s\<lparr>watch_timer := None\<rparr>))"
| active_down: "watch_reach c s \<Longrightarrow> watch_reach c (active_down_arm_work_handler c e s)"
| arm_needed: "watch_reach c s \<Longrightarrow> watch_reach c (totem_reconnect_watch_arm_if_needed c e s)"
| profile: "watch_reach c s \<Longrightarrow> watch_reach c (reconnect_watch_profile_changed c e s)"
| connected: "watch_reach c s \<Longrightarrow> watch_reach c (reconnect_watch_connected e err s)"
| disconnected: "watch_reach c s \<Longrightarrow> watch_reach c (reconnect_watch_disconnected c e conn s)"
| security: "watch_reach c s \<Longrightarrow> watch_reach c (reconnect_watch_security_changed e level s)"
| settings: "watch_reach c s \<Longrightarrow> watch_reach c (reconnect_watch_settings_commit e s)"

text \<open>A ladder is under way exactly when the work item is pending.\<close>

definition armed_inv :: "watch \<Rightarrow> bool" where
  "armed_inv s \<longleftrightarrow> (next_step s = RECONNECT_STEP_NONE \<longleftrightarrow> watch_timer s = None)"

lemma w_emit_fields [simp]:
  "next_step (w_emit x s) = next_step s" "watch_timer (w_emit x s) = watch_timer s"
  "ladder_from_active_down (w_emit x s) = ladder_from_active_down s"
  "watch_profile_index (w_emit x s) = watch_profile_index s" "w_out (w_emit x s) = w_out s @ [x]"
  by (simp_all add: w_emit_def)

lemma step_log_fields [simp]:
  "next_step (watch_step_log e n h s) = next_step s" "watch_timer (watch_step_log e n h s) = watch_timer s"
  by (simp_all add: watch_step_log_def Let_def)

lemma drop_non_active_fields [simp]:
  "next_step (drop_non_active_hosts e conn s) = next_step s" "watch_timer (drop_non_active_hosts e conn s) = watch_timer s"
  by (simp_all add: drop_non_active_hosts_def Let_def split: option.splits)

lemma drop_all_fields [simp]:
  "next_step (fold (drop_non_active_hosts e) conns s) = next_step s"
  "watch_timer (fold (drop_non_active_hosts e) conns s) = watch_timer s"
  by (induction conns arbitrary: s) simp_all

lemma scan_emits: "\<exists>xs. snd (fold (scan_host_conns e) conns ss) = (snd ss)\<lparr>w_out := w_out (snd ss) @ xs\<rparr>"
proof (induction conns arbitrary: ss)
  case Nil
  show ?case by (intro exI [of _ "[]"]) simp
next
  case (Cons conn conns)
  have "\<exists>xs. snd (scan_host_conns e conn ss) = (snd ss)\<lparr>w_out := w_out (snd ss) @ xs\<rparr>"
  proof -
    have keep: "\<exists>xs. s = s\<lparr>w_out := w_out s @ xs\<rparr>" for s :: watch by (intro exI [of _ "[]"]) simp
    show ?thesis
      using keep [of "snd ss"]
      by (auto simp: scan_host_conns_def w_emit_def case_prod_beta Let_def split: option.split)
  qed
  then obtain xs where "snd (scan_host_conns e conn ss) = (snd ss)\<lparr>w_out := w_out (snd ss) @ xs\<rparr>" ..
  moreover obtain ys where "snd (fold (scan_host_conns e) conns (scan_host_conns e conn ss))
      = (snd (scan_host_conns e conn ss))\<lparr>w_out := w_out (snd (scan_host_conns e conn ss)) @ ys\<rparr>"
    using Cons.IH [of "scan_host_conns e conn ss"] ..
  ultimately show ?case by (intro exI [of _ "xs @ ys"]) simp
qed

lemma scan_fields [simp]:
  "next_step (snd (fold (scan_host_conns e) conns ss)) = next_step (snd ss)"
  "watch_timer (snd (fold (scan_host_conns e) conns ss)) = watch_timer (snd ss)"
  using scan_emits [of e conns ss] by auto

lemma release_fields [simp]:
  "next_step (snd (host_conn_scan_release ss)) = next_step (snd ss)"
  "watch_timer (snd (host_conn_scan_release ss)) = watch_timer (snd ss)"
  by (simp_all add: host_conn_scan_release_def case_prod_beta Let_def split: option.split)

lemma armed_inv_reset [simp]: "armed_inv (reconnect_watch_reset s)"
  by (simp add: armed_inv_def reconnect_watch_reset_def)

lemma armed_inv_release [simp]: "armed_inv (snd (host_conn_scan_release ss)) = armed_inv (snd ss)"
  by (simp add: armed_inv_def)

lemma armed_inv_ladder: "watch_timer s = None \<Longrightarrow> armed_inv (watch_ladder_step c e conns hosts s)"
  by (auto simp: watch_ladder_step_def Let_def armed_inv_def watch_schedule_def reconnect_watch_reset_def
      split: reconnect_step.splits)

lemma armed_inv_handler: "watch_timer s = None \<Longrightarrow> armed_inv (reconnect_watch_work_handler c e conns s)"
  by (simp add: reconnect_watch_work_handler_def case_prod_beta Let_def armed_inv_ladder)

lemma armed_inv_arm:
  "armed_inv s \<Longrightarrow> armed_inv (reconnect_watch_arm_light c e s)" "armed_inv (reconnect_watch_arm_full c e s)"
  by (auto simp: reconnect_watch_arm_light_def reconnect_watch_arm_full_def watch_reschedule_def Let_def armed_inv_def
      reconnect_watch_reset_def)

lemma armed_inv_emit [simp]: "armed_inv (w_emit x s) = armed_inv s"
  by (simp add: armed_inv_def)

lemma reach_armed_inv: "watch_reach c s \<Longrightarrow> armed_inv s"
proof (induction rule: watch_reach.induct)
  case (init e)
  then show ?case by (simp add: armed_inv_def reconnect_watch_init_def)
next
  case (fired s sec e conns)
  then show ?case by (simp add: armed_inv_handler)
next
  case (active_down s e)
  then show ?case by (simp add: active_down_arm_work_handler_def Let_def armed_inv_arm)
next
  case (arm_needed s e)
  then show ?case by (simp add: totem_reconnect_watch_arm_if_needed_def armed_inv_arm)
next
  case (profile s e)
  then show ?case by (simp add: reconnect_watch_profile_changed_def Let_def armed_inv_arm)
next
  case (connected s e err)
  then show ?case by (simp add: reconnect_watch_connected_def)
next
  case (disconnected s e conn)
  then show ?case by (simp add: reconnect_watch_disconnected_def Let_def)
next
  case (security s e level)
  then show ?case by (simp add: reconnect_watch_security_changed_def)
next
  case (settings s e)
  then show ?case by (simp add: reconnect_watch_settings_commit_def armed_inv_def)
qed

section \<open>The ladder ends\<close>

definition watch_fire :: "totem_config \<Rightarrow> ble_env \<times> bt_conn list \<Rightarrow> watch \<Rightarrow> watch" where
  "watch_fire c f s = (case watch_timer s of None \<Rightarrow> s
     | Some _ \<Rightarrow> reconnect_watch_work_handler c (fst f) (snd f) (s\<lparr>watch_timer := None\<rparr>))"

primrec step_rank :: "reconnect_step \<Rightarrow> nat" where
  "step_rank RECONNECT_STEP_NONE = 0"
| "step_rank RECONNECT_STEP_READV = 3"
| "step_rank RECONNECT_STEP_EVICT = 2"
| "step_rank RECONNECT_STEP_ZOMBIE = 1"

lemma handler_rank: "step_rank (next_step (reconnect_watch_work_handler c e conns s)) \<le> step_rank (next_step s) - 1"
  by (simp add: reconnect_watch_work_handler_def watch_ladder_step_def reconnect_watch_reset_def watch_schedule_def
      case_prod_beta Let_def split: reconnect_step.splits option.splits)

lemma fire_rank:
  assumes "armed_inv s"
  shows "armed_inv (watch_fire c f s)" and "step_rank (next_step (watch_fire c f s)) \<le> step_rank (next_step s) - 1"
  using assms handler_rank [of c "fst f" "snd f" "s\<lparr>watch_timer := None\<rparr>"]
    armed_inv_handler [of "s\<lparr>watch_timer := None\<rparr>" c "fst f" "snd f"]
  by (auto simp: watch_fire_def armed_inv_def split: option.splits)

lemma fires_rank:
  "armed_inv s \<Longrightarrow> armed_inv (fold (watch_fire c) fs s)
     \<and> step_rank (next_step (fold (watch_fire c) fs s)) \<le> step_rank (next_step s) - length fs"
proof (induction fs arbitrary: s)
  case Nil
  then show ?case by simp
next
  case (Cons f fs)
  with fire_rank [OF Cons.prems, of c f] Cons.IH [of "watch_fire c f s"] show ?case by fastforce
qed

section \<open>Whom the ladder disconnects\<close>

definition verified_active :: "ble_env \<Rightarrow> bt_conn \<Rightarrow> bool" where
  "verified_active e conn \<longleftrightarrow> (case conn_info conn of None \<Rightarrow> False | Some info \<Rightarrow>
     info_role info = BT_CONN_ROLE_PERIPHERAL \<and> info_state info = BT_CONN_STATE_CONNECTED)
     \<and> zmk_ble_profile_index e (conn_dst conn) = zmk_ble_active_profile_index e"

lemma scan_active_match:
  "active_match (fst (fold (scan_host_conns e) conns ss)) = None \<longleftrightarrow>
     active_match (fst ss) = None \<and> \<not> list_ex (verified_active e) conns"
proof (induction conns arbitrary: ss)
  case Nil
  then show ?case by simp
next
  case (Cons conn conns)
  have "active_match (fst (scan_host_conns e conn ss)) = None \<longleftrightarrow> active_match (fst ss) = None \<and> \<not> verified_active e conn"
    by (auto simp: scan_host_conns_def verified_active_def case_prod_beta Let_def split: option.splits)
  with Cons.IH show ?case by auto
qed

fun watch_disconnects :: "watch_effect list \<Rightarrow> bt_conn list" where
  "watch_disconnects [] = []"
| "watch_disconnects (W_disconnect conn r err # xs) = conn # watch_disconnects xs"
| "watch_disconnects (_ # xs) = watch_disconnects xs"

lemma watch_disconnects_append [simp]: "watch_disconnects (xs @ ys) = watch_disconnects xs @ watch_disconnects ys"
  by (induction xs rule: watch_disconnects.induct) simp_all

definition evictable_by_watch :: "ble_env \<Rightarrow> bt_conn \<Rightarrow> bool" where
  "evictable_by_watch e conn \<longleftrightarrow>
     (case conn_info conn of None \<Rightarrow> False | Some info \<Rightarrow> info_role info = BT_CONN_ROLE_PERIPHERAL)
   \<and> 0 \<le> zmk_ble_profile_index e (conn_dst conn)
   \<and> zmk_ble_profile_index e (conn_dst conn) \<noteq> zmk_ble_active_profile_index e
   \<and> BT_SECURITY_L2 \<le> conn_security conn"

lemma drop_all_disconnects:
  "watch_disconnects (w_out (fold (drop_non_active_hosts e) conns s))
     = watch_disconnects (w_out s) @ filter (evictable_by_watch e) conns"
proof (induction conns arbitrary: s)
  case Nil
  then show ?case by simp
next
  case (Cons conn conns)
  have "watch_disconnects (w_out (drop_non_active_hosts e conn s))
      = watch_disconnects (w_out s) @ (if evictable_by_watch e conn then [conn] else [])"
    by (auto simp: drop_non_active_hosts_def evictable_by_watch_def Let_def split: option.splits)
  with Cons.IH show ?case by simp
qed

definition ladder_may_act :: "totem_config \<Rightarrow> ble_env \<Rightarrow> bt_conn list \<Rightarrow> bool" where
  "ladder_may_act c e conns \<longleftrightarrow> \<not> totem_hid_is_usb e \<and> \<not> totem_usb_cable_up c e \<and> \<not> zmk_ble_host_adv_suppressed e
     \<and> \<not> zmk_ble_active_profile_is_open e \<and> \<not> zmk_ble_active_profile_is_connected e
     \<and> \<not> list_ex (verified_active e) conns"

lemma watch_scan_disconnects [simp]:
  "watch_disconnects (w_out (snd (fold (scan_host_conns e) conns ss))) = watch_disconnects (w_out (snd ss))"
proof (induction conns arbitrary: ss)
  case (Cons conn conns)
  have "watch_disconnects (w_out (snd (scan_host_conns e conn ss))) = watch_disconnects (w_out (snd ss))"
    by (simp add: scan_host_conns_def case_prod_beta Let_def split: option.split)
  with Cons show ?case by simp
qed simp

lemma watch_release_disconnects [simp]:
  "watch_disconnects (w_out (snd (host_conn_scan_release ss))) = watch_disconnects (w_out (snd ss))"
  by (simp add: host_conn_scan_release_def case_prod_beta Let_def split: option.split)

lemma ladder_disconnects:
  "watch_disconnects (w_out (watch_ladder_step c e conns hosts s)) = watch_disconnects (w_out s)
     @ (if next_step s = RECONNECT_STEP_EVICT then filter (evictable_by_watch e) conns else [])"
  by (simp add: watch_ladder_step_def reconnect_watch_reset_def watch_schedule_def watch_step_log_def drop_all_disconnects
      Let_def split: reconnect_step.splits option.splits)

lemma handler_disconnects:
  "watch_disconnects (w_out (reconnect_watch_work_handler c e conns s)) = watch_disconnects (w_out s)
     @ (if ladder_may_act c e conns \<and> next_step s = RECONNECT_STEP_EVICT then filter (evictable_by_watch e) conns else [])"
proof -
  have "active_match (fst (fold (scan_host_conns e) conns (empty_scan, s))) = None \<longleftrightarrow> \<not> list_ex (verified_active e) conns"
    by (simp add: scan_active_match) (simp add: empty_scan_def)
  then show ?thesis
    by (simp add: reconnect_watch_work_handler_def ladder_may_act_def reconnect_watch_reset_def ladder_disconnects
        case_prod_beta Let_def del: not_None_eq)
qed

lemma reach_disconnects_computers: "watch_reach c s \<Longrightarrow> conn \<in> set (watch_disconnects (w_out s)) \<Longrightarrow> computer_link conn"
proof (induction rule: watch_reach.induct)
  case (fired s sec e conns)
  then show ?case by (auto simp: handler_disconnects evictable_by_watch_def computer_link_def split: if_splits)
qed (auto simp: reconnect_watch_init_def active_down_arm_work_handler_def totem_reconnect_watch_arm_if_needed_def
    reconnect_watch_profile_changed_def reconnect_watch_connected_def reconnect_watch_disconnected_def
    reconnect_watch_security_changed_def reconnect_watch_settings_commit_def reconnect_watch_arm_light_def
    reconnect_watch_arm_full_def watch_reschedule_def reconnect_watch_reset_def Let_def split: if_splits)

section \<open>References on connection objects\<close>

text \<open>
  The references held after a sequence of effects; releasing one that is not held is an error
  (\<open>None\<close>), as it would free a connection object in use.
\<close>

fun held :: "watch_effect list \<Rightarrow> bt_conn multiset \<Rightarrow> bt_conn multiset option" where
  "held [] h = Some h"
| "held (W_ref conn # xs) h = held xs (add_mset conn h)"
| "held (W_unref conn # xs) h = (if conn \<in># h then held xs (h - {#conn#}) else None)"
| "held (_ # xs) h = held xs h"

lemma held_append: "held (xs @ ys) h = (case held xs h of None \<Rightarrow> None | Some h' \<Rightarrow> held ys h')"
  by (induction xs h rule: held.induct) simp_all

definition holds :: "watch \<Rightarrow> bt_conn multiset \<Rightarrow> bool" where
  "holds s h \<longleftrightarrow> held (w_out s) {#} = Some h"

lemma holds_emit [simp]:
  "holds s h \<Longrightarrow> holds (w_emit (W_ref conn) s) (add_mset conn h)"
  "holds s h \<Longrightarrow> conn \<in># h \<Longrightarrow> holds (w_emit (W_unref conn) s) (h - {#conn#})"
  "holds s h \<Longrightarrow> holds (w_emit (W_log a) s) h" "holds s h \<Longrightarrow> holds (w_emit (W_disconnect conn r err) s) h"
  "holds s h \<Longrightarrow> holds (w_emit W_adv_boost_rearm s) h" "holds s h \<Longrightarrow> holds (w_emit W_adv_kick s) h"
  "holds s h \<Longrightarrow> holds (w_emit W_submit_active_down s) h"
  by (simp_all add: holds_def held_append)

lemma holds_upd [simp]:
  "holds (s\<lparr>next_step := n\<rparr>) h = holds s h" "holds (s\<lparr>watch_timer := t\<rparr>) h = holds s h"
  "holds (s\<lparr>ladder_from_active_down := b\<rparr>) h = holds s h" "holds (s\<lparr>watch_profile_index := i\<rparr>) h = holds s h"
  "holds (reconnect_watch_reset s) h = holds s h" "holds (watch_schedule sec s) h = holds s h"
  "holds (watch_reschedule sec s) h = holds s h"
  by (simp_all add: holds_def reconnect_watch_reset_def watch_schedule_def watch_reschedule_def split: option.split)

text \<open>What a scan structure owns.\<close>

definition opt_mset :: "'a option \<Rightarrow> 'a multiset" where
  "opt_mset x = (case x of None \<Rightarrow> {#} | Some a \<Rightarrow> {#a#})"

definition scan_owns :: "host_conn_scan \<Rightarrow> bt_conn multiset" where
  "scan_owns scan = opt_mset (active_match scan) + opt_mset (any_host scan)"

lemma scan_holds:
  "holds (snd ss) (h + scan_owns (fst ss)) \<Longrightarrow>
   holds (snd (fold (scan_host_conns e) conns ss)) (h + scan_owns (fst (fold (scan_host_conns e) conns ss)))"
proof (induction conns arbitrary: ss)
  case Nil
  then show ?case by simp
next
  case (Cons conn conns)
  have "holds (snd (scan_host_conns e conn ss)) (h + scan_owns (fst (scan_host_conns e conn ss)))"
    using Cons.prems
    by (auto simp: scan_host_conns_def scan_owns_def opt_mset_def case_prod_beta Let_def split: option.splits
        intro: holds_emit)
  with Cons.IH show ?case by simp
qed

lemma release_holds:
  assumes "holds (snd ss) (h + scan_owns (fst ss))"
  shows "holds (snd (host_conn_scan_release ss)) h"
proof -
  obtain scan s where ss: "ss = (scan, s)" by (cases ss)
  show ?thesis
    using assms holds_emit(2) [of s "h + scan_owns scan"] holds_emit(2)
    by (cases "active_match scan"; cases "any_host scan")
      (fastforce simp: ss host_conn_scan_release_def scan_owns_def opt_mset_def)+
qed

lemma drop_all_holds: "holds s h \<Longrightarrow> holds (fold (drop_non_active_hosts e) conns s) h"
  by (induction conns arbitrary: s) (auto simp: drop_non_active_hosts_def Let_def split: option.splits)

lemma ladder_holds: "holds s h \<Longrightarrow> holds (watch_ladder_step c e conns hosts s) h"
  by (simp add: watch_ladder_step_def watch_step_log_def drop_all_holds Let_def split: reconnect_step.splits)

lemma handler_holds: "holds s h \<Longrightarrow> holds (reconnect_watch_work_handler c e conns s) h"
proof -
  assume "holds s h"
  then have "holds (snd (empty_scan, s)) (h + scan_owns (fst (empty_scan, s)))"
    by (simp add: scan_owns_def opt_mset_def empty_scan_def)
  from scan_holds [OF this, of e conns] \<open>holds s h\<close> show ?thesis
    by (auto simp: reconnect_watch_work_handler_def case_prod_beta Let_def intro!: release_holds ladder_holds)
qed

lemma reach_holds: "watch_reach c s \<Longrightarrow> holds s {#}"
  by (induction rule: watch_reach.induct)
    (simp_all add: handler_holds active_down_arm_work_handler_def totem_reconnect_watch_arm_if_needed_def
      reconnect_watch_profile_changed_def reconnect_watch_connected_def reconnect_watch_disconnected_def
      reconnect_watch_security_changed_def reconnect_watch_settings_commit_def reconnect_watch_arm_light_def
      reconnect_watch_arm_full_def Let_def, simp add: holds_def reconnect_watch_init_def)

section \<open>Properties\<close>

text \<open>
  C18. In every reachable state a recovery ladder is under way exactly when its timer is pending,
  so a ladder is never stuck half-way and never fires unarmed.
\<close>

theorem watch_armed_iff_pending:
  assumes "watch_reach c s"
  shows "next_step s = RECONNECT_STEP_NONE \<longleftrightarrow> watch_timer s = None"
  using reach_armed_inv [OF assms] by (simp add: armed_inv_def)

definition lost_env :: ble_env where
  "lost_env = \<lparr>k_uptime_get = 9, zmk_ble_active_profile_index = 0, zmk_ble_active_profile_is_open = False,
     zmk_ble_active_profile_is_connected = False, zmk_ble_host_adv_suppressed = False,
     zmk_ble_profile_index = int, zmk_endpoint_selected_transport = ZMK_TRANSPORT_NONE,
     zmk_usb_is_powered = False, bt_conn_disconnect = (\<lambda>_ _. 0)\<rparr>"

lemma lost_arm:
  "active_down_arm_work_handler totem_left_config lost_env (reconnect_watch_init lost_env)
     = \<lparr>next_step = RECONNECT_STEP_READV, ladder_from_active_down = True, watch_profile_index = 0,
        watch_timer = Some 8, w_out = [W_log (log_args TOTEM_HEVT_ACTIVE_DOWN_ARM 0 0 0 0 0),
          W_log (log_args TOTEM_HEVT_WATCH_ARM 0 0 8 0 1)]\<rparr>"
  by code_simp

theorem watch_armed_iff_pending_witness:
  "watch_reach totem_left_config (active_down_arm_work_handler totem_left_config lost_env (reconnect_watch_init lost_env))
   \<and> watch_timer (active_down_arm_work_handler totem_left_config lost_env (reconnect_watch_init lost_env)) \<noteq> None"
proof -
  have r: "watch_reach totem_left_config (active_down_arm_work_handler totem_left_config lost_env (reconnect_watch_init lost_env))"
    by (intro watch_reach.intros)
  have "next_step (active_down_arm_work_handler totem_left_config lost_env (reconnect_watch_init lost_env)) \<noteq> RECONNECT_STEP_NONE"
    by (simp add: lost_arm)
  with watch_armed_iff_pending [OF r] r show ?thesis by blast
qed

text \<open>
  C19. The ladder always ends: from any reachable state, whatever the stack reports, after three
  timer expiries without a new arming the watch is idle with no timer pending.
\<close>

theorem watch_ladder_terminates:
  assumes "watch_reach c s" and "3 \<le> length fs"
  shows "next_step (fold (watch_fire c) fs s) = RECONNECT_STEP_NONE \<and> watch_timer (fold (watch_fire c) fs s) = None"
proof -
  note r = fires_rank [OF reach_armed_inv [OF assms(1)], of c fs]
  have "step_rank (next_step s) \<le> 3" by (cases "next_step s") simp_all
  with r assms(2) have "step_rank (next_step (fold (watch_fire c) fs s)) = 0" by linarith
  then have "next_step (fold (watch_fire c) fs s) = RECONNECT_STEP_NONE"
    by (cases "next_step (fold (watch_fire c) fs s)") simp_all
  with r show ?thesis by (simp add: armed_inv_def)
qed

theorem watch_ladder_terminates_witness:
  "let s = active_down_arm_work_handler totem_left_config lost_env (reconnect_watch_init lost_env)
   in watch_timer s = Some 8 \<and> watch_timer (fold (watch_fire totem_left_config) (replicate 3 (lost_env, [])) s) = None"
proof -
  let ?s = "active_down_arm_work_handler totem_left_config lost_env (reconnect_watch_init lost_env)"
  have r: "watch_reach totem_left_config ?s" by (intro watch_reach.intros)
  have "3 \<le> length (replicate 3 (lost_env, [] :: bt_conn list))" by simp
  from watch_ladder_terminates [OF r this] show ?thesis by (simp add: lost_arm Let_def)
qed

text \<open>
  C31. The ladder's eviction hits exactly the encrypted background hosts and nobody else: its
  disconnects are those of the second step, only while the selected profile is paired but down
  and neither USB nor a verified connection of the selected host is there, and they go to
  peripheral links of another stored profile with an encrypted link. Unresolved addresses,
  pairings and the selected host are spared.
\<close>

theorem watch_evicts_background_only:
  "watch_disconnects (w_out (reconnect_watch_work_handler c e conns s)) = watch_disconnects (w_out s) @
     (if next_step s = RECONNECT_STEP_EVICT
         \<and> \<not> totem_hid_is_usb e \<and> \<not> totem_usb_cable_up c e \<and> \<not> zmk_ble_host_adv_suppressed e
         \<and> \<not> zmk_ble_active_profile_is_open e \<and> \<not> zmk_ble_active_profile_is_connected e
         \<and> \<not> list_ex (verified_active e) conns
      then filter (\<lambda>conn. (case conn_info conn of None \<Rightarrow> False | Some info \<Rightarrow> info_role info = BT_CONN_ROLE_PERIPHERAL)
             \<and> 0 \<le> zmk_ble_profile_index e (conn_dst conn)
             \<and> zmk_ble_profile_index e (conn_dst conn) \<noteq> zmk_ble_active_profile_index e
             \<and> BT_SECURITY_L2 \<le> conn_security conn) conns
      else [])"
  using handler_disconnects [of c e conns s]
  unfolding ladder_may_act_def evictable_by_watch_def [abs_def] by (simp add: conj_ac cong: if_cong)

text \<open>
  C20. The watch never leaks or over-releases a connection: in every reachable state the sequence
  of references taken and released by its handlers (the scan keeps up to two, even on the same
  connection) never releases one that is not held, and between handlers none is held, on whichever
  exit a handler took.
\<close>

theorem watch_refs_balanced:
  assumes "watch_reach c s"
  shows "held (w_out s) {#} = Some {#}"
  using reach_holds [OF assms] by (simp add: holds_def)

text \<open>The selected computer is found connected by the scan, which holds it twice.\<close>

definition found_conn :: bt_conn where
  "found_conn = \<lparr>conn_index = 0, conn_dst = 0,
     conn_info = Some \<lparr>info_le = True, info_role = BT_CONN_ROLE_PERIPHERAL, info_state = BT_CONN_STATE_CONNECTED,
       info_interval = 12, info_latency = 0, info_timeout = 400\<rparr>, conn_security = 2\<rparr>"

theorem watch_refs_balanced_witness:
  "let s = watch_fire totem_left_config (lost_env, [found_conn])
       (active_down_arm_work_handler totem_left_config lost_env (reconnect_watch_init lost_env))
   in drop 2 (w_out s) = [W_ref found_conn, W_ref found_conn, W_unref found_conn, W_unref found_conn]
      \<and> held (w_out s) {#} = Some {#}"
proof -
  let ?armed = "active_down_arm_work_handler totem_left_config lost_env (reconnect_watch_init lost_env)"
  let ?s = "watch_fire totem_left_config (lost_env, [found_conn]) ?armed"
  have t8: "watch_timer ?armed = Some 8" by (simp add: lost_arm)
  have "watch_reach totem_left_config ?armed" by (intro watch_reach.intros)
  from watch_reach.fired [OF this t8, of lost_env "[found_conn]"] have r: "watch_reach totem_left_config ?s"
    unfolding watch_fire_def t8 by simp
  have "drop 2 (w_out ?s) = [W_ref found_conn, W_ref found_conn, W_unref found_conn, W_unref found_conn]"
    unfolding watch_fire_def lost_arm by code_simp
  with watch_refs_balanced [OF r] show ?thesis by (simp only: Let_def)
qed

end
