(* ===== verification/Host_Links.thy ===== *)
theory Host_Links
  imports Platform
begin

text \<open>
  Two modules that act on the links to computers. USB quiet host, \<open>src/usb_host_quiet.c\<close>, drops every
  computer while the cable is in. Lazy inactive host, \<open>src/lazy_inactive_host.c\<close>, the alternative to
  exclusive host, keeps background computers linked and asks for slow connection parameters on
  them. Each has one delayable work item (the pending delay in milliseconds); what it does to the
  outside is appended to an output list. Console lines are not modelled.
\<close>

section \<open>USB quiet host\<close>

datatype quiet_effect =
    Q_disconnect bt_conn u8 int
  | Q_log log_call

record usb_quiet =
  usb_host_quiet_work :: "int option"
  q_out :: "quiet_effect list"

definition q_emit :: "quiet_effect \<Rightarrow> usb_quiet \<Rightarrow> usb_quiet" where
  "q_emit x s = s\<lparr>q_out := q_out s @ [x]\<rparr>"

definition drop_host_conn :: "ble_env \<Rightarrow> bt_conn \<Rightarrow> usb_quiet \<Rightarrow> usb_quiet" where
  "drop_host_conn e conn s =
     (case conn_info conn of
        None \<Rightarrow> s
      | Some info \<Rightarrow>
          if info_role info \<noteq> BT_CONN_ROLE_PERIPHERAL then s
          else q_emit (Q_disconnect conn BT_HCI_ERR_REMOTE_USER_TERM_CONN
                 (bt_conn_disconnect e conn BT_HCI_ERR_REMOTE_USER_TERM_CONN)) s)"

text \<open>The work item is no longer pending when its handler runs; \<open>conns\<close> is the connection table.\<close>

definition usb_host_quiet_work_handler :: "ble_env \<Rightarrow> bt_conn list \<Rightarrow> usb_quiet \<Rightarrow> usb_quiet" where
  "usb_host_quiet_work_handler e conns s =
     (if \<not> zmk_usb_is_powered e
      then q_emit (Q_log (log_args TOTEM_HEVT_ADV (- 1) (- 1) 1 0 0)) s
      else q_emit (Q_log (log_args TOTEM_HEVT_ADV (- 1) (- 1) 0 0 1)) (fold (drop_host_conn e) conns s))"

definition usb_host_quiet_listener :: "usb_quiet \<Rightarrow> usb_quiet" where
  "usb_host_quiet_listener s = s\<lparr>usb_host_quiet_work := Some 50\<rparr>"

definition usb_host_quiet_init :: usb_quiet where
  "usb_host_quiet_init = \<lparr>usb_host_quiet_work = Some 400, q_out = []\<rparr>"

text \<open>What the handler does to each computer.\<close>

definition quiet_drop :: "ble_env \<Rightarrow> bt_conn \<Rightarrow> quiet_effect" where
  "quiet_drop e conn = Q_disconnect conn BT_HCI_ERR_REMOTE_USER_TERM_CONN
     (bt_conn_disconnect e conn BT_HCI_ERR_REMOTE_USER_TERM_CONN)"

lemma drop_hosts_out:
  "fold (drop_host_conn e) conns s = s\<lparr>q_out := q_out s @ map (quiet_drop e) (filter computer_link conns)\<rparr>"
proof (induction conns arbitrary: s)
  case Nil
  then show ?case by simp
next
  case (Cons conn conns)
  have "drop_host_conn e conn s = s\<lparr>q_out := q_out s @ (if computer_link conn then [quiet_drop e conn] else [])\<rparr>"
    by (simp add: drop_host_conn_def q_emit_def quiet_drop_def computer_link_def split: option.splits)
  with Cons.IH show ?case by simp
qed

text \<open>Any run of the handler from boot.\<close>

definition quiet_run :: "(ble_env \<times> bt_conn list) list \<Rightarrow> usb_quiet" where
  "quiet_run fs = fold (\<lambda>(e, conns). usb_host_quiet_work_handler e conns) fs usb_host_quiet_init"

lemma handler_disconnects_computers:
  "Q_disconnect conn r err \<in> set (q_out (usb_host_quiet_work_handler e conns s)) \<Longrightarrow>
   Q_disconnect conn r err \<in> set (q_out s) \<or> computer_link conn"
  by (auto simp: usb_host_quiet_work_handler_def drop_hosts_out q_emit_def quiet_drop_def split: if_splits)

lemma quiet_run_computers: "Q_disconnect conn r err \<in> set (q_out (quiet_run fs)) \<Longrightarrow> computer_link conn"
proof (induction fs rule: rev_induct)
  case Nil
  then show ?case by (simp add: quiet_run_def usb_host_quiet_init_def)
next
  case (snoc f fs)
  then show ?case
    using handler_disconnects_computers [of conn r err "fst f" "snd f" "quiet_run fs"] by (auto simp: quiet_run_def case_prod_beta)
qed

section \<open>Lazy inactive host\<close>

record bt_le_conn_param =
  interval_min :: u16
  interval_max :: u16
  latency :: u16
  timeout :: u16

definition active_params :: "totem_config \<Rightarrow> bt_le_conn_param" where
  "active_params c = \<lparr>interval_min = CONFIG_BT_PERIPHERAL_PREF_MIN_INT c, interval_max = CONFIG_BT_PERIPHERAL_PREF_MAX_INT c,
     latency = 0, timeout = 400\<rparr>"

definition lazy_params :: "totem_config \<Rightarrow> bt_le_conn_param" where
  "lazy_params c = \<lparr>interval_min = CONFIG_TOTEM_LAZY_HOST_MIN_INT c, interval_max = CONFIG_TOTEM_LAZY_HOST_MAX_INT c,
     latency = CONFIG_TOTEM_LAZY_HOST_LATENCY c, timeout = CONFIG_TOTEM_LAZY_HOST_TIMEOUT c\<rparr>"

text \<open>
  \<open>l_out\<close> lists the calls of \<open>bt_conn_le_param_update\<close>; their result only selects the console line.
\<close>

record lazy_host =
  lazy_host_work :: "int option"
  l_out :: "(bt_conn \<times> bt_le_conn_param) list"

definition apply_params :: "totem_config \<Rightarrow> bt_conn \<Rightarrow> bool \<Rightarrow> lazy_host \<Rightarrow> lazy_host" where
  "apply_params c conn snappy s =
     (case conn_info conn of
        None \<Rightarrow> s
      | Some info \<Rightarrow>
          if info_role info \<noteq> BT_CONN_ROLE_PERIPHERAL then s
          else if info_state info \<noteq> BT_CONN_STATE_CONNECTED then s
          else if conn_security conn < BT_SECURITY_L2 then s
          else s\<lparr>l_out := l_out s @ [(conn, if snappy then active_params c else lazy_params c)]\<rparr>)"

definition update_one_host :: "totem_config \<Rightarrow> ble_env \<Rightarrow> bt_conn \<Rightarrow> lazy_host \<Rightarrow> lazy_host" where
  "update_one_host c e conn s =
     (case conn_info conn of
        None \<Rightarrow> s
      | Some info \<Rightarrow>
          if info_role info \<noteq> BT_CONN_ROLE_PERIPHERAL then s
          else if info_state info \<noteq> BT_CONN_STATE_CONNECTED then s
          else
            let idx = zmk_ble_profile_index e (conn_dst conn) in
            if idx < 0 then s
            else apply_params c conn (idx = zmk_ble_active_profile_index e) s)"

definition lazy_host_refresh :: "totem_config \<Rightarrow> ble_env \<Rightarrow> bt_conn list \<Rightarrow> lazy_host \<Rightarrow> lazy_host" where
  "lazy_host_refresh c e conns = fold (update_one_host c e) conns"

definition lazy_host_work_handler :: "totem_config \<Rightarrow> ble_env \<Rightarrow> bt_conn list \<Rightarrow> lazy_host \<Rightarrow> lazy_host" where
  "lazy_host_work_handler c e conns s = lazy_host_refresh c e conns s"

definition lazy_host_schedule :: "lazy_host \<Rightarrow> lazy_host" where
  "lazy_host_schedule s = s\<lparr>lazy_host_work := Some 100\<rparr>"

definition lazy_host_profile_changed :: "lazy_host \<Rightarrow> lazy_host" where
  "lazy_host_profile_changed s = lazy_host_schedule s"

definition lazy_host_connected :: "u8 \<Rightarrow> lazy_host \<Rightarrow> lazy_host" where
  "lazy_host_connected err s = (if err \<noteq> 0 then s else lazy_host_schedule s)"

definition lazy_host_security_changed :: "nat \<Rightarrow> lazy_host \<Rightarrow> lazy_host" where
  "lazy_host_security_changed level s = (if level \<ge> BT_SECURITY_L2 then lazy_host_schedule s else s)"

definition lazy_host_identity_resolved :: "lazy_host \<Rightarrow> lazy_host" where
  "lazy_host_identity_resolved s = lazy_host_schedule s"

text \<open>The links that are asked, and for what.\<close>

definition paced_link :: "ble_env \<Rightarrow> bt_conn \<Rightarrow> bool" where
  "paced_link e conn \<longleftrightarrow>
     (case conn_info conn of
        None \<Rightarrow> False
      | Some info \<Rightarrow> info_role info = BT_CONN_ROLE_PERIPHERAL \<and> info_state info = BT_CONN_STATE_CONNECTED)
   \<and> BT_SECURITY_L2 \<le> conn_security conn \<and> 0 \<le> zmk_ble_profile_index e (conn_dst conn)"

definition wanted_params :: "totem_config \<Rightarrow> ble_env \<Rightarrow> bt_conn \<Rightarrow> bt_le_conn_param" where
  "wanted_params c e conn =
     (if zmk_ble_profile_index e (conn_dst conn) = zmk_ble_active_profile_index e then active_params c else lazy_params c)"

lemma update_one_host_out:
  "update_one_host c e conn s = s\<lparr>l_out := l_out s @ (if paced_link e conn then [(conn, wanted_params c e conn)] else [])\<rparr>"
  by (auto simp: update_one_host_def apply_params_def paced_link_def wanted_params_def Let_def split: option.splits)

lemma lazy_refresh_out:
  "lazy_host_refresh c e conns s
     = s\<lparr>l_out := l_out s @ map (\<lambda>conn. (conn, wanted_params c e conn)) (filter (paced_link e) conns)\<rparr>"
  unfolding lazy_host_refresh_def
  by (induction conns arbitrary: s) (simp_all add: update_one_host_out)

section \<open>Requests that Bluetooth rejects\<close>

text \<open>
  The Core Specification's rule: the supervision timeout exceeds twice the effective interval
  (units of 10 ms against 1.25 ms).
\<close>

definition params_valid :: "bt_le_conn_param \<Rightarrow> bool" where
  "params_valid p \<longleftrightarrow> interval_min p \<le> interval_max p
     \<and> unat (timeout p) * 4 > (1 + unat (latency p)) * unat (interval_max p)"

lemma default_params_valid: "params_valid (active_params totem_left_config)" "params_valid (lazy_params totem_left_config)"
  by (simp_all add: params_valid_def active_params_def lazy_params_def totem_left_config_def)

text \<open>The ranges of \<open>Kconfig\<close> do not exclude invalid requests.\<close>

lemma lazy_ranges_allow_invalid:
  "\<exists>c. kconfig_ok c \<and> \<not> params_valid (lazy_params c)"
  by (rule exI [of _ "totem_left_config\<lparr>CONFIG_TOTEM_LAZY_HOST_MIN_INT := 320, CONFIG_TOTEM_LAZY_HOST_MAX_INT := 24\<rparr>"])
    (simp add: kconfig_ok_def params_valid_def lazy_params_def totem_left_config_def)

section \<open>Properties\<close>

text \<open>
  With the cable in, the handler disconnects every computer, each once and with the reason
  code for a user's disconnect, and touches no other link; without it, it disconnects nothing.
  Either way one advertising record tells the journal which of the two it was.
\<close>

theorem usb_quiet_drops_computers:
  "q_out (usb_host_quiet_work_handler e conns s) = q_out s
     @ (if zmk_usb_is_powered e then map (quiet_drop e) (filter computer_link conns) else [])
     @ [Q_log (log_args TOTEM_HEVT_ADV (- 1) (- 1) (bool_u8 (\<not> zmk_usb_is_powered e)) 0 (bool_u8 (zmk_usb_is_powered e)))]"
  by (simp add: usb_host_quiet_work_handler_def drop_hosts_out q_emit_def bool_u8_def)

text \<open>
  A refresh of the lazy-host module asks every connected, encrypted computer with a stored
  profile exactly once, the selected one for the fast parameters and every other one for the slow
  ones, and asks nobody else: not the split half, not an unresolved address, not a link that is
  still pairing.
\<close>

theorem lazy_refresh_exact:
  "lazy_host_work_handler c e conns s = s\<lparr>l_out := l_out s @ map (\<lambda>conn.
       (conn, if zmk_ble_profile_index e (conn_dst conn) = zmk_ble_active_profile_index e then active_params c else lazy_params c))
     (filter (paced_link e) conns)\<rparr>"
  by (simp add: lazy_host_work_handler_def lazy_refresh_out wanted_params_def)

end
