(* ===== verification/Left_Half.thy ===== *)
theory Left_Half
  imports Exclusive_Host_Runs Reconnect_Watch Host_Links Journal_Calls
begin

text \<open>
  The left half as one system: exclusive host, the reconnect watch and the USB quiet host run their
  handlers in any order on the one work queue and Bluetooth thread, and every
  \<open>totem_host_event_log_record\<close> call of a handler reaches the journal of \<open>host_event_log.c\<close> in the
  order in which it is made, between records of other modules. A step is one handler; the two
  modules' callbacks for the same Bluetooth event are two steps.
\<close>

section \<open>State and steps\<close>

record left_half =
  lh_excl :: excl
  lh_watch :: watch
  lh_quiet :: usb_quiet
  lh_journal :: journal

datatype watch_event =
    V_fire "bt_conn list"
  | V_active_down
  | V_arm_needed
  | V_profile_changed
  | V_connected u8
  | V_disconnected bt_conn
  | V_security_changed nat
  | V_settings_commit

definition watch_step :: "totem_config \<Rightarrow> ble_env \<Rightarrow> watch_event \<Rightarrow> watch \<Rightarrow> watch" where
  "watch_step c e ev s = (case ev of
      V_fire conns \<Rightarrow> watch_fire c (e, conns) s
    | V_active_down \<Rightarrow> active_down_arm_work_handler c e s
    | V_arm_needed \<Rightarrow> totem_reconnect_watch_arm_if_needed c e s
    | V_profile_changed \<Rightarrow> reconnect_watch_profile_changed c e s
    | V_connected err \<Rightarrow> reconnect_watch_connected e err s
    | V_disconnected conn \<Rightarrow> reconnect_watch_disconnected c e conn s
    | V_security_changed level \<Rightarrow> reconnect_watch_security_changed e level s
    | V_settings_commit \<Rightarrow> reconnect_watch_settings_commit e s)"

text \<open>\<open>H_other\<close> is a record made by any other module.\<close>

datatype lh_event =
    H_excl excl_event
  | H_watch watch_event
  | H_quiet "bt_conn list"
  | H_other log_call

fun x_logs :: "(int \<times> excl_effect) list \<Rightarrow> (int \<times> log_call) list" where
  "x_logs [] = []"
| "x_logs ((t, X_log a) # xs) = (t, a) # x_logs xs"
| "x_logs (_ # xs) = x_logs xs"

fun w_logs :: "watch_effect list \<Rightarrow> log_call list" where
  "w_logs [] = []"
| "w_logs (W_log a # xs) = a # w_logs xs"
| "w_logs (_ # xs) = w_logs xs"

fun q_logs :: "quiet_effect list \<Rightarrow> log_call list" where
  "q_logs [] = []"
| "q_logs (Q_log a # xs) = a # q_logs xs"
| "q_logs (_ # xs) = q_logs xs"

text \<open>The records a handler makes, from what it appended to its output.\<close>

definition lh_calls :: "totem_config \<Rightarrow> ble_env \<Rightarrow> lh_event \<Rightarrow> left_half \<Rightarrow> (int \<times> log_call) list" where
  "lh_calls c e ev s = (case ev of
      H_excl xe \<Rightarrow> x_logs (drop (length (x_out (lh_excl s))) (x_out (excl_step c e xe (lh_excl s))))
    | H_watch we \<Rightarrow> map (Pair (k_uptime_get e)) (w_logs (drop (length (w_out (lh_watch s))) (w_out (watch_step c e we (lh_watch s)))))
    | H_quiet conns \<Rightarrow> map (Pair (k_uptime_get e))
        (q_logs (drop (length (q_out (lh_quiet s))) (q_out (usb_host_quiet_work_handler e conns (lh_quiet s)))))
    | H_other a \<Rightarrow> [(k_uptime_get e, a)])"

definition lh_step :: "totem_config \<Rightarrow> ble_env \<times> lh_event \<Rightarrow> left_half \<Rightarrow> left_half" where
  "lh_step c ev s =
     (let s1 = (case snd ev of
          H_excl xe \<Rightarrow> s\<lparr>lh_excl := excl_step c (fst ev) xe (lh_excl s)\<rparr>
        | H_watch we \<Rightarrow> s\<lparr>lh_watch := watch_step c (fst ev) we (lh_watch s)\<rparr>
        | H_quiet conns \<Rightarrow> s\<lparr>lh_quiet := usb_host_quiet_work_handler (fst ev) conns (lh_quiet s)\<rparr>
        | H_other a \<Rightarrow> s)
      in s1\<lparr>lh_journal := journal_calls c (lh_calls c (fst ev) (snd ev) s) (lh_journal s)\<rparr>)"

definition lh_boot :: "totem_config \<Rightarrow> ble_env \<Rightarrow> left_half" where
  "lh_boot c e = \<lparr>lh_excl = excl_boot c, lh_watch = reconnect_watch_init e, lh_quiet = usb_host_quiet_init,
     lh_journal = journal_boot c\<rparr>"

definition lh_run :: "totem_config \<Rightarrow> (ble_env \<times> lh_event) list \<Rightarrow> left_half \<Rightarrow> left_half" where
  "lh_run c evs = fold (lh_step c) evs"

text \<open>All records of a run, in order.\<close>

fun run_calls :: "totem_config \<Rightarrow> (ble_env \<times> lh_event) list \<Rightarrow> left_half \<Rightarrow> (int \<times> log_call) list" where
  "run_calls c [] s = []"
| "run_calls c (ev # evs) s = lh_calls c (fst ev) (snd ev) s @ run_calls c evs (lh_step c ev s)"

section \<open>Projections\<close>

fun excl_events :: "(ble_env \<times> lh_event) list \<Rightarrow> (ble_env \<times> excl_event) list" where
  "excl_events [] = []"
| "excl_events ((e, H_excl xe) # evs) = (e, xe) # excl_events evs"
| "excl_events (_ # evs) = excl_events evs"

fun quiet_events :: "(ble_env \<times> lh_event) list \<Rightarrow> (ble_env \<times> bt_conn list) list" where
  "quiet_events [] = []"
| "quiet_events ((e, H_quiet conns) # evs) = (e, conns) # quiet_events evs"
| "quiet_events (_ # evs) = quiet_events evs"

lemma lh_step_fields [simp]:
  "lh_excl (lh_step c (e, H_excl xe) s) = excl_step c e xe (lh_excl s)"
  "lh_excl (lh_step c (e, H_watch we) s) = lh_excl s" "lh_excl (lh_step c (e, H_quiet conns) s) = lh_excl s"
  "lh_excl (lh_step c (e, H_other a) s) = lh_excl s"
  "lh_watch (lh_step c (e, H_excl xe) s) = lh_watch s" "lh_watch (lh_step c (e, H_watch we) s) = watch_step c e we (lh_watch s)"
  "lh_watch (lh_step c (e, H_quiet conns) s) = lh_watch s" "lh_watch (lh_step c (e, H_other a) s) = lh_watch s"
  "lh_quiet (lh_step c (e, H_excl xe) s) = lh_quiet s" "lh_quiet (lh_step c (e, H_watch we) s) = lh_quiet s"
  "lh_quiet (lh_step c (e, H_quiet conns) s) = usb_host_quiet_work_handler e conns (lh_quiet s)"
  "lh_quiet (lh_step c (e, H_other a) s) = lh_quiet s"
  "lh_journal (lh_step c ev s) = journal_calls c (lh_calls c (fst ev) (snd ev) s) (lh_journal s)"
  by (simp_all add: lh_step_def)

lemma lh_run_simps [simp]: "lh_run c [] s = s" "lh_run c (ev # evs) s = lh_run c evs (lh_step c ev s)"
  by (simp_all add: lh_run_def)

lemma project_excl: "lh_excl (lh_run c evs s) = excl_run c (excl_events evs) (lh_excl s)"
  by (induction evs arbitrary: s rule: excl_events.induct) (simp_all add: excl_run_def)

lemma project_quiet:
  "lh_quiet (lh_run c evs s) = fold (\<lambda>(e, conns). usb_host_quiet_work_handler e conns) (quiet_events evs) (lh_quiet s)"
  by (induction evs arbitrary: s rule: quiet_events.induct) simp_all

lemma watch_step_reach: "watch_reach c s \<Longrightarrow> watch_reach c (watch_step c e ev s)"
  by (cases ev) (auto simp: watch_step_def watch_fire_def intro: watch_reach.intros split: option.split)

lemma project_watch: "watch_reach c (lh_watch s) \<Longrightarrow> watch_reach c (lh_watch (lh_run c evs s))"
proof (induction evs arbitrary: s)
  case Nil
  then show ?case by simp
next
  case (Cons ev evs)
  obtain e h where ev: "ev = (e, h)" by (cases ev)
  have "watch_reach c (lh_watch (lh_step c ev s))"
    using Cons.prems by (cases h) (simp_all add: ev watch_step_reach)
  from Cons.IH [OF this] show ?case by simp
qed

lemma project_journal: "lh_journal (lh_run c evs s) = journal_calls c (run_calls c evs s) (lh_journal s)"
  by (induction evs arbitrary: s) simp_all

section \<open>Evictions and their records\<close>

text \<open>The record a successful eviction leaves; \<open>extra\<close> 1 marks a host that was kept.\<close>

definition eviction_record :: "log_call \<Rightarrow> bool" where
  "eviction_record a \<longleftrightarrow> call_type a = TOTEM_HEVT_BG_EVICT \<and> call_extra a = 0"

definition eviction_notes :: "(int \<times> log_call) list \<Rightarrow> (int \<times> i8) list" where
  "eviction_notes calls = map (\<lambda>(t, a). (t, call_idx a)) (filter (eviction_record \<circ> snd) calls)"

lemma eviction_notes_simps [simp]:
  "eviction_notes [] = []" "eviction_notes (xs @ ys) = eviction_notes xs @ eviction_notes ys"
  "eviction_notes ((t, a) # xs) = (if eviction_record a then [(t, call_idx a)] else []) @ eviction_notes xs"
  by (simp_all add: eviction_notes_def)

lemma x_logs_append [simp]: "x_logs (xs @ ys) = x_logs xs @ x_logs ys"
  by (induction xs rule: x_logs.induct) simp_all

lemma w_logs_append [simp]: "w_logs (xs @ ys) = w_logs xs @ w_logs ys"
  by (induction xs rule: w_logs.induct) simp_all

lemma q_logs_append [simp]: "q_logs (xs @ ys) = q_logs xs @ q_logs ys"
  by (induction xs rule: q_logs.induct) simp_all

text \<open>Under a fixed profile map \<open>idx\<close>: the evictions of a state with the profile each hit.\<close>

definition evicted_profiles :: "(bt_addr \<Rightarrow> int) \<Rightarrow> excl \<Rightarrow> (int \<times> i8) list" where
  "evicted_profiles idx s = map (\<lambda>(t, conn, err). (t, to_i8 (idx (conn_dst conn)))) (evictions s)"

definition noted :: "(bt_addr \<Rightarrow> int) \<Rightarrow> excl \<Rightarrow> bool" where
  "noted idx s \<longleftrightarrow> eviction_notes (x_logs (x_out s)) = evicted_profiles idx s"

lemma noted_emit:
  "noted idx s \<Longrightarrow> \<not> eviction_record a \<Longrightarrow> noted idx (emit e (X_log a) s)"
  "noted idx s \<Longrightarrow> noted idx (emit e X_submit_evict s)" "noted idx s \<Longrightarrow> noted idx (emit e (X_schedule_retry d) s)"
  "noted idx s \<Longrightarrow> noted idx (emit e (X_reschedule_fallback d) s)" "noted idx s \<Longrightarrow> noted idx (emit e X_submit_bond_clear s)"
  "noted idx s \<Longrightarrow> noted idx (emit e X_clear_bonds s)"
  "noted idx s \<Longrightarrow> err \<noteq> 0 \<Longrightarrow> noted idx (emit e (X_disconnect conn r err) s)"
  by (simp_all add: noted_def evicted_profiles_def evictions_def)

lemma noted_out: "x_out s' = x_out s \<Longrightarrow> noted idx s' = noted idx s"
  by (simp add: noted_def evicted_profiles_def evictions_def)

lemma noted_upd [simp]:
  "noted idx (s\<lparr>class_a_fail_ts := a\<rparr>) = noted idx s"
  "noted idx (s\<lparr>class_a_fail_count := n\<rparr>) = noted idx s"
  "noted idx (s\<lparr>last_skip_log_ms := t\<rparr>) = noted idx s" "noted idx (s\<lparr>last_ignore_log_ms := t\<rparr>) = noted idx s"
  "noted idx (s\<lparr>thrash_cap_logged := b\<rparr>) = noted idx s" "noted idx (s\<lparr>last_active_profile := i\<rparr>) = noted idx s"
  "noted idx (s\<lparr>active_auth_fail_streak := f\<rparr>) = noted idx s"
  "noted idx (bg_clear_ignores s) = noted idx s" "noted idx (thrash_clear c s) = noted idx s"
  by (rule noted_out; simp add: bg_clear_ignores_def thrash_clear_def)+

lemma noted_class_a: "noted idx s \<Longrightarrow> noted idx (class_a_note_auth_event c e b s)"
  by (simp add: class_a_note_auth_event_def noted_emit eviction_record_def Let_def case_prod_beta)

lemma noted_drop:
  assumes "noted idx s" and "zmk_ble_profile_index e = idx"
  shows "noted idx (drop_if_non_active_host c e force conn s)"
proof (cases "evict_verdict c e force conn s = Evict \<and> disc_err c e conn = 0")
  case True
  then show ?thesis using assms
    by (simp add: drop_if_non_active_host_def thrash_note_bg_evict_def noted_def evicted_profiles_def evictions_def
        eviction_record_def Let_def)
next
  case False
  then show ?thesis using assms
    by (auto simp: drop_if_non_active_host_def noted_emit eviction_record_def Let_def split: verdict.split)
qed

lemma noted_scan:
  "noted idx s \<Longrightarrow> zmk_ble_profile_index e = idx \<Longrightarrow> noted idx (fold (drop_if_non_active_host c e force) conns s)"
  by (induction conns arbitrary: s) (simp_all add: noted_drop)

lemma noted_step:
  assumes "noted idx s" and "zmk_ble_profile_index e = idx"
  shows "noted idx (excl_step c e ev s)"
  using assms
  by (cases ev)
    (simp_all add: excl_callback_defs exclusive_host_evict_work_handler_def exclusive_host_evict_all_def noted_scan noted_emit
      noted_class_a eviction_record_def bond_heal_note_auth_failure_def bond_heal_note_auth_ok_def)

section \<open>Records of a handler\<close>

lemma excl_step_logs:
  "x_logs (x_out s) @ x_logs (drop (length (x_out s)) (x_out (excl_step c e ev s))) = x_logs (x_out (excl_step c e ev s))"
proof -
  obtain xs where "x_out (excl_step c e ev s) = x_out s @ xs" using excl_step_prefix [of s c e ev] by (auto simp: prefix_def)
  then show ?thesis by simp
qed

section \<open>Only exclusive host writes eviction records\<close>

lemma set_w_logs: "set (w_logs xs) = {a. W_log a \<in> set xs}"
  by (induction xs rule: w_logs.induct) auto

lemma set_q_logs: "set (q_logs xs) = {a. Q_log a \<in> set xs}"
  by (induction xs rule: q_logs.induct) auto

definition watch_clean :: "watch \<Rightarrow> bool" where
  "watch_clean s \<longleftrightarrow> (\<forall>a. W_log a \<in> set (w_out s) \<longrightarrow> \<not> eviction_record a)"

lemma watch_clean_emit:
  "watch_clean (w_emit x s) \<longleftrightarrow> watch_clean s \<and> (case x of W_log a \<Rightarrow> \<not> eviction_record a | _ \<Rightarrow> True)"
  by (auto simp: watch_clean_def split: watch_effect.splits)

lemma watch_clean_upd [simp]:
  "watch_clean (s\<lparr>next_step := n\<rparr>) = watch_clean s" "watch_clean (s\<lparr>watch_timer := t\<rparr>) = watch_clean s"
  "watch_clean (s\<lparr>ladder_from_active_down := b\<rparr>) = watch_clean s" "watch_clean (s\<lparr>watch_profile_index := i\<rparr>) = watch_clean s"
  "watch_clean (reconnect_watch_reset s) = watch_clean s" "watch_clean (watch_schedule sec s) = watch_clean s"
  "watch_clean (watch_reschedule sec s) = watch_clean s"
  by (simp_all add: watch_clean_def reconnect_watch_reset_def watch_schedule_def watch_reschedule_def split: option.split)

lemma watch_clean_scan: "watch_clean (snd ss) \<Longrightarrow> watch_clean (snd (fold (scan_host_conns e) conns ss))"
proof (induction conns arbitrary: ss)
  case (Cons conn conns)
  have "watch_clean (snd (scan_host_conns e conn ss))"
    using Cons.prems by (auto simp: scan_host_conns_def watch_clean_emit case_prod_beta Let_def split: option.split)
  with Cons.IH show ?case by simp
qed simp

lemma watch_clean_release: "watch_clean (snd ss) \<Longrightarrow> watch_clean (snd (host_conn_scan_release ss))"
  by (simp add: host_conn_scan_release_def watch_clean_emit case_prod_beta Let_def split: option.split)

lemma watch_clean_drop: "watch_clean s \<Longrightarrow> watch_clean (fold (drop_non_active_hosts e) conns s)"
  by (induction conns arbitrary: s) (auto simp: drop_non_active_hosts_def watch_clean_emit Let_def split: option.splits)

lemma watch_clean_handler: "watch_clean s \<Longrightarrow> watch_clean (reconnect_watch_work_handler c e conns s)"
  by (simp add: reconnect_watch_work_handler_def watch_ladder_step_def watch_step_log_def watch_clean_emit eviction_record_def
      watch_clean_scan watch_clean_release watch_clean_drop case_prod_beta Let_def split: reconnect_step.splits)

lemma reach_clean: "watch_reach c s \<Longrightarrow> watch_clean s"
  by (induction rule: watch_reach.induct)
    (simp_all add: watch_clean_handler active_down_arm_work_handler_def totem_reconnect_watch_arm_if_needed_def
      reconnect_watch_profile_changed_def reconnect_watch_connected_def reconnect_watch_disconnected_def
      reconnect_watch_security_changed_def reconnect_watch_settings_commit_def reconnect_watch_arm_light_def
      reconnect_watch_arm_full_def watch_clean_emit eviction_record_def Let_def,
      simp add: watch_clean_def reconnect_watch_init_def)

lemma quiet_clean:
  "Q_log a \<in> set (q_out (usb_host_quiet_work_handler e conns s)) \<Longrightarrow> Q_log a \<in> set (q_out s) \<or> \<not> eviction_record a"
  by (auto simp: usb_host_quiet_work_handler_def drop_hosts_out q_emit_def quiet_drop_def eviction_record_def split: if_splits)

section \<open>Records of a run\<close>

definition quiet_clean_state :: "usb_quiet \<Rightarrow> bool" where
  "quiet_clean_state s \<longleftrightarrow> (\<forall>a. Q_log a \<in> set (q_out s) \<longrightarrow> \<not> eviction_record a)"

text \<open>The events of a run: one profile map, and other modules write no eviction record.\<close>

definition steady_map :: "(bt_addr \<Rightarrow> int) \<Rightarrow> ble_env \<times> lh_event \<Rightarrow> bool" where
  "steady_map idx ev \<longleftrightarrow> zmk_ble_profile_index (fst ev) = idx
     \<and> (case snd ev of H_other a \<Rightarrow> \<not> eviction_record a | _ \<Rightarrow> True)"

lemma notes_none: "(\<And>a. a \<in> set xs \<Longrightarrow> \<not> eviction_record a) \<Longrightarrow> eviction_notes (map (Pair t) xs) = []"
  by (simp add: eviction_notes_def filter_empty_conv)

lemma step_notes:
  assumes "watch_reach c (lh_watch s)" and "quiet_clean_state (lh_quiet s)" and "steady_map idx (e, h)"
  shows "eviction_notes (x_logs (x_out (lh_excl s))) @ eviction_notes (lh_calls c e h s)
    = eviction_notes (x_logs (x_out (lh_excl (lh_step c (e, h) s))))"
proof (cases h)
  case (H_excl xe)
  then show ?thesis using excl_step_logs [of "lh_excl s" c e xe] by (simp add: lh_calls_def flip: eviction_notes_simps(2))
next
  case (H_watch we)
  have "watch_clean (watch_step c e we (lh_watch s))" by (rule reach_clean [OF watch_step_reach [OF assms(1)]])
  then have "\<not> eviction_record a" if "a \<in> set (w_logs (drop n (w_out (watch_step c e we (lh_watch s)))))" for a n
    using that by (auto simp: set_w_logs watch_clean_def dest: in_set_dropD)
  then show ?thesis by (simp add: H_watch lh_calls_def notes_none)
next
  case (H_quiet conns)
  have "\<not> eviction_record a" if "a \<in> set (q_logs (drop n (q_out (usb_host_quiet_work_handler e conns (lh_quiet s)))))" for a n
    using that assms(2) quiet_clean [of a e conns "lh_quiet s"] by (auto simp: set_q_logs quiet_clean_state_def dest: in_set_dropD)
  then show ?thesis by (simp add: H_quiet lh_calls_def notes_none)
next
  case (H_other a)
  with assms(3) show ?thesis by (simp add: lh_calls_def steady_map_def)
qed

lemma run_notes:
  assumes "watch_reach c (lh_watch s)" and "quiet_clean_state (lh_quiet s)" and "list_all (steady_map idx) evs"
    and "noted idx (lh_excl s)"
  shows "eviction_notes (x_logs (x_out (lh_excl s))) @ eviction_notes (run_calls c evs s)
      = evicted_profiles idx (lh_excl (lh_run c evs s))"
  using assms
proof (induction evs arbitrary: s)
  case Nil
  then show ?case by (simp add: noted_def)
next
  case (Cons ev evs)
  obtain e h where ev: "ev = (e, h)" by (cases ev)
  let ?s = "lh_step c (e, h) s"
  have steady: "steady_map idx (e, h)" "list_all (steady_map idx) evs" using Cons.prems(3) ev by simp_all
  have "watch_reach c (lh_watch ?s)" using Cons.prems(1) by (cases h) (simp_all add: watch_step_reach)
  moreover have "quiet_clean_state (lh_quiet ?s)"
    using Cons.prems(2) quiet_clean by (cases h) (simp_all add: quiet_clean_state_def, blast)
  moreover have "noted idx (lh_excl ?s)"
    using Cons.prems(4) steady(1) by (cases h) (simp_all add: noted_step steady_map_def)
  ultimately have IH: "eviction_notes (x_logs (x_out (lh_excl ?s))) @ eviction_notes (run_calls c evs ?s)
      = evicted_profiles idx (lh_excl (lh_run c evs ?s))" using Cons.IH steady(2) by blast
  show ?case
    by (simp add: ev step_notes [OF Cons.prems(1,2) steady(1), symmetric] flip: IH)
qed

lemma filter_lastn: "filter P (lastn k xs) = lastn (length (filter P (lastn k xs))) (filter P xs)"
proof -
  have xs: "xs = take (length xs - k) xs @ lastn k xs" by (simp add: lastn_def)
  have "filter P xs = filter P (take (length xs - k) xs) @ filter P (lastn k xs)" by (subst xs) simp
  then show ?thesis by (simp add: lastn_append_long)
qed

lemma lastn_map: "lastn k (map f xs) = map f (lastn k xs)"
  by (simp add: lastn_def drop_map)

section \<open>Properties\<close>

text \<open>
  C5. The journal tells the truth about evictions: over every interleaving of the handlers of
  exclusive host, the reconnect watch, the USB quiet host and other modules' records, the eviction
  records in the journal's ring are, in order and with time and profile, exactly the newest of the
  evictions that were carried out; none is invented by another module or by a refused disconnect,
  and as long as the ring has not overflowed none is missing. (Computers keep their profiles during the
  run, and the other modules write no eviction records.)
\<close>

theorem evictions_journalled:
  assumes "kconfig_ok c" and "list_all (steady_map idx) evs" and "s = lh_run c evs (lh_boot c e0)"
    and "recs = filter (\<lambda>ev. ev_type ev = hevt_num TOTEM_HEVT_BG_EVICT \<and> ev_extra ev = 0) (ring_get_ordered (lh_journal s))"
    and "performed = map (\<lambda>(t, conn, err). (word_of_int t, to_i8 (idx (conn_dst conn)))) (evictions (lh_excl s))"
  shows "map (\<lambda>ev. (uptime_ms ev, ev_idx ev)) recs = lastn (length recs) performed
    \<and> (length (run_calls c evs (lh_boot c e0)) \<le> RING_CAP c \<longrightarrow> length recs = length performed)"
proof -
  let ?calls = "run_calls c evs (lh_boot c e0)" and ?P = "\<lambda>ev. ev_type ev = hevt_num TOTEM_HEVT_BG_EVICT \<and> ev_extra ev = 0"
  let ?proj = "\<lambda>ev. (uptime_ms ev, ev_idx ev)"
  have inv: "ring_inv c (journal_boot c)" using assms(1) by (intro ring_inv_boot) (simp add: kconfig_ok_def)
  have ring: "ring_get_ordered (lh_journal s) = lastn (RING_CAP c) (map stamped ?calls)"
    using journal_calls_ring [OF inv, of ?calls] by (simp add: assms(3) project_journal lh_boot_def)
      (simp add: ring_get_ordered_def ring_ordered_def journal_boot_def)
  have P: "?P \<circ> stamped = eviction_record \<circ> snd"
    using hevt_num_inject [of _ TOTEM_HEVT_BG_EVICT] by (auto simp: fun_eq_iff eviction_record_def)
  have "map ?proj (filter ?P (map stamped ?calls)) = map (\<lambda>(t, i). (word_of_int t, i)) (eviction_notes ?calls)"
    unfolding filter_map P by (simp add: eviction_notes_def case_prod_beta comp_def)
  also have "eviction_notes ?calls = evicted_profiles idx (lh_excl s)"
    using run_notes [of c "lh_boot c e0" idx evs] assms(2)
    by (simp add: assms(3) lh_boot_def watch_reach.init quiet_clean_state_def usb_host_quiet_init_def noted_def
        evicted_profiles_def evictions_def) (simp add: excl_boot_def)
  also have "map (\<lambda>(t, i). (word_of_int t, i)) (evicted_profiles idx (lh_excl s)) = performed"
    by (simp add: assms(5) evicted_profiles_def case_prod_beta)
  finally have all: "map ?proj (filter ?P (map stamped ?calls)) = performed" .
  have "recs = lastn (length recs) (filter ?P (map stamped ?calls))"
    unfolding assms(4) ring by (rule filter_lastn)
  then have "map ?proj recs = map ?proj (lastn (length recs) (filter ?P (map stamped ?calls)))" by (rule arg_cong)
  then have "map ?proj recs = lastn (length recs) performed" by (simp only: lastn_map [symmetric] all)
  moreover have "length recs = length performed" if "length ?calls \<le> RING_CAP c"
  proof -
    have "recs = filter ?P (map stamped ?calls)" unfolding assms(4) ring using that by (subst lastn_all) simp_all
    then have "map ?proj recs = performed" by (simp only: all)
    then show ?thesis using length_map [of ?proj recs] by simp
  qed
  ultimately show ?thesis by blast
qed

text \<open>An eviction, a refused disconnect and the watch arming in between.\<close>

theorem evictions_journalled_witness:
  "let c = minimal_config; refused = (demo_env 90)\<lparr>bt_conn_disconnect := \<lambda>_ _. - 128\<rparr>;
       evs = [(demo_env 70, H_excl (X_scan [demo_conn 1])), (refused, H_excl (X_scan [demo_conn 2])),
              (lost_env, H_watch V_active_down), (demo_env 95, H_excl (X_scan [demo_conn 3]))];
       s = lh_run c evs (lh_boot c lost_env)
   in map (\<lambda>ev. (uptime_ms ev, ev_idx ev)) (filter (\<lambda>ev. ev_type ev = 6 \<and> ev_extra ev = 0) (ring_get_ordered (lh_journal s)))
      = [(70, 1), (95, 3)]"
proof -
  let ?c = minimal_config and ?r = "(demo_env 90)\<lparr>bt_conn_disconnect := \<lambda>_ _. - 128\<rparr>"
  let ?evs = "[(demo_env 70, H_excl (X_scan [demo_conn 1])), (?r, H_excl (X_scan [demo_conn 2])),
              (lost_env, H_watch V_active_down), (demo_env 95, H_excl (X_scan [demo_conn 3]))]"
  let ?s = "lh_run ?c ?evs (lh_boot ?c lost_env)"
  have st: "list_all (steady_map int) ?evs" by (simp add: steady_map_def demo_env_def lost_env_def)
  have ev: "evictions (lh_excl ?s) = [(70, demo_conn 1, 0), (95, demo_conn 3, 0)]"
    unfolding project_excl by code_simp
  have len: "length (run_calls ?c ?evs (lh_boot ?c lost_env)) \<le> RING_CAP ?c" by code_simp
  from evictions_journalled [OF kconfig_ok_minimal st refl refl refl, of lost_env] len show ?thesis
    unfolding Let_def ev by (simp add: demo_conn_def to_i8_def lastn_def)
qed

end
