(* ===== verification/Exclusive_Host_Work.thy ===== *)
theory Exclusive_Host_Work
  imports Exclusive_Host_Runs
begin

text \<open>
  The work items of \<open>src/exclusive_host.c\<close>: the immediate scan, the retry, the settle scan and the
  bond clearing, as Zephyr schedules them. Submitting a queued item or scheduling a pending delayed
  item changes nothing, rescheduling moves the deadline; a delayed item runs at its deadline or
  later and is no longer pending when its handler runs.
\<close>

section \<open>State and handlers\<close>

record excl_sys =
  sx :: excl
  evict_queued :: bool
  retry_due :: "int option"
  fallback_due :: "int option"
  bond_clear_queued :: bool

definition excl_sys_boot :: "totem_config \<Rightarrow> excl_sys" where
  "excl_sys_boot c = \<lparr>sx = excl_boot c, evict_queued = False, retry_due = None, fallback_due = None, bond_clear_queued = False\<rparr>"

definition exclusive_host_retry_work_handler :: "totem_config \<Rightarrow> ble_env \<Rightarrow> bt_conn list \<Rightarrow> excl \<Rightarrow> excl" where
  "exclusive_host_retry_work_handler c e conns = exclusive_host_evict_all c e False conns"

definition exclusive_host_fallback_work_handler :: "totem_config \<Rightarrow> ble_env \<Rightarrow> bt_conn list \<Rightarrow> excl \<Rightarrow> excl" where
  "exclusive_host_fallback_work_handler c e conns = exclusive_host_evict_all c e False conns"

text \<open>What the scheduler does with an effect at time \<open>t\<close>.\<close>

definition apply_work :: "int \<times> excl_effect \<Rightarrow> excl_sys \<Rightarrow> excl_sys" where
  "apply_work x s = (case snd x of
      X_submit_evict \<Rightarrow> s\<lparr>evict_queued := True\<rparr>
    | X_schedule_retry d \<Rightarrow> (case retry_due s of None \<Rightarrow> s\<lparr>retry_due := Some (fst x + d)\<rparr> | Some _ \<Rightarrow> s)
    | X_reschedule_fallback d \<Rightarrow> s\<lparr>fallback_due := Some (fst x + d)\<rparr>
    | X_submit_bond_clear \<Rightarrow> s\<lparr>bond_clear_queued := True\<rparr>
    | _ \<Rightarrow> s)"

definition run_handler :: "(excl \<Rightarrow> excl) \<Rightarrow> excl_sys \<Rightarrow> excl_sys" where
  "run_handler f s = fold apply_work (drop (length (x_out (sx s))) (x_out (f (sx s)))) (s\<lparr>sx := f (sx s)\<rparr>)"

text \<open>The Bluetooth and profile callbacks, and those that ask for a scan.\<close>

primrec is_callback :: "excl_event \<Rightarrow> bool" where
  "is_callback (X_connected conn err) = True"
| "is_callback (X_security_changed conn level err) = True"
| "is_callback (X_disconnected conn reason) = True"
| "is_callback (X_identity_resolved identity) = True"
| "is_callback X_profile_changed = True"
| "is_callback (X_scan conns) = False"
| "is_callback X_bond_clear = False"

fun is_trigger :: "excl_event \<Rightarrow> bool" where
  "is_trigger (X_connected conn err) = (err = 0)"
| "is_trigger (X_security_changed conn level err) = True"
| "is_trigger (X_identity_resolved identity) = True"
| "is_trigger X_profile_changed = True"
| "is_trigger _ = False"

text \<open>
  Reachable states. The two lists are the times of the triggers after which no scan at all, and no
  retry scan, has run yet; the last argument is the time of the latest step.
\<close>

inductive work_reach :: "totem_config \<Rightarrow> excl_sys \<Rightarrow> int list \<Rightarrow> int list \<Rightarrow> int \<Rightarrow> bool" for c where
  boot: "work_reach c (excl_sys_boot c) [] [] now"
| callback: "work_reach c s us rs now \<Longrightarrow> now \<le> k_uptime_get e \<Longrightarrow> is_callback ev \<Longrightarrow>
    trig = (if is_trigger ev then [k_uptime_get e] else []) \<Longrightarrow>
    work_reach c (run_handler (excl_step c e ev) s) (us @ trig) (rs @ trig) (k_uptime_get e)"
| evict: "work_reach c s us rs now \<Longrightarrow> now \<le> k_uptime_get e \<Longrightarrow> evict_queued s \<Longrightarrow>
    work_reach c (run_handler (exclusive_host_evict_work_handler c e conns) (s\<lparr>evict_queued := False\<rparr>)) [] rs (k_uptime_get e)"
| retry: "work_reach c s us rs now \<Longrightarrow> now \<le> k_uptime_get e \<Longrightarrow> retry_due s = Some d \<Longrightarrow> d \<le> k_uptime_get e \<Longrightarrow>
    work_reach c (run_handler (exclusive_host_retry_work_handler c e conns) (s\<lparr>retry_due := None\<rparr>)) [] [] (k_uptime_get e)"
| fallback: "work_reach c s us rs now \<Longrightarrow> now \<le> k_uptime_get e \<Longrightarrow> fallback_due s = Some d \<Longrightarrow> d \<le> k_uptime_get e \<Longrightarrow>
    work_reach c (run_handler (exclusive_host_fallback_work_handler c e conns) (s\<lparr>fallback_due := None\<rparr>)) [] rs (k_uptime_get e)"
| bond_clear: "work_reach c s us rs now \<Longrightarrow> now \<le> k_uptime_get e \<Longrightarrow> bond_clear_queued s \<Longrightarrow>
    work_reach c (run_handler (bond_heal_clear_active_work_handler e) (s\<lparr>bond_clear_queued := False\<rparr>)) us rs (k_uptime_get e)"

section \<open>Which work a handler asks for\<close>

fun is_scan_work :: "excl_effect \<Rightarrow> bool" where
  "is_scan_work X_submit_evict = True"
| "is_scan_work (X_schedule_retry d) = True"
| "is_scan_work (X_reschedule_fallback d) = True"
| "is_scan_work _ = False"

definition scan_works :: "excl \<Rightarrow> (int \<times> excl_effect) list" where
  "scan_works s = filter (is_scan_work \<circ> snd) (x_out s)"

lemma scan_works_emit [simp]:
  "scan_works (emit e x s) = scan_works s @ (if is_scan_work x then [(k_uptime_get e, x)] else [])"
  by (simp add: scan_works_def)

lemma scan_works_out: "x_out s' = x_out s \<Longrightarrow> scan_works s' = scan_works s"
  by (simp add: scan_works_def)

lemma scan_works_upd [simp]:
  "scan_works (s\<lparr>class_a_fail_ts := a\<rparr>) = scan_works s" "scan_works (s\<lparr>class_a_fail_count := n\<rparr>) = scan_works s"
  "scan_works (s\<lparr>last_skip_log_ms := t\<rparr>) = scan_works s" "scan_works (s\<lparr>last_ignore_log_ms := t\<rparr>) = scan_works s"
  "scan_works (s\<lparr>thrash_cap_logged := b\<rparr>) = scan_works s" "scan_works (s\<lparr>last_active_profile := i\<rparr>) = scan_works s"
  "scan_works (s\<lparr>active_auth_fail_streak := f\<rparr>) = scan_works s" "scan_works (bg_clear_ignores s) = scan_works s"
  "scan_works (thrash_clear c s) = scan_works s" "scan_works (bg_note_evict c e j s) = scan_works s"
  "scan_works (thrash_push t s) = scan_works s"
  by (rule scan_works_out; simp add: bg_clear_ignores_def thrash_clear_def)+

lemma scan_works_class_a [simp]: "scan_works (class_a_note_auth_event c e b s) = scan_works s"
  by (simp add: class_a_note_auth_event_def Let_def case_prod_beta)

lemma scan_works_heal [simp]:
  "scan_works (bond_heal_note_auth_failure c e s) = scan_works s" "scan_works (bond_heal_note_auth_ok s) = scan_works s"
  "scan_works (bond_heal_clear_active_work_handler e s) = scan_works s"
  by (simp_all add: bond_heal_note_auth_failure_def bond_heal_note_auth_ok_def bond_heal_clear_active_work_handler_def Let_def)

lemma scan_works_drop [simp]: "scan_works (drop_if_non_active_host c e force conn s) = scan_works s"
  by (simp add: drop_if_non_active_host_def thrash_note_bg_evict_def Let_def split: verdict.split)

lemma scan_works_scan [simp]: "scan_works (exclusive_host_evict_all c e force conns s) = scan_works s"
  unfolding exclusive_host_evict_all_def by (induction conns arbitrary: s) simp_all

definition asked :: "ble_env \<Rightarrow> excl_event \<Rightarrow> (int \<times> excl_effect) list" where
  "asked e ev = (if is_trigger ev then [(k_uptime_get e, X_submit_evict), (k_uptime_get e, X_schedule_retry 150)]
       @ (case ev of X_connected conn err \<Rightarrow> [(k_uptime_get e, X_reschedule_fallback 2000)] | _ \<Rightarrow> [])
     else [])"

lemma callback_works: "is_callback ev \<Longrightarrow> scan_works (excl_step c e ev s) = scan_works s @ asked e ev"
  by (cases ev) (simp_all add: excl_callback_defs asked_def)

section \<open>The scheduler\<close>

definition sched :: "excl_sys \<Rightarrow> bool \<times> int option \<times> int option" where
  "sched s = (evict_queued s, retry_due s, fallback_due s)"

lemma sched_cong: "sched s = sched s' \<Longrightarrow> sched (apply_work x s) = sched (apply_work x s')"
  by (auto simp: sched_def apply_work_def split: excl_effect.split option.split)

lemma sched_other: "\<not> is_scan_work (snd x) \<Longrightarrow> sched (apply_work x s) = sched s"
  by (cases "snd x") (simp_all add: sched_def apply_work_def)

lemma sched_works: "sched s = sched s' \<Longrightarrow> sched (fold apply_work xs s) = sched (fold apply_work (filter (is_scan_work \<circ> snd) xs) s')"
proof (induction xs arbitrary: s s')
  case Nil
  then show ?case by simp
next
  case (Cons x xs)
  show ?case
  proof (cases "is_scan_work (snd x)")
    case True
    with Cons.IH [OF sched_cong [OF Cons.prems, of x]] show ?thesis by simp
  next
    case False
    with Cons.IH [of "apply_work x s" s'] sched_other [OF False, of s] Cons.prems show ?thesis by simp
  qed
qed

lemma run_handler_sched:
  assumes "prefix (x_out (sx s)) (x_out (f (sx s)))" and "scan_works (f (sx s)) = scan_works (sx s) @ ys"
  shows "sched (run_handler f s) = sched (fold apply_work ys s)"
proof -
  obtain zs where zs: "x_out (f (sx s)) = x_out (sx s) @ zs" using assms(1) by (auto simp: prefix_def)
  then have "filter (is_scan_work \<circ> snd) zs = ys" using assms(2) by (simp add: scan_works_def)
  moreover have "sched (s\<lparr>sx := f (sx s)\<rparr>) = sched s" by (simp add: sched_def)
  ultimately show ?thesis using sched_works [of "s\<lparr>sx := f (sx s)\<rparr>" s zs] by (simp add: run_handler_def zs)
qed

lemma scan_handler_sched:
  "sched (run_handler (exclusive_host_evict_all c e force conns) s) = sched s"
proof -
  have "prefix (x_out (sx s)) (x_out (exclusive_host_evict_all c e force conns (sx s)))"
    unfolding exclusive_host_evict_all_def by (rule scan_prefix)
  from run_handler_sched [where ys = "[]" and f = "exclusive_host_evict_all c e force conns", OF this] show ?thesis by simp
qed

lemma bond_handler_sched: "sched (run_handler (bond_heal_clear_active_work_handler e) s) = sched s"
proof -
  have "prefix (x_out (sx s)) (x_out (bond_heal_clear_active_work_handler e (sx s)))"
    by (simp add: bond_heal_clear_active_work_handler_def)
  from run_handler_sched [where ys = "[]" and f = "bond_heal_clear_active_work_handler e", OF this] show ?thesis by simp
qed

text \<open>The open triggers keep their work items.\<close>

definition work_inv :: "excl_sys \<Rightarrow> int list \<Rightarrow> int list \<Rightarrow> int \<Rightarrow> bool" where
  "work_inv s us rs now \<longleftrightarrow> (us \<noteq> [] \<longrightarrow> evict_queued s) \<and> (rs \<noteq> [] \<longrightarrow> retry_due s \<noteq> None)
     \<and> (\<forall>d. retry_due s = Some d \<longrightarrow> d \<le> now + 150 \<and> (\<forall>t \<in> set rs. d \<le> t + 150))"

lemma work_inv_sched: "sched s = sched s' \<Longrightarrow> work_inv s us rs now = work_inv s' us rs now"
  by (simp add: work_inv_def sched_def)

lemma work_inv_later: "work_inv s us rs now \<Longrightarrow> now \<le> now' \<Longrightarrow> work_inv s us rs now'"
  by (fastforce simp: work_inv_def)

lemma work_inv_asked:
  assumes "work_inv s us rs (k_uptime_get e)"
  shows "work_inv (fold apply_work (asked e ev) s) (us @ (if is_trigger ev then [k_uptime_get e] else []))
    (rs @ (if is_trigger ev then [k_uptime_get e] else [])) (k_uptime_get e)"
proof (cases "is_trigger ev")
  case False
  with assms show ?thesis by (simp add: asked_def)
next
  case True
  then show ?thesis using assms
    by (cases "retry_due s"; cases ev) (auto simp: asked_def apply_work_def work_inv_def)
qed

lemma reach_work_inv: "work_reach c s us rs now \<Longrightarrow> work_inv s us rs now"
proof (induction rule: work_reach.induct)
  case (boot now)
  then show ?case by (simp add: work_inv_def excl_sys_boot_def)
next
  case (callback s us rs now e ev trig)
  have "sched (run_handler (excl_step c e ev) s) = sched (fold apply_work (asked e ev) s)"
    using excl_step_prefix callback_works [OF callback.hyps(3)] by (intro run_handler_sched)
  from work_inv_sched [OF this] work_inv_asked [of s us rs e ev] work_inv_later [OF callback.IH callback.hyps(2)]
  show ?case by (simp add: callback.hyps(4))
next
  case (evict s us rs now e conns)
  from work_inv_later [OF evict.IH evict.hyps(2)] show ?case
    by (subst work_inv_sched [of _ "s\<lparr>evict_queued := False\<rparr>"])
      (simp_all add: exclusive_host_evict_work_handler_def scan_handler_sched, simp add: work_inv_def)
next
  case (retry s us rs now e d conns)
  show ?case
    by (subst work_inv_sched [of _ "s\<lparr>retry_due := None\<rparr>"])
      (simp_all add: exclusive_host_retry_work_handler_def scan_handler_sched, simp add: work_inv_def)
next
  case (fallback s us rs now e d conns)
  from work_inv_later [OF fallback.IH fallback.hyps(2)] show ?case
    by (subst work_inv_sched [of _ "s\<lparr>fallback_due := None\<rparr>"])
      (simp_all add: exclusive_host_fallback_work_handler_def scan_handler_sched, simp add: work_inv_def)
next
  case (bond_clear s us rs now e)
  from work_inv_later [OF bond_clear.IH bond_clear.hyps(2)] show ?case
    by (subst work_inv_sched [of _ "s\<lparr>bond_clear_queued := False\<rparr>"])
      (simp_all add: bond_handler_sched, simp add: work_inv_def)
qed

section \<open>Properties\<close>

text \<open>
  C16. No connection event is forgotten: in every reachable state, a connection, an encryption
  change, a resolved identity or a profile change after which no scan has run yet has the immediate
  scan queued, and one after which no retry scan has run yet has the retry pending with a deadline
  at most 150 ms after it, however events and work items interleave.
\<close>

theorem trigger_never_forgotten:
  assumes "work_reach c s us rs now"
  shows "(us \<noteq> [] \<longrightarrow> evict_queued s) \<and> (\<forall>t \<in> set rs. \<exists>d. retry_due s = Some d \<and> d \<le> t + EXCLUSIVE_HOST_RETRY_MS)"
  using reach_work_inv [OF assms] by (auto simp: work_inv_def)

text \<open>A computer connects, the scan runs, and its identity is resolved afterwards.\<close>

theorem trigger_never_forgotten_witness:
  "let c = totem_left_config; s1 = run_handler (excl_step c (demo_env 10) (X_connected (demo_conn 1) 0)) (excl_sys_boot c);
       s2 = run_handler (exclusive_host_evict_work_handler c (demo_env 11) [demo_conn 1]) (s1\<lparr>evict_queued := False\<rparr>);
       s3 = run_handler (excl_step c (demo_env 40) (X_identity_resolved 1)) s2
   in evict_queued s3 \<and> retry_due s3 = Some 160 \<and> fallback_due s3 = Some 2010"
proof -
  let ?c = totem_left_config
  let ?a = "run_handler (excl_step ?c (demo_env 10) (X_connected (demo_conn 1) 0)) (excl_sys_boot ?c)"
  let ?b = "run_handler (exclusive_host_evict_work_handler ?c (demo_env 11) [demo_conn 1]) (?a\<lparr>evict_queued := False\<rparr>)"
  let ?d = "run_handler (excl_step ?c (demo_env 40) (X_identity_resolved 1)) ?b"
  have t: "k_uptime_get (demo_env x) = x" for x by (simp add: demo_env_def)
  have q: "evict_queued ?a" by code_simp
  have r1: "work_reach ?c ?a ([] @ [10]) ([] @ [10]) (k_uptime_get (demo_env 10))"
    by (rule work_reach.callback [OF work_reach.boot [of ?c 0]]) (simp_all add: t)
  have r2: "work_reach ?c ?b [] ([] @ [10]) (k_uptime_get (demo_env 11))"
    by (rule work_reach.evict [OF r1 _ q]) (simp add: t)
  have r3: "work_reach ?c ?d ([] @ [40]) (([] @ [10]) @ [40]) (k_uptime_get (demo_env 40))"
    by (rule work_reach.callback [OF r2]) (simp_all add: t)
  have due: "retry_due ?d = Some 160" "fallback_due ?d = Some 2010" by code_simp+
  from trigger_never_forgotten [OF r3] due show ?thesis by (simp only: Let_def) simp
qed

section \<open>Profile switches\<close>

lemma apply_work_sx [simp]: "sx (apply_work x s) = sx s"
  by (auto simp: apply_work_def split: excl_effect.split option.split)

lemma run_handler_sx [simp]: "sx (run_handler f s) = f (sx s)"
proof -
  have "sx (fold apply_work xs s) = sx s" for xs s by (induction xs arbitrary: s) simp_all
  then show ?thesis by (simp add: run_handler_def)
qed

lemma reach_wf: "work_reach c s us rs now \<Longrightarrow> excl_wf c (sx s)"
proof (induction rule: work_reach.induct)
  case (boot now)
  then show ?case by (simp add: excl_sys_boot_def excl_wf_boot)
next
  case (callback s us rs now e ev trig)
  then show ?case by (simp add: excl_wf_step)
qed (simp_all add: exclusive_host_evict_work_handler_def exclusive_host_retry_work_handler_def
    exclusive_host_fallback_work_handler_def exclusive_host_evict_all_def bond_heal_clear_active_work_handler_def excl_wf_scan)

text \<open>After a switch no profile is ignored and no eviction counts any more.\<close>

lemma switched_profile:
  assumes "0 \<le> last_active_profile s" and "last_active_profile s \<noteq> zmk_ble_active_profile_index e" and "excl_wf c s"
  shows "\<not> bg_should_ignore c e' idx (excl_step c e X_profile_changed s)"
    and "CONFIG_TOTEM_THRASH_DETECT c \<Longrightarrow> thrash_win_count c e' (excl_step c e X_profile_changed s) = 0"
proof -
  have zero: "\<not> idx < 0 \<Longrightarrow> \<not> int n \<le> idx \<Longrightarrow> replicate n (0::int) ! nat idx = 0" for n by (simp add: nat_less_iff)
  show "\<not> bg_should_ignore c e' idx (excl_step c e X_profile_changed s)"
    using assms by (simp add: excl_callback_defs bg_should_ignore_def bg_clear_ignores_def class_a_note_auth_event_def
        thrash_clear_def excl_wf_def emit_def) (blast dest: zero)
  show "thrash_win_count c e' (excl_step c e X_profile_changed s) = 0" if "CONFIG_TOTEM_THRASH_DETECT c"
    using assms that by (simp add: excl_callback_defs thrash_win_count_def thrash_newest_first_def bg_clear_ignores_def
        class_a_note_auth_event_def thrash_clear_def emit_def)
qed

text \<open>
  C15. A profile switch takes effect at once: in every reachable state, when the selected profile
  has changed, the immediate scan is queued, and when it runs it disconnects every
  background computer in table order, up to the storm cap, however recently it was evicted and
  however many evictions there had been: neither ignore times nor the eviction history of the old
  profile hold it back.
\<close>

theorem switch_evicts_at_once:
  assumes "kconfig_ok c" and "CONFIG_TOTEM_THRASH_DETECT c" and "work_reach c s us rs now"
    and "0 \<le> last_active_profile (sx s)" and "last_active_profile (sx s) \<noteq> zmk_ble_active_profile_index e"
    and "s1 = run_handler (excl_step c e X_profile_changed) s"
    and "\<forall>conn \<in> set conns. bt_conn_disconnect e' conn (EVICT_DISCONNECT_REASON c) = 0"
    and "distinct (map (\<lambda>conn. zmk_ble_profile_index e' (conn_dst conn)) (filter (background_host c e') conns))"
    and "s2 = run_handler (exclusive_host_evict_work_handler c e' conns) (s1\<lparr>evict_queued := False\<rparr>)"
  shows "evict_queued s1 \<and> drop (length (disconnects (x_out (sx s1)))) (disconnects (x_out (sx s2)))
    = map (\<lambda>conn. (k_uptime_get e', conn, 0)) (take (CONFIG_TOTEM_BG_EVICT_CAP c) (filter (background_host c e') conns))"
proof
  have "sched s1 = sched (fold apply_work (asked e X_profile_changed) s)"
    unfolding assms(6) by (rule run_handler_sched [where f = "excl_step c e X_profile_changed"], rule excl_step_prefix, rule callback_works) simp
  then show "evict_queued s1" by (simp add: sched_def asked_def apply_work_def split: option.split_asm)
  have wf: "excl_wf c (sx s1)" unfolding assms(6) run_handler_sx by (rule excl_wf_step [OF reach_wf [OF assms(3)]])
  note clear = switched_profile [OF assms(4,5) reach_wf [OF assms(3)]]
  from scan_evicts [OF assms(1,2), of "sx s1" conns e'] wf assms(7,8) clear
  show "drop (length (disconnects (x_out (sx s1)))) (disconnects (x_out (sx s2)))
    = map (\<lambda>conn. (k_uptime_get e', conn, 0)) (take (CONFIG_TOTEM_BG_EVICT_CAP c) (filter (background_host c e') conns))"
    by (simp add: assms(2,6,9) excl_wf_def exclusive_host_evict_work_handler_def exclusive_host_evict_all_def)
qed

text \<open>
  Computer 1 is evicted while profile 0 is selected; then the user selects profile 2, and both other
  computers go at the next scan although computer 1 would still be ignored.
\<close>

definition selected_env :: "int \<Rightarrow> int \<Rightarrow> ble_env" where
  "selected_env t a = (demo_env t)\<lparr>zmk_ble_active_profile_index := a\<rparr>"

theorem switch_evicts_at_once_witness:
  "let c = totem_left_config; at = selected_env;
       s0 = run_handler (excl_step c (at 10 0) X_profile_changed) (excl_sys_boot c);
       s = run_handler (exclusive_host_evict_work_handler c (at 11 0) [demo_conn 1]) (s0\<lparr>evict_queued := False\<rparr>);
       s1 = run_handler (excl_step c (at 500 2) X_profile_changed) s;
       s2 = run_handler (exclusive_host_evict_work_handler c (at 501 2) [demo_conn 0, demo_conn 1, demo_conn 2]) (s1\<lparr>evict_queued := False\<rparr>)
   in bg_should_ignore c (at 501 2) 1 (sx s)
      \<and> drop (length (disconnects (x_out (sx s1)))) (disconnects (x_out (sx s2))) = [(501, demo_conn 0, 0), (501, demo_conn 1, 0)]"
proof -
  let ?c = totem_left_config and ?at = selected_env
  let ?conns = "[demo_conn 0, demo_conn 1, demo_conn 2]"
  let ?boot = "run_handler (excl_step ?c (?at 10 0) X_profile_changed) (excl_sys_boot ?c)"
  let ?s = "run_handler (exclusive_host_evict_work_handler ?c (?at 11 0) [demo_conn 1]) (?boot\<lparr>evict_queued := False\<rparr>)"
  have t: "k_uptime_get (?at x a) = x" for x a by (simp add: selected_env_def demo_env_def)
  have q: "evict_queued ?boot" by code_simp
  have r0: "work_reach ?c ?boot ([] @ [10]) ([] @ [10]) (k_uptime_get (?at 10 0))"
    by (rule work_reach.callback [OF work_reach.boot [of ?c 0]]) (simp_all add: t)
  have r: "work_reach ?c ?s [] ([] @ [10]) (k_uptime_get (?at 11 0))"
    by (rule work_reach.evict [OF r0 _ q]) (simp add: t)
  have last: "last_active_profile (sx ?s) = 0" by code_simp
  then have l: "0 \<le> last_active_profile (sx ?s)" "last_active_profile (sx ?s) \<noteq> zmk_ble_active_profile_index (?at 500 2)"
    by (simp_all add: selected_env_def)
  have d: "\<forall>conn \<in> set ?conns. bt_conn_disconnect (?at 501 2) conn (EVICT_DISCONNECT_REASON ?c) = 0"
    by (simp add: selected_env_def demo_env_def)
  have b: "filter (background_host ?c (?at 501 2)) ?conns = [demo_conn 0, demo_conn 1]" by code_simp
  then have n: "distinct (map (\<lambda>conn. zmk_ble_profile_index (?at 501 2) (conn_dst conn)) (filter (background_host ?c (?at 501 2)) ?conns))"
    by (simp add: selected_env_def demo_env_def demo_conn_def)
  have "CONFIG_TOTEM_THRASH_DETECT ?c" "CONFIG_TOTEM_BG_EVICT_CAP ?c = 4" by (simp_all add: totem_left_config_def)
  moreover have "bg_should_ignore ?c (?at 501 2) 1 (sx ?s)" by code_simp
  ultimately show ?thesis
    using switch_evicts_at_once [OF kconfig_ok_totem_left _ r l refl d n refl] b t unfolding Let_def by simp
qed

section \<open>Ignored, then forgotten\<close>

text \<open>
  No scan is scheduled for the end of an ignore time: computer 1 is evicted, connects again within
  the ten seconds, is spared by all three scans of its connection, and afterwards nothing is pending that
  could evict it, although its ignore time ends.
\<close>

lemma ignored_host_stays:
  "let c = totem_left_config;
       s1 = run_handler (exclusive_host_evict_work_handler c (demo_env 1) [demo_conn 1]) (excl_sys_boot c);
       s2 = run_handler (excl_step c (demo_env 3000) (X_connected (demo_conn 1) 0)) s1;
       s3 = run_handler (exclusive_host_evict_work_handler c (demo_env 3001) [demo_conn 1]) (s2\<lparr>evict_queued := False\<rparr>);
       s4 = run_handler (exclusive_host_retry_work_handler c (demo_env 3150) [demo_conn 1]) (s3\<lparr>retry_due := None\<rparr>);
       s5 = run_handler (exclusive_host_fallback_work_handler c (demo_env 5000) [demo_conn 1]) (s4\<lparr>fallback_due := None\<rparr>)
   in disconnects (x_out (sx s5)) = [(1, demo_conn 1, 0)]
      \<and> retry_due s3 = Some 3150 \<and> fallback_due s4 = Some 5000
      \<and> \<not> evict_queued s5 \<and> retry_due s5 = None \<and> fallback_due s5 = None
      \<and> evict_verdict c (demo_env 10002) False (demo_conn 1) (sx s5) = Evict"
  by code_simp

end
