(* ===== verification/Hid_Report_Diagnostics.thy ===== *)
theory Hid_Report_Diagnostics
  imports Host_Event_Log
begin

text \<open>
  Report pipeline counters, \<open>src/hid_report_diagnostics.c\<close>: wrappers around the keyboard report
  queue, key release and notification calls count what happens to reports per profile and stage,
  and a work item writes the changed counts to the journal at most once every five seconds.
\<close>

section \<open>State\<close>

datatype hid_stage =
    RELEASE_OK | RELEASE_FAILED | QUEUED | QUEUE_FAILED | DEQUEUED | EVICTED
  | NO_HOST_DROP | NOTIFY_ACCEPTED | NOTIFY_FAILED | UNSUBSCRIBED
  | ALL_UP_QUEUED | ALL_UP_ACCEPTED | ALL_UP_EVICTED | ALL_UP_FAILED

definition hid_stages :: "hid_stage list" where
  "hid_stages = [RELEASE_OK, RELEASE_FAILED, QUEUED, QUEUE_FAILED, DEQUEUED, EVICTED, NO_HOST_DROP,
     NOTIFY_ACCEPTED, NOTIFY_FAILED, UNSUBSCRIBED, ALL_UP_QUEUED, ALL_UP_ACCEPTED, ALL_UP_EVICTED, ALL_UP_FAILED]"

primrec stage_num :: "hid_stage \<Rightarrow> nat" where
  "stage_num RELEASE_OK = 0" | "stage_num RELEASE_FAILED = 1" | "stage_num QUEUED = 2"
| "stage_num QUEUE_FAILED = 3" | "stage_num DEQUEUED = 4" | "stage_num EVICTED = 5"
| "stage_num NO_HOST_DROP = 6" | "stage_num NOTIFY_ACCEPTED = 7" | "stage_num NOTIFY_FAILED = 8"
| "stage_num UNSUBSCRIBED = 9" | "stage_num ALL_UP_QUEUED = 10" | "stage_num ALL_UP_ACCEPTED = 11"
| "stage_num ALL_UP_EVICTED = 12" | "stage_num ALL_UP_FAILED = 13"

definition HID_STAGE_COUNT :: nat where [simp]: "HID_STAGE_COUNT = 14"

record hid_count =
  last_ms :: u32
  total :: u16
  count_error :: u8
  dirty :: bool

text \<open>
  \<open>summary_due\<close> is the time at which the pending work item will run, \<open>None\<close> when it is not pending;
  a count is addressed by profile and stage.
\<close>

record hid_diag =
  counts :: "hid_count list list"
  dequeued_report :: bool
  all_up_report :: bool
  keyboard_notify :: bool
  notify_profile :: int
  summary_due :: "int option"

definition zero_count :: hid_count where
  "zero_count = \<lparr>last_ms = 0, total = 0, count_error = 0, dirty = False\<rparr>"

definition hid_boot :: "totem_config \<Rightarrow> hid_diag" where
  "hid_boot c = \<lparr>counts = replicate (ZMK_BLE_PROFILE_COUNT c) (replicate HID_STAGE_COUNT zero_count),
     dequeued_report = False, all_up_report = False, keyboard_notify = False, notify_profile = 0, summary_due = None\<rparr>"

definition count_at :: "nat \<Rightarrow> hid_stage \<Rightarrow> hid_diag \<Rightarrow> hid_count" where
  "count_at profile stage s = counts s ! profile ! stage_num stage"

definition set_count :: "nat \<Rightarrow> hid_stage \<Rightarrow> hid_count \<Rightarrow> hid_diag \<Rightarrow> hid_diag" where
  "set_count profile stage x s =
     s\<lparr>counts := (counts s)[profile := (counts s ! profile)[stage_num stage := x]]\<rparr>"

section \<open>Counting\<close>

definition count_event :: "totem_config \<Rightarrow> int \<Rightarrow> int \<Rightarrow> hid_stage \<Rightarrow> int \<Rightarrow> hid_diag \<Rightarrow> hid_diag" where
  "count_event c now profile stage err s =
     (if profile < 0 \<or> profile \<ge> int (ZMK_BLE_PROFILE_COUNT c) then s
      else
        let x = count_at (nat profile) stage s;
            x1 = x\<lparr>total := total x + 1, last_ms := word_of_int now, dirty := True\<rparr>;
            x2 = (if err \<noteq> 0 then x1\<lparr>count_error := err_abs_u8 err\<rparr> else x1);
            s1 = set_count (nat profile) stage x2 s
        in s1\<lparr>summary_due := (case summary_due s1 of None \<Rightarrow> Some (now + 5000) | Some d \<Rightarrow> Some d)\<rparr>)"

text \<open>A report is all-up when it has no modifier and no key: \<open>(modifiers, keys)\<close>.\<close>

definition all_up :: "u8 \<times> u8 list \<Rightarrow> bool" where
  "all_up report \<longleftrightarrow> fst report = 0 \<and> list_all (\<lambda>k. k = 0) (snd report)"

section \<open>The summary\<close>

definition count_calls :: "nat \<Rightarrow> hid_stage \<Rightarrow> hid_count \<Rightarrow> (u32 \<times> log_call) list" where
  "count_calls profile stage x =
     (if \<not> dirty x then []
      else (last_ms x, log_args TOTEM_HEVT_HID_COUNT (of_nat profile) (- 1) (of_nat (stage_num stage))
              (ucast (total x)) (ucast (drop_bit 8 (total x))))
         # (if count_error x \<noteq> 0
            then [(last_ms x, log_args TOTEM_HEVT_HID_ERROR (of_nat profile) (- 1) (of_nat (stage_num stage)) (count_error x) 0)]
            else []))"

text \<open>
  The loop over profiles and stages: the count is copied and cleaned, then recorded. The result says
  whether anything changed; the handler then asks for a flash write.
\<close>

definition flush_one :: "totem_config \<Rightarrow> int \<Rightarrow> nat \<times> hid_stage \<Rightarrow> bool \<times> hid_diag \<times> journal \<Rightarrow> bool \<times> hid_diag \<times> journal" where
  "flush_one c now ps sj =
     (let (profile, stage) = ps; (changed, s, j) = sj;
          x = count_at profile stage s;
          s1 = set_count profile stage (x\<lparr>dirty := False, count_error := 0\<rparr>) s
      in (changed \<or> dirty x, s1,
          fold (\<lambda>(t, a). totem_host_event_log_record_timing c now t a) (count_calls profile stage x) j))"

definition flush_order :: "totem_config \<Rightarrow> (nat \<times> hid_stage) list" where
  "flush_order c = List.product [0..<ZMK_BLE_PROFILE_COUNT c] hid_stages"

definition flush_counts ::
  "totem_config \<Rightarrow> (journal \<times> 'b \<Rightarrow> journal \<times> 'b) \<Rightarrow> int \<Rightarrow> hid_diag \<times> journal \<times> 'b \<Rightarrow> hid_diag \<times> journal \<times> 'b" where
  "flush_counts c persist now sjb =
     (let (s, j, b) = sjb;
          (changed, s1, j1) = fold (flush_one c now) (flush_order c) (False, s\<lparr>summary_due := None\<rparr>, j);
          (j2, b2) = (if changed then persist (j1, b) else (j1, b))
      in (s1, j2, b2))"

section \<open>Wrappers\<close>

text \<open>
  \<open>worker\<close> tells whether the call runs on the report worker's thread; \<open>usage_page\<close> is ZMK's
  \<open>ZMK_HID_USAGE_PAGE\<close>. Page 7 is the keyboard page of the HID usage tables.
\<close>

definition HID_USAGE_KEY :: u32 where [simp]: "HID_USAGE_KEY = 7"

definition wrap_zmk_hid_release ::
  "(u32 \<Rightarrow> 'w \<Rightarrow> int \<times> 'w) \<Rightarrow> (u32 \<Rightarrow> u32) \<Rightarrow> totem_config \<Rightarrow> ble_env \<Rightarrow> int \<Rightarrow> u32 \<Rightarrow> hid_diag \<times> 'w \<Rightarrow> int \<times> hid_diag \<times> 'w" where
  "wrap_zmk_hid_release real usage_page c e now usage sw =
     (let (s, w) = sw;
          profile = zmk_ble_active_profile_index e;
          trace = (usage_page usage = HID_USAGE_KEY \<and> zmk_endpoint_selected_transport e \<noteq> ZMK_TRANSPORT_USB);
          (err, w') = real usage w
      in (err, if trace then count_event c now profile (if err < 0 then RELEASE_FAILED else RELEASE_OK)
                              (if err < 0 then err else 0) s else s, w'))"

text \<open>The first argument of the queue calls tells whether the queue is the keyboard report queue.\<close>

definition msgq_put_observed :: "totem_config \<Rightarrow> int \<Rightarrow> int \<Rightarrow> u8 \<times> u8 list \<Rightarrow> int \<Rightarrow> hid_diag \<Rightarrow> hid_diag" where
  "msgq_put_observed c now profile report err s0 =
     (let s = count_event c now profile (if err \<noteq> 0 then QUEUE_FAILED else QUEUED) err s0
      in if err = 0 \<and> all_up report then count_event c now profile ALL_UP_QUEUED 0 s else s)"

definition wrap_z_impl_k_msgq_put ::
  "(bool \<times> (u8 \<times> u8 list) \<Rightarrow> 'w \<Rightarrow> int \<times> 'w) \<Rightarrow> totem_config \<Rightarrow> ble_env \<Rightarrow> int
   \<Rightarrow> bool \<times> (u8 \<times> u8 list) \<Rightarrow> hid_diag \<times> 'w \<Rightarrow> int \<times> hid_diag \<times> 'w" where
  "wrap_z_impl_k_msgq_put real c e now arg sw =
     (let (s, w) = sw; (err, w') = real arg w
      in (err, if fst arg then msgq_put_observed c now (zmk_ble_active_profile_index e) (snd arg) err s else s, w'))"

definition msgq_get_observed :: "totem_config \<Rightarrow> int \<Rightarrow> int \<Rightarrow> bool \<Rightarrow> int \<times> (u8 \<times> u8 list) \<Rightarrow> hid_diag \<Rightarrow> hid_diag" where
  "msgq_get_observed c now profile worker res s0 =
     (let (err, report) = res;
          s = (if worker then s0\<lparr>dequeued_report := (err = 0)\<rparr> else s0)
      in if err \<noteq> 0 then s
         else
           let s1 = count_event c now profile (if worker then DEQUEUED else EVICTED) 0 s
           in if worker then s1\<lparr>all_up_report := all_up report\<rparr>
              else if all_up report then count_event c now profile ALL_UP_EVICTED 0 s1 else s1)"

definition wrap_z_impl_k_msgq_get ::
  "(bool \<Rightarrow> 'w \<Rightarrow> (int \<times> (u8 \<times> u8 list)) \<times> 'w) \<Rightarrow> totem_config \<Rightarrow> ble_env \<Rightarrow> int \<Rightarrow> bool
   \<Rightarrow> bool \<Rightarrow> hid_diag \<times> 'w \<Rightarrow> (int \<times> (u8 \<times> u8 list)) \<times> hid_diag \<times> 'w" where
  "wrap_z_impl_k_msgq_get real c e now worker hog sw =
     (let (s, w) = sw; (res, w') = real hog w
      in (res, if hog then msgq_get_observed c now (zmk_ble_active_profile_index e) worker res s else s, w'))"

definition wrap_zmk_ble_active_profile_conn ::
  "(unit \<Rightarrow> 'w \<Rightarrow> bt_conn option \<times> 'w) \<Rightarrow> totem_config \<Rightarrow> ble_env \<Rightarrow> int \<Rightarrow> bool
   \<Rightarrow> unit \<Rightarrow> hid_diag \<times> 'w \<Rightarrow> bt_conn option \<times> hid_diag \<times> 'w" where
  "wrap_zmk_ble_active_profile_conn real c e now worker arg sw =
     (let (s, w) = sw; (conn, w') = real arg w
      in (conn, if conn = None \<and> worker \<and> dequeued_report s
                then (count_event c now (zmk_ble_active_profile_index e) NO_HOST_DROP 0 s)\<lparr>dequeued_report := False\<rparr>
                else s, w'))"

definition totem_hid_report_observed :: "totem_config \<Rightarrow> ble_env \<Rightarrow> int \<Rightarrow> bt_conn \<Rightarrow> bool \<Rightarrow> hid_diag \<Rightarrow> hid_diag" where
  "totem_hid_report_observed c e now conn subscribed s0 =
     (let p = zmk_ble_profile_index e (conn_dst conn);
          s = s0\<lparr>notify_profile := p, keyboard_notify := True, dequeued_report := False\<rparr>
      in if \<not> subscribed then count_event c now p UNSUBSCRIBED 0 s else s)"

definition wrap_bt_gatt_notify_cb ::
  "('a \<Rightarrow> 'w \<Rightarrow> int \<times> 'w) \<Rightarrow> totem_config \<Rightarrow> int \<Rightarrow> bool \<Rightarrow> 'a \<Rightarrow> hid_diag \<times> 'w \<Rightarrow> int \<times> hid_diag \<times> 'w" where
  "wrap_bt_gatt_notify_cb real c now worker arg sw =
     (let (s, w) = sw in
      if \<not> (worker \<and> keyboard_notify s) then let (err, w') = real arg w in (err, s, w')
      else
        let s1 = s\<lparr>keyboard_notify := False\<rparr>;
            (err, w') = real arg w;
            s2 = count_event c now (notify_profile s1) (if err \<noteq> 0 then NOTIFY_FAILED else NOTIFY_ACCEPTED) err s1;
            s3 = (if all_up_report s2
                  then count_event c now (notify_profile s2) (if err \<noteq> 0 then ALL_UP_FAILED else ALL_UP_ACCEPTED) err s2
                  else s2)
        in (err, s3, w'))"

section \<open>Counts by profile and stage\<close>

definition hid_inv :: "totem_config \<Rightarrow> hid_diag \<Rightarrow> bool" where
  "hid_inv c s \<longleftrightarrow> length (counts s) = ZMK_BLE_PROFILE_COUNT c \<and> list_all (\<lambda>row. length row = HID_STAGE_COUNT) (counts s)"

lemma stage_num_inject [simp]: "stage_num a = stage_num b \<longleftrightarrow> a = b"
  by (cases a; cases b; simp)

lemma stage_num_less: "stage_num st < 14"
  by (cases st) simp_all

lemma hid_inv_boot: "hid_inv c (hid_boot c)"
  by (simp add: hid_inv_def hid_boot_def list_all_length)

lemma hid_inv_set [inv_intros]: "hid_inv c s \<Longrightarrow> p < ZMK_BLE_PROFILE_COUNT c \<Longrightarrow> hid_inv c (set_count p st x s)"
  by (auto simp: hid_inv_def set_count_def list_all_length nth_list_update)

lemma hid_inv_fields [simp]:
  "hid_inv c (s\<lparr>dequeued_report := a\<rparr>) = hid_inv c s" "hid_inv c (s\<lparr>all_up_report := a\<rparr>) = hid_inv c s"
  "hid_inv c (s\<lparr>keyboard_notify := a\<rparr>) = hid_inv c s" "hid_inv c (s\<lparr>notify_profile := i\<rparr>) = hid_inv c s"
  "hid_inv c (s\<lparr>summary_due := d\<rparr>) = hid_inv c s"
  by (simp_all add: hid_inv_def)

lemma count_at_fields [simp]:
  "count_at p st (s\<lparr>dequeued_report := a\<rparr>) = count_at p st s" "count_at p st (s\<lparr>all_up_report := a\<rparr>) = count_at p st s"
  "count_at p st (s\<lparr>keyboard_notify := a\<rparr>) = count_at p st s" "count_at p st (s\<lparr>notify_profile := i\<rparr>) = count_at p st s"
  "count_at p st (s\<lparr>summary_due := d\<rparr>) = count_at p st s"
  by (simp_all add: count_at_def)

lemma count_at_set:
  assumes "hid_inv c s" and "p < ZMK_BLE_PROFILE_COUNT c"
  shows "count_at p' st' (set_count p st x s) = (if p' = p \<and> st' = st then x else count_at p' st' s)"
proof -
  have "length (counts s ! p) = 14" "p < length (counts s)" using assms by (auto simp: hid_inv_def list_all_length)
  then show ?thesis using stage_num_less [of st] by (auto simp: count_at_def set_count_def nth_list_update)
qed

definition in_profiles :: "totem_config \<Rightarrow> int \<Rightarrow> bool" where
  "in_profiles c p \<longleftrightarrow> 0 \<le> p \<and> p < int (ZMK_BLE_PROFILE_COUNT c)"

definition bump :: "int \<Rightarrow> int \<Rightarrow> hid_count \<Rightarrow> hid_count" where
  "bump now err x = x\<lparr>total := total x + 1, last_ms := word_of_int now, dirty := True,
     count_error := (if err \<noteq> 0 then err_abs_u8 err else count_error x)\<rparr>"

lemma count_event_at:
  assumes "hid_inv c s"
  shows "hid_inv c (count_event c now p st err s)"
    and "count_at p' st' (count_event c now p st err s)
      = (if in_profiles c p \<and> p' = nat p \<and> st' = st then bump now err (count_at p' st' s) else count_at p' st' s)"
  using assms by (auto simp: count_event_def Let_def in_profiles_def bump_def count_at_set intro!: inv_intros)

lemma count_event_fields [simp]:
  "dequeued_report (count_event c now p st err s) = dequeued_report s"
  "all_up_report (count_event c now p st err s) = all_up_report s"
  "keyboard_notify (count_event c now p st err s) = keyboard_notify s"
  "notify_profile (count_event c now p st err s) = notify_profile s"
  by (simp_all add: count_event_def Let_def set_count_def)

lemma count_event_due:
  "summary_due (count_event c now p st err s) = (if in_profiles c p
     then (case summary_due s of None \<Rightarrow> Some (now + 5000) | Some d \<Rightarrow> Some d) else summary_due s)"
  by (simp add: count_event_def Let_def set_count_def in_profiles_def)

section \<open>The summary writes what changed\<close>

definition flush_calls :: "totem_config \<Rightarrow> hid_diag \<Rightarrow> (u32 \<times> log_call) list" where
  "flush_calls c s = concat (map (\<lambda>(p, st). count_calls p st (count_at p st s)) (flush_order c))"

lemma flush_steps:
  assumes "hid_inv c s" and "distinct ps" and "fst ` set ps \<subseteq> {..<ZMK_BLE_PROFILE_COUNT c}"
  shows "let (changed', s', j') = fold (flush_one c now) ps (changed, s, j) in
      hid_inv c s' \<and> changed' = (changed \<or> list_ex (\<lambda>(p, st). dirty (count_at p st s)) ps)
    \<and> j' = fold (\<lambda>(t, a). totem_host_event_log_record_timing c now t a)
             (concat (map (\<lambda>(p, st). count_calls p st (count_at p st s)) ps)) j
    \<and> (\<forall>p st. count_at p st s' = (if (p, st) \<in> set ps then (count_at p st s)\<lparr>dirty := False, count_error := 0\<rparr> else count_at p st s))
    \<and> summary_due s' = summary_due s"
  using assms
proof (induction ps arbitrary: changed s j)
  case Nil
  then show ?case by simp
next
  case (Cons q ps)
  obtain p st where q: "q = (p, st)" by (cases q)
  let ?x = "count_at p st s"
  let ?s = "set_count p st (?x\<lparr>dirty := False, count_error := 0\<rparr>) s"
  let ?j = "fold (\<lambda>(t, a). totem_host_event_log_record_timing c now t a) (count_calls p st ?x) j"
  have p: "p < ZMK_BLE_PROFILE_COUNT c" using Cons.prems(3) by (simp add: q)
  have at: "count_at p' st' ?s = (if p' = p \<and> st' = st then ?x\<lparr>dirty := False, count_error := 0\<rparr> else count_at p' st' s)" for p' st'
    by (rule count_at_set [OF Cons.prems(1) p])
  have same: "count_at p' st' ?s = count_at p' st' s" if "(p', st') \<in> set ps" for p' st'
    using that Cons.prems(2) by (auto simp: at q)
  have inv: "hid_inv c ?s" using Cons.prems(1) p by (rule hid_inv_set)
  have step: "flush_one c now q (changed, s, j) = (changed \<or> dirty ?x, ?s, ?j)" by (simp add: flush_one_def q Let_def)
  have calls: "map (\<lambda>(p, st). count_calls p st (count_at p st ?s)) ps = map (\<lambda>(p, st). count_calls p st (count_at p st s)) ps"
    by (auto simp: same)
  have ex: "list_ex (\<lambda>(p, st). dirty (count_at p st ?s)) ps = list_ex (\<lambda>(p, st). dirty (count_at p st s)) ps"
    unfolding list_ex_iff by (rule bex_cong) (auto simp: same)
  have due: "summary_due ?s = summary_due s" by (simp add: set_count_def)
  have ps: "distinct ps" "fst ` set ps \<subseteq> {..<ZMK_BLE_PROFILE_COUNT c}" using Cons.prems(2,3) by simp_all
  obtain ch s' j' where f: "fold (flush_one c now) ps (changed \<or> dirty ?x, ?s, ?j) = (ch, s', j')" by (metis prod_cases3)
  note IH = Cons.IH [OF inv ps, of "changed \<or> dirty ?x" ?j, unfolded f Let_def prod.case calls ex due]
  have "count_at p' st' s' = (if (p', st') \<in> set (q # ps) then (count_at p' st' s)\<lparr>dirty := False, count_error := 0\<rparr>
      else count_at p' st' s)" for p' st'
    using IH Cons.prems(2) by (auto simp: q at)
  moreover have "fold (flush_one c now) (q # ps) (changed, s, j) = (ch, s', j')" using f by (simp add: step)
  ultimately show ?case using IH by (simp add: q)
qed

lemma flush_order_facts:
  "distinct (flush_order c)" "fst ` set (flush_order c) \<subseteq> {..<ZMK_BLE_PROFILE_COUNT c}"
  "(p, st) \<in> set (flush_order c) \<longleftrightarrow> p < ZMK_BLE_PROFILE_COUNT c"
proof -
  have "distinct hid_stages" by (simp add: hid_stages_def)
  then show "distinct (flush_order c)" by (simp add: flush_order_def distinct_product)
  show "fst ` set (flush_order c) \<subseteq> {..<ZMK_BLE_PROFILE_COUNT c}" by (auto simp: flush_order_def)
  have "st \<in> set hid_stages" by (cases st) (simp_all add: hid_stages_def)
  then show "(p, st) \<in> set (flush_order c) \<longleftrightarrow> p < ZMK_BLE_PROFILE_COUNT c" by (simp add: flush_order_def)
qed

lemma flush_spec:
  assumes "hid_inv c s"
  obtains s' where "flush_counts c persist now (s, j, b)
      = (let j1 = fold (\<lambda>(t, a). totem_host_event_log_record_timing c now t a) (flush_calls c s) j
         in (s', if list_ex (\<lambda>(p, st). dirty (count_at p st s)) (flush_order c) then persist (j1, b) else (j1, b)))"
    and "hid_inv c s'" and "summary_due s' = None"
    and "\<And>p st. p < ZMK_BLE_PROFILE_COUNT c \<Longrightarrow> count_at p st s' = (count_at p st s)\<lparr>dirty := False, count_error := 0\<rparr>"
proof -
  let ?s = "s\<lparr>summary_due := None\<rparr>"
  have inv: "hid_inv c ?s" using assms by simp
  obtain ch s' j1 where f: "fold (flush_one c now) (flush_order c) (False, ?s, j) = (ch, s', j1)" by (metis prod_cases3)
  note st = flush_steps [OF inv flush_order_facts(1,2), of now False j, unfolded f]
  show thesis
  proof (rule that)
    show "flush_counts c persist now (s, j, b)
      = (let j1 = fold (\<lambda>(t, a). totem_host_event_log_record_timing c now t a) (flush_calls c s) j
         in (s', if list_ex (\<lambda>(p, st). dirty (count_at p st s)) (flush_order c) then persist (j1, b) else (j1, b)))"
      using st by (simp add: flush_counts_def f flush_calls_def Let_def)
  qed (use st in \<open>auto simp: flush_order_facts(3)\<close>)
qed

text \<open>
  The report for one profile and stage: \<open>own\<close> are the times and error codes counted there since the
  last summary, \<open>before\<close> the count at that summary.
\<close>

definition stage_report :: "nat \<Rightarrow> hid_stage \<Rightarrow> u16 \<Rightarrow> (int \<times> int) list \<Rightarrow> (u32 \<times> log_call) list" where
  "stage_report p st before own =
     (if own = [] then []
      else
        let t = word_of_int (fst (last own)); n = before + of_nat (length own); errs = filter (\<lambda>x. snd x \<noteq> 0) own
        in (t, log_args TOTEM_HEVT_HID_COUNT (of_nat p) (- 1) (of_nat (stage_num st)) (ucast n) (ucast (drop_bit 8 n)))
           # (if errs = [] then []
              else [(t, log_args TOTEM_HEVT_HID_ERROR (of_nat p) (- 1) (of_nat (stage_num st)) (err_abs_u8 (snd (last errs))) 0)]))"

definition bumps :: "(int \<times> int) list \<Rightarrow> hid_count \<Rightarrow> hid_count" where
  "bumps own x = fold (\<lambda>(t, e). bump t e) own x"

lemma bumps_fields:
  "total (bumps own x) = total x + of_nat (length own)"
  "last_ms (bumps own x) = (if own = [] then last_ms x else word_of_int (fst (last own)))"
  "dirty (bumps own x) = (dirty x \<or> own \<noteq> [])"
  "count_error (bumps own x) = (let errs = filter (\<lambda>x. snd x \<noteq> 0) own in
     if errs = [] then count_error x else err_abs_u8 (snd (last errs)))"
  by (induction own rule: rev_induct) (auto simp: bumps_def bump_def Let_def)

lemma count_calls_bumps:
  "\<not> dirty x \<Longrightarrow> count_error x = 0 \<Longrightarrow> count_calls p st (bumps own x) = stage_report p st (total x) own"
proof -
  assume x: "\<not> dirty x" "count_error x = 0"
  have "snd (last (filter (\<lambda>x. snd x \<noteq> 0) own)) \<noteq> 0" if "filter (\<lambda>x. snd x \<noteq> 0) own \<noteq> []"
    using last_in_set [OF that] by simp
  with x show ?thesis by (auto simp: count_calls_def stage_report_def bumps_fields Let_def)
qed

text \<open>One counted event: time, profile, stage, error code.\<close>

type_synonym hid_event = "int \<times> int \<times> hid_stage \<times> int"

definition count_one :: "totem_config \<Rightarrow> hid_event \<Rightarrow> hid_diag \<Rightarrow> hid_diag" where
  "count_one c = (\<lambda>(now, p, st, err). count_event c now p st err)"

definition own_events :: "nat \<Rightarrow> hid_stage \<Rightarrow> hid_event list \<Rightarrow> (int \<times> int) list" where
  "own_events p st evs = map (\<lambda>(now, p', st', err). (now, err)) (filter (\<lambda>(now, p', st', err). p' = int p \<and> st' = st) evs)"

lemma count_events_at:
  "hid_inv c s \<Longrightarrow> p < ZMK_BLE_PROFILE_COUNT c \<Longrightarrow>
     hid_inv c (fold (count_one c) evs s) \<and> count_at p st (fold (count_one c) evs s) = bumps (own_events p st evs) (count_at p st s)"
proof (induction evs arbitrary: s)
  case Nil
  then show ?case by (simp add: own_events_def bumps_def)
next
  case (Cons ev evs)
  obtain now q st' err where ev: "ev = (now, q, st', err)" by (metis prod_cases4)
  have inv: "hid_inv c (count_event c now q st' err s)" by (rule count_event_at(1) [OF Cons.prems(1)])
  have eq: "in_profiles c q \<and> p = nat q \<and> st = st' \<longleftrightarrow> q = int p \<and> st' = st"
    using Cons.prems(2) by (auto simp: in_profiles_def)
  show ?case
    using Cons.IH [OF inv Cons.prems(2)] count_event_at(2) [OF Cons.prems(1), of p st now q st' err]
    by (auto simp: ev count_one_def own_events_def bumps_def eq)
qed

lemma count_events_due:
  "summary_due (fold (count_one c) evs s) = (case summary_due s of Some d \<Rightarrow> Some d
     | None \<Rightarrow> (case filter (\<lambda>(now, p, st, err). in_profiles c p) evs of [] \<Rightarrow> None | ev # _ \<Rightarrow> Some (fst ev + 5000)))"
  by (induction evs arbitrary: s) (auto simp: count_one_def count_event_due split: option.split prod.split)

section \<open>Properties\<close>

text \<open>
  C36. The report summary is complete and punctual: whatever is counted between two summaries, the
  next one writes for every profile and stage that saw an event exactly one count (the running
  total, modulo 65536, with the time of the last event) and the last error if there was one, and
  nothing for the others; it asks for a flash write only if something changed; afterwards nothing
  is left to report; and it is due five seconds after the first event, however many follow. (The loop
  of the summary, which releases its lock between slots, is taken as one step.)
\<close>

theorem hid_summary_exact:
  assumes "hid_inv c s"
    and "\<And>p st. p < ZMK_BLE_PROFILE_COUNT c \<Longrightarrow> \<not> dirty (count_at p st s) \<and> count_error (count_at p st s) = 0"
    and "summary_due s = None" and "s1 = fold (count_one c) evs s"
    and "flush_counts c persist now (s1, j, b) = (s2, j2, b2)"
  shows "(let j1 = fold (\<lambda>(t, a). totem_host_event_log_record_timing c now t a)
             (concat (map (\<lambda>(p, st). stage_report p st (total (count_at p st s)) (own_events p st evs)) (flush_order c))) j
          in (j2, b2) = (if list_ex (\<lambda>(p, st). own_events p st evs \<noteq> []) (flush_order c) then persist (j1, b) else (j1, b)))
    \<and> (\<forall>st. list_all (\<lambda>p. \<not> dirty (count_at p st s2) \<and> count_error (count_at p st s2) = 0
         \<and> total (count_at p st s2) = total (count_at p st s) + of_nat (length (own_events p st evs))) [0..<ZMK_BLE_PROFILE_COUNT c])
    \<and> summary_due s1 = (case filter (\<lambda>(t, p, st, err). 0 \<le> p \<and> p < int (ZMK_BLE_PROFILE_COUNT c)) evs of
         [] \<Rightarrow> None | ev # _ \<Rightarrow> Some (fst ev + 5000))
    \<and> summary_due s2 = None"
proof -
  have at: "count_at p st s1 = bumps (own_events p st evs) (count_at p st s)" if "p < ZMK_BLE_PROFILE_COUNT c" for p st
    using count_events_at [OF assms(1) that] assms(4) by simp
  have inv: "hid_inv c s1"
  proof (cases "ZMK_BLE_PROFILE_COUNT c")
    case 0
    have "fold (count_one c) evs s = s" using 0 by (induction evs) (auto simp: count_one_def count_event_def)
    then show ?thesis using assms(1,4) by simp
  next
    case (Suc n)
    then show ?thesis using count_events_at [OF assms(1), of 0] assms(4) by simp
  qed
  have calls: "map (\<lambda>(p, st). count_calls p st (count_at p st s1)) (flush_order c)
      = map (\<lambda>(p, st). stage_report p st (total (count_at p st s)) (own_events p st evs)) (flush_order c)"
    using assms(2) by (auto simp: flush_order_facts(3) at count_calls_bumps)
  have ex: "list_ex (\<lambda>(p, st). dirty (count_at p st s1)) (flush_order c) = list_ex (\<lambda>(p, st). own_events p st evs \<noteq> []) (flush_order c)"
    unfolding list_ex_iff using assms(2) by (intro bex_cong) (auto simp: flush_order_facts(3) at bumps_fields)
  obtain s' where f: "flush_counts c persist now (s1, j, b)
      = (let j1 = fold (\<lambda>(t, a). totem_host_event_log_record_timing c now t a) (flush_calls c s1) j
         in (s', if list_ex (\<lambda>(p, st). dirty (count_at p st s1)) (flush_order c) then persist (j1, b) else (j1, b)))"
    and s': "hid_inv c s'" "summary_due s' = None"
      "\<And>p st. p < ZMK_BLE_PROFILE_COUNT c \<Longrightarrow> count_at p st s' = (count_at p st s1)\<lparr>dirty := False, count_error := 0\<rparr>"
    using flush_spec [OF inv, of persist now j b] by blast
  have "s2 = s'" using f assms(5) by (simp add: Let_def)
  moreover have "list_all (\<lambda>p. \<not> dirty (count_at p st s') \<and> count_error (count_at p st s') = 0
      \<and> total (count_at p st s') = total (count_at p st s) + of_nat (length (own_events p st evs))) [0..<ZMK_BLE_PROFILE_COUNT c]" for st
    by (simp add: list_all_iff s'(3) at bumps_fields)
  moreover have "(j2, b2) = (let j1 = fold (\<lambda>(t, a). totem_host_event_log_record_timing c now t a) (flush_calls c s1) j
      in if list_ex (\<lambda>(p, st). dirty (count_at p st s1)) (flush_order c) then persist (j1, b) else (j1, b))"
    using f assms(5) by (simp add: Let_def)
  moreover have "summary_due s1 = (case filter (\<lambda>(t, p, st, err). 0 \<le> p \<and> p < int (ZMK_BLE_PROFILE_COUNT c)) evs of
         [] \<Rightarrow> None | ev # _ \<Rightarrow> Some (fst ev + 5000))"
    using count_events_due [of c evs s] assms(3,4) by (simp add: in_profiles_def)
  ultimately show ?thesis using s'(2) by (simp add: flush_calls_def calls ex Let_def)
qed

theorem hid_summary_exact_witness:
  "let s1 = fold (count_one minimal_config) [(100, 1, QUEUED, 0), (130, 1, NOTIFY_FAILED, - 128), (140, 1, QUEUED, 0), (150, - 1, QUEUED, 0)]
             (hid_boot minimal_config);
       (s2, j2, b2) = flush_counts minimal_config (\<lambda>(j, b). (j, Suc b)) 5100 (s1, journal_boot minimal_config, 0 :: nat)
   in summary_due s1 = Some 5100 \<and> total (count_at 1 QUEUED s2) = 2 \<and> \<not> dirty (count_at 1 QUEUED s2) \<and> b2 = 1"
proof -
  let ?c = minimal_config and ?s = "hid_boot minimal_config"
  let ?evs = "[(100, 1, QUEUED, 0), (130, 1, NOTIFY_FAILED, - 128), (140, 1, QUEUED, 0), (150, - 1, QUEUED, 0)]"
  let ?f = "flush_counts ?c (\<lambda>(j, b). (j, Suc b)) 5100 (fold (count_one ?c) ?evs ?s, journal_boot ?c, 0 :: nat)"
  have n: "ZMK_BLE_PROFILE_COUNT ?c = 5" by (simp add: minimal_config_def totem_left_config_def)
  have at: "count_at p st ?s = zero_count" if "p < 5" for p st
    using that stage_num_less [of st] by (simp add: count_at_def hid_boot_def n)
  have clean: "\<not> dirty (count_at p st ?s) \<and> count_error (count_at p st ?s) = 0" if "p < ZMK_BLE_PROFILE_COUNT ?c" for p st
    using at [of p st] that by (simp add: n zero_count_def)
  have due: "summary_due ?s = None" by (simp add: hid_boot_def)
  obtain s2 j2 b2 where f: "?f = (s2, j2, b2)" by (metis prod_cases3)
  have own: "own_events 1 QUEUED ?evs = [(100, 0), (140, 0)]" "own_events (Suc 0) QUEUED ?evs = [(100, 0), (140, 0)]"
    by (simp_all add: own_events_def)
  have ex: "list_ex (\<lambda>(p, st). own_events p st ?evs \<noteq> []) (flush_order ?c)"
    unfolding list_ex_iff by (rule bexI [of _ "(1, QUEUED)"]) (simp_all add: own flush_order_facts(3) n)
  note main = hid_summary_exact [OF hid_inv_boot clean due refl f, simplified ex if_True]
  from main have "\<not> dirty (count_at 1 QUEUED s2) \<and> total (count_at 1 QUEUED s2) = 2"
    using at [of 1 QUEUED] by (simp add: list_all_iff n own zero_count_def)
  moreover from main have "summary_due (fold (count_one ?c) ?evs ?s) = Some 5100" by (simp add: n)
  moreover from main have "b2 = 1" by (simp add: Let_def)
  ultimately show ?thesis unfolding Let_def f prod.case by blast
qed

text \<open>Over all profiles: the number of reports counted at a stage, modulo 65536.\<close>

definition stage_sum :: "totem_config \<Rightarrow> hid_stage \<Rightarrow> hid_diag \<Rightarrow> u16" where
  "stage_sum c st s = (\<Sum>p<ZMK_BLE_PROFILE_COUNT c. total (count_at p st s))"

lemma stage_sum_count_event:
  assumes "hid_inv c s" and "in_profiles c p"
  shows "stage_sum c st' (count_event c now p st err s) = stage_sum c st' s + (if st' = st then 1 else 0)"
proof -
  have p: "nat p < ZMK_BLE_PROFILE_COUNT c" using assms(2) by (auto simp: in_profiles_def)
  have "total (count_at q st' (count_event c now p st err s))
      = total (count_at q st' s) + (if q = nat p then if st' = st then 1 else 0 else 0)" for q
    using assms by (simp add: count_event_at(2) bump_def)
  then have "stage_sum c st' (count_event c now p st err s)
      = (\<Sum>q<ZMK_BLE_PROFILE_COUNT c. total (count_at q st' s) + (if q = nat p then if st' = st then 1 else 0 else 0))"
    by (simp only: stage_sum_def)
  also have "\<dots> = stage_sum c st' s + (if st' = st then 1 else 0)"
    using p by (simp only: sum.distrib stage_sum_def sum.delta' sum.delta finite_lessThan lessThan_iff if_True)
  finally show ?thesis .
qed

lemma stage_sum_fields [simp]:
  "stage_sum c st (s\<lparr>dequeued_report := a\<rparr>) = stage_sum c st s" "stage_sum c st (s\<lparr>all_up_report := a\<rparr>) = stage_sum c st s"
  by (simp_all add: stage_sum_def)

section \<open>The report queue\<close>

text \<open>Calls on the keyboard report queue: the environment, the clock, and the report or the caller.\<close>

datatype msgq_call = Msgq_put ble_env int "u8 \<times> u8 list" | Msgq_get ble_env int bool

primrec msgq_call_step ::
  "(bool \<times> (u8 \<times> u8 list) \<Rightarrow> 'w \<Rightarrow> int \<times> 'w) \<Rightarrow> (bool \<Rightarrow> 'w \<Rightarrow> (int \<times> (u8 \<times> u8 list)) \<times> 'w) \<Rightarrow> totem_config
   \<Rightarrow> msgq_call \<Rightarrow> hid_diag \<times> 'w \<Rightarrow> hid_diag \<times> 'w" where
  "msgq_call_step put get c (Msgq_put e now report) sw = snd (wrap_z_impl_k_msgq_put put c e now (True, report) sw)"
| "msgq_call_step put get c (Msgq_get e now worker) sw = snd (wrap_z_impl_k_msgq_get get c e now worker True sw)"

primrec call_env :: "msgq_call \<Rightarrow> ble_env" where
  "call_env (Msgq_put e now report) = e"
| "call_env (Msgq_get e now worker) = e"

definition queue_balance :: "totem_config \<Rightarrow> ('w \<Rightarrow> nat) \<Rightarrow> hid_diag \<times> 'w \<Rightarrow> bool" where
  "queue_balance c qlen sw \<longleftrightarrow> hid_inv c (fst sw)
     \<and> stage_sum c QUEUED (fst sw) = stage_sum c DEQUEUED (fst sw) + stage_sum c EVICTED (fst sw) + of_nat (qlen (snd sw))"

lemma queue_balance_step:
  assumes put: "\<And>r w. if fst (put (True, r) w) = 0 then qlen (snd (put (True, r) w)) = qlen w + 1 else qlen (snd (put (True, r) w)) = qlen w"
    and get: "\<And>w. if fst (fst (get True w)) = 0 then qlen w = qlen (snd (get True w)) + 1 else qlen (snd (get True w)) = qlen w"
    and bal: "queue_balance c qlen sw" and rng: "in_profiles c (zmk_ble_active_profile_index (call_env x))"
  shows "queue_balance c qlen (msgq_call_step put get c x sw)"
proof -
  obtain s w where sw: "sw = (s, w)" by (cases sw)
  have inv: "hid_inv c s" using bal by (simp add: queue_balance_def sw)
  note ev = count_event_at(1) stage_sum_count_event
  show ?thesis
  proof (cases x)
    case (Msgq_put e now report)
    with put [of report w] bal inv rng show ?thesis
      by (auto simp: queue_balance_def sw wrap_z_impl_k_msgq_put_def msgq_put_observed_def Let_def case_prod_beta ev split: if_splits)
  next
    case (Msgq_get e now worker)
    with get [of w] bal inv rng show ?thesis
      by (auto simp: queue_balance_def sw wrap_z_impl_k_msgq_get_def msgq_get_observed_def Let_def case_prod_beta ev algebra_simps split: if_splits)
  qed
qed

text \<open>
  C35. No report is unaccounted for: if the message queue does what its documentation says (a put
  that returns 0 adds one report, a get that returns 0 removes one, a failing call changes
  nothing), then in every run from boot the reports queued are those sent to the worker, those
  evicted by other threads and those still in the queue (modulo 65536, over all profiles, while
  the selected profile is one of them).
\<close>

theorem hid_queue_balance:
  assumes "\<And>r w. if fst (put (True, r) w) = 0 then qlen (snd (put (True, r) w)) = qlen w + 1 else qlen (snd (put (True, r) w)) = qlen w"
    and "\<And>w. if fst (fst (get True w)) = 0 then qlen w = qlen (snd (get True w)) + 1 else qlen (snd (get True w)) = qlen w"
    and "list_all (\<lambda>x. 0 \<le> zmk_ble_active_profile_index (call_env x)
           \<and> zmk_ble_active_profile_index (call_env x) < int (ZMK_BLE_PROFILE_COUNT c)) xs"
    and "qlen w0 = 0" and "fold (msgq_call_step put get c) xs (hid_boot c, w0) = (s, w)"
  shows "stage_sum c QUEUED s = stage_sum c DEQUEUED s + stage_sum c EVICTED s + of_nat (qlen w)"
proof -
  have zero: "stage_sum c st (hid_boot c) = 0" for st
    using stage_num_less [of st] by (simp add: stage_sum_def count_at_def hid_boot_def zero_count_def)
  have run: "queue_balance c qlen sw \<Longrightarrow> list_all (\<lambda>x. in_profiles c (zmk_ble_active_profile_index (call_env x))) xs
      \<Longrightarrow> queue_balance c qlen (fold (msgq_call_step put get c) xs sw)" for sw
  proof (induction xs arbitrary: sw)
    case Nil
    then show ?case by simp
  next
    case (Cons x xs)
    then show ?case using Cons.IH [OF queue_balance_step [of put qlen get c sw x, OF assms(1,2)]] by simp
  qed
  have "queue_balance c qlen (hid_boot c, w0)" by (simp add: queue_balance_def hid_inv_boot zero assms(4))
  from run [OF this] assms(3,5) show ?thesis by (simp add: queue_balance_def in_profiles_def)
qed

definition hid_env :: "int \<Rightarrow> ble_env" where
  "hid_env active = \<lparr>k_uptime_get = 0, zmk_ble_active_profile_index = active, zmk_ble_active_profile_is_open = False,
     zmk_ble_active_profile_is_connected = True, zmk_ble_host_adv_suppressed = False, zmk_ble_profile_index = int,
     zmk_endpoint_selected_transport = ZMK_TRANSPORT_BLE, zmk_usb_is_powered = False, bt_conn_disconnect = (\<lambda>_ _. 0)\<rparr>"

definition demo_put :: "bool \<times> (u8 \<times> u8 list) \<Rightarrow> nat \<Rightarrow> int \<times> nat" where
  "demo_put a n = (if n < 2 then (0, n + 1) else (- 11, n))"

definition demo_get :: "bool \<Rightarrow> nat \<Rightarrow> (int \<times> (u8 \<times> u8 list)) \<times> nat" where
  "demo_get a n = (if 0 < n then ((0, (0, [])), n - 1) else ((- 42, (0, [])), n))"

definition demo_calls :: "msgq_call list" where
  "demo_calls = [Msgq_put (hid_env 0) 1 (0, [4]), Msgq_put (hid_env 1) 2 (0, []), Msgq_put (hid_env 1) 3 (0, [5]),
     Msgq_get (hid_env 1) 4 False, Msgq_put (hid_env 1) 5 (0, [5]), Msgq_get (hid_env 0) 6 True]"

theorem hid_queue_balance_witness:
  "let (s, w) = fold (msgq_call_step demo_put demo_get minimal_config) demo_calls (hid_boot minimal_config, 0)
   in w = 1 \<and> stage_sum minimal_config QUEUED s = stage_sum minimal_config DEQUEUED s + stage_sum minimal_config EVICTED s + 1
      \<and> stage_sum minimal_config QUEUED s = 3"
proof -
  let ?f = "fold (msgq_call_step demo_put demo_get minimal_config) demo_calls (hid_boot minimal_config, 0)"
  have laws: "\<And>r w. if fst (demo_put (True, r) w) = 0 then snd (demo_put (True, r) w) = w + 1 else snd (demo_put (True, r) w) = w"
    "\<And>w. if fst (fst (demo_get True w)) = 0 then w = snd (demo_get True w) + 1 else snd (demo_get True w) = w"
    by (simp_all add: demo_put_def demo_get_def)
  have rng: "list_all (\<lambda>x. 0 \<le> zmk_ble_active_profile_index (call_env x)
           \<and> zmk_ble_active_profile_index (call_env x) < int (ZMK_BLE_PROFILE_COUNT minimal_config)) demo_calls"
    by (simp add: demo_calls_def hid_env_def minimal_config_def totem_left_config_def)
  have w: "snd ?f = 1" "stage_sum minimal_config QUEUED (fst ?f) = 3" by code_simp+
  show ?thesis
    using hid_queue_balance [of demo_put "\<lambda>n. n" demo_get, OF laws rng refl prod.collapse [symmetric]] w
    by (simp add: case_prod_beta Let_def)
qed

section \<open>The wrappers are passive\<close>

interpretation release_call: passive_observer real "wrap_zmk_hid_release real usage_page c e now"
  for real :: "u32 \<Rightarrow> 'w \<Rightarrow> int \<times> 'w" and usage_page c e now
  by unfold_locales (simp add: wrap_zmk_hid_release_def Let_def case_prod_beta)

interpretation msgq_put_call: passive_observer real "wrap_z_impl_k_msgq_put real c e now"
  for real :: "bool \<times> (u8 \<times> u8 list) \<Rightarrow> 'w \<Rightarrow> int \<times> 'w" and c e now
  by unfold_locales (simp add: wrap_z_impl_k_msgq_put_def Let_def case_prod_beta)

interpretation msgq_get_call: passive_observer real "wrap_z_impl_k_msgq_get real c e now worker"
  for real :: "bool \<Rightarrow> 'w \<Rightarrow> (int \<times> (u8 \<times> u8 list)) \<times> 'w" and c e now worker
  by unfold_locales (simp add: wrap_z_impl_k_msgq_get_def Let_def case_prod_beta)

interpretation profile_conn_call: passive_observer real "wrap_zmk_ble_active_profile_conn real c e now worker"
  for real :: "unit \<Rightarrow> 'w \<Rightarrow> bt_conn option \<times> 'w" and c e now worker
  by unfold_locales (simp add: wrap_zmk_ble_active_profile_conn_def Let_def case_prod_beta)

interpretation notify_call: passive_observer real "wrap_bt_gatt_notify_cb real c now worker"
  for real :: "'a \<Rightarrow> 'w \<Rightarrow> int \<times> 'w" and c now worker
  by unfold_locales (simp add: wrap_bt_gatt_notify_cb_def Let_def case_prod_beta)

text \<open>
  Counting never changes the pipeline: over any sequence of calls, key release, queue put and
  get, the connection lookup and the notification return the same results and take the system
  through the same states as the real functions alone.
\<close>

lemma hid_wrappers_passive:
  fixes release :: "u32 \<Rightarrow> 'w \<Rightarrow> int \<times> 'w"
    and put :: "bool \<times> (u8 \<times> u8 list) \<Rightarrow> 'w \<Rightarrow> int \<times> 'w"
    and get :: "bool \<Rightarrow> 'w \<Rightarrow> (int \<times> (u8 \<times> u8 list)) \<times> 'w"
    and profile_conn :: "unit \<Rightarrow> 'w \<Rightarrow> bt_conn option \<times> 'w"
    and notify :: "'n \<Rightarrow> 'w \<Rightarrow> int \<times> 'w"
  shows "transparent release (wrap_zmk_hid_release release usage_page c e now)
    \<and> transparent put (wrap_z_impl_k_msgq_put put c e now)
    \<and> transparent get (wrap_z_impl_k_msgq_get get c e now worker)
    \<and> transparent profile_conn (wrap_zmk_ble_active_profile_conn profile_conn c e now worker)
    \<and> transparent notify (wrap_bt_gatt_notify_cb notify c now worker)"
  by (intro conjI release_call.wrap_transparent msgq_put_call.wrap_transparent msgq_get_call.wrap_transparent profile_conn_call.wrap_transparent notify_call.wrap_transparent)

end
