(* ===== verification/Hid_Connection_Log.thy ===== *)
theory Hid_Connection_Log
  imports Hid_Report_Diagnostics
begin

text \<open>
  First events of a connection, \<open>src/hid_connection_log.c\<close>: one bit per connection slot and kind of
  event keeps the journal to the first subscription, the first report, the first error and the
  first security request, and keeps at most one send-completion callback in flight. What the
  handlers hand to the journal is appended, with the clock, to \<open>cl_out\<close>.
\<close>

section \<open>State\<close>

datatype conn_log_call =
    Log_record log_call
  | Log_record_timing log_call

record conn_log =
  first_attempts :: "bool list"
  first_subscriptions :: "bool list"
  first_errors :: "bool list"
  tracked_sends :: "bool list"
  first_security_requests :: "bool list"
  cl_hid :: hid_diag
  cl_out :: "(int \<times> conn_log_call) list"

definition conn_log_boot :: "totem_config \<Rightarrow> conn_log" where
  "conn_log_boot c = (let none = replicate (CONFIG_BT_MAX_CONN c) False in
     \<lparr>first_attempts = none, first_subscriptions = none, first_errors = none, tracked_sends = none,
      first_security_requests = none, cl_hid = hid_boot c, cl_out = []\<rparr>)"

definition cl_emit :: "int \<Rightarrow> conn_log_call \<Rightarrow> conn_log \<Rightarrow> conn_log" where
  "cl_emit now x s = s\<lparr>cl_out := cl_out s @ [(now, x)]\<rparr>"

definition totem_diag_log_record :: "totem_host_evt \<Rightarrow> i8 \<Rightarrow> i8 \<Rightarrow> u8 \<Rightarrow> u8 \<Rightarrow> conn_log_call" where
  "totem_diag_log_record t idx active reason extra = Log_record (log_args t idx active reason 0 extra)"

section \<open>Handlers\<close>

definition peer_idx :: "ble_env \<Rightarrow> bt_conn \<Rightarrow> i8" where
  "peer_idx e conn = to_i8 (zmk_ble_profile_index e (conn_dst conn))"

definition active_idx :: "ble_env \<Rightarrow> i8" where
  "active_idx e = to_i8 (zmk_ble_active_profile_index e)"

definition zmk_ble_advertising_observed :: "ble_env \<Rightarrow> u8 \<Rightarrow> int \<Rightarrow> conn_log \<Rightarrow> conn_log" where
  "zmk_ble_advertising_observed e stage err s =
     cl_emit (k_uptime_get e) (Log_record (log_args TOTEM_HEVT_ADV_RESULT (active_idx e) (active_idx e) stage (err_class err)
       (to_u8 (if err < 0 then - err else err)))) s"

text \<open>\<open>bt_conn_set_security\<close>: the wrapper before and after the real call.\<close>

definition security_requested :: "ble_env \<Rightarrow> bt_conn \<times> u8 \<Rightarrow> conn_log \<Rightarrow> bool \<times> conn_log" where
  "security_requested e arg s =
     (let (conn, sec) = arg; i = conn_index conn;
          trace = (\<not> first_security_requests s ! i);
          s1 = s\<lparr>first_security_requests := (first_security_requests s)[i := True]\<rparr>
      in (trace, if trace
                 then cl_emit (k_uptime_get e) (totem_diag_log_record TOTEM_HEVT_SEC_REQUEST (peer_idx e conn) (active_idx e)
                        sec (of_nat (conn_security conn))) s1
                 else s1))"

definition security_returned :: "ble_env \<Rightarrow> int \<Rightarrow> bt_conn \<times> u8 \<Rightarrow> bool \<Rightarrow> int \<Rightarrow> conn_log \<Rightarrow> conn_log" where
  "security_returned e now arg trace err s =
     (let (conn, sec) = arg in
      if trace
      then cl_emit now (Log_record (log_args TOTEM_HEVT_SEC_REQUEST_RESULT (peer_idx e conn) (active_idx e) sec (err_class err)
             (to_u8 (if err < 0 then - err else err)))) s
      else s)"

definition wrap_bt_conn_set_security ::
  "(bt_conn \<times> u8 \<Rightarrow> 'w \<Rightarrow> int \<times> 'w) \<Rightarrow> ble_env \<Rightarrow> int \<Rightarrow> bt_conn \<times> u8 \<Rightarrow> conn_log \<times> 'w \<Rightarrow> int \<times> conn_log \<times> 'w" where
  "wrap_bt_conn_set_security real e now' arg sw =
     (let (s, w) = sw;
          (trace, s1) = security_requested e arg s;
          (err, w') = real arg w
      in (err, security_returned e now' arg trace err s1, w'))"

definition zmk_hog_subscription_observed :: "ble_env \<Rightarrow> bt_conn \<Rightarrow> conn_log \<Rightarrow> conn_log" where
  "zmk_hog_subscription_observed e conn s =
     (let i = conn_index conn; s1 = s\<lparr>first_subscriptions := (first_subscriptions s)[i := True]\<rparr>
      in if \<not> first_subscriptions s ! i
         then cl_emit (k_uptime_get e) (totem_diag_log_record TOTEM_HEVT_HID_SUBSCRIBED (peer_idx e conn) (active_idx e) 0 0) s1
         else s1)"

text \<open>The result says whether the caller shall ask for a completion callback.\<close>

definition zmk_hog_keyboard_report_attempted :: "totem_config \<Rightarrow> ble_env \<Rightarrow> bt_conn \<Rightarrow> bool \<Rightarrow> conn_log \<Rightarrow> bool \<times> conn_log" where
  "zmk_hog_keyboard_report_attempted c e conn subscribed s0 =
     (let i = conn_index conn;
          s1 = s0\<lparr>cl_hid := totem_hid_report_observed c e (k_uptime_get e) conn subscribed (cl_hid s0)\<rparr>;
          s2 = s1\<lparr>first_attempts := (first_attempts s1)[i := True]\<rparr>;
          s3 = (if \<not> first_attempts s1 ! i
                then cl_emit (k_uptime_get e) (totem_diag_log_record TOTEM_HEVT_HID_FIRST_ATTEMPT (peer_idx e conn) (active_idx e)
                       0 (bool_u8 subscribed)) s2
                else s2)
      in (\<not> tracked_sends s3 ! i, s3\<lparr>tracked_sends := (tracked_sends s3)[i := True]\<rparr>))"

definition zmk_hog_keyboard_report_result :: "ble_env \<Rightarrow> bt_conn \<Rightarrow> int \<Rightarrow> conn_log \<Rightarrow> conn_log" where
  "zmk_hog_keyboard_report_result e conn err s =
     (let slot = conn_index conn;
          record_result = cl_emit (k_uptime_get e) (totem_diag_log_record TOTEM_HEVT_HID_TX_RESULT (peer_idx e conn) (active_idx e)
                            (to_u8 (if err \<noteq> 0 then - err else 0)) (bool_u8 (err \<noteq> 0)))
      in if err \<noteq> 0
         then
           let s1 = s\<lparr>tracked_sends := (tracked_sends s)[slot := False],
                      first_errors := (first_errors s)[slot := True]\<rparr>
           in if first_errors s ! slot then s1 else record_result s1
         else record_result s)"

definition hid_log_connected :: "ble_env \<Rightarrow> (bt_conn \<Rightarrow> u16 option) \<Rightarrow> bt_conn \<Rightarrow> u8 \<Rightarrow> conn_log \<Rightarrow> conn_log" where
  "hid_log_connected e get_handle conn err s =
     (if err \<noteq> 0 then s
      else
        let i = conn_index conn;
            s1 = (case get_handle conn of
                    None \<Rightarrow> s
                  | Some handle \<Rightarrow> cl_emit (k_uptime_get e) (Log_record_timing (log_args TOTEM_HEVT_CONN_HANDLE (peer_idx e conn)
                      (active_idx e) (ucast handle) 0 (ucast (drop_bit 8 handle)))) s)
        in s1\<lparr>first_attempts := (first_attempts s1)[i := False],
              first_subscriptions := (first_subscriptions s1)[i := False],
              first_errors := (first_errors s1)[i := False],
              tracked_sends := (tracked_sends s1)[i := False]\<rparr>)"

definition security_log_disconnected :: "bt_conn \<Rightarrow> conn_log \<Rightarrow> conn_log" where
  "security_log_disconnected conn s =
     s\<lparr>first_security_requests := (first_security_requests s)[conn_index conn := False]\<rparr>"

interpretation set_security_call: passive_observer real "wrap_bt_conn_set_security real e now'"
  for real :: "bt_conn \<times> u8 \<Rightarrow> 'w \<Rightarrow> int \<times> 'w" and e now'
  by unfold_locales (simp add: wrap_bt_conn_set_security_def Let_def case_prod_beta)

section \<open>Runs\<close>

datatype conn_op =
    C_adv u8 int
  | C_security_enter bt_conn u8
  | C_security_return bt_conn u8 bool int
  | C_subscribed bt_conn
  | C_attempted bt_conn bool
  | C_result bt_conn int
  | C_connected bt_conn u8 "u16 option"
  | C_disconnected bt_conn

primrec conn_op_step :: "totem_config \<Rightarrow> ble_env \<Rightarrow> conn_op \<Rightarrow> conn_log \<Rightarrow> conn_log" where
  "conn_op_step c e (C_adv stage err) s = zmk_ble_advertising_observed e stage err s"
| "conn_op_step c e (C_security_enter conn sec) s = snd (security_requested e (conn, sec) s)"
| "conn_op_step c e (C_security_return conn sec trace err) s = security_returned e (k_uptime_get e) (conn, sec) trace err s"
| "conn_op_step c e (C_subscribed conn) s = zmk_hog_subscription_observed e conn s"
| "conn_op_step c e (C_attempted conn subscribed) s = snd (zmk_hog_keyboard_report_attempted c e conn subscribed s)"
| "conn_op_step c e (C_result conn err) s = zmk_hog_keyboard_report_result e conn err s"
| "conn_op_step c e (C_connected conn err handle) s = hid_log_connected e (\<lambda>_. handle) conn err s"
| "conn_op_step c e (C_disconnected conn) s = security_log_disconnected conn s"

section \<open>Each latch lets one event through\<close>

type_synonym conn_event = "ble_env \<times> conn_op"

definition conn_run_step :: "totem_config \<Rightarrow> conn_event \<Rightarrow> conn_log \<Rightarrow> conn_log" where
  "conn_run_step c ev = conn_op_step c (fst ev) (snd ev)"

definition conn_time :: "conn_event \<Rightarrow> int" where
  "conn_time ev = k_uptime_get (fst ev)"

text \<open>A slot exists in every bit array.\<close>

definition slot_inv :: "nat \<Rightarrow> conn_log \<Rightarrow> bool" where
  "slot_inv i s \<longleftrightarrow> i < length (first_attempts s) \<and> i < length (first_subscriptions s) \<and> i < length (first_errors s)
     \<and> i < length (tracked_sends s) \<and> i < length (first_security_requests s)"

text \<open>
  What can be seen of a handler on slot \<open>i\<close>: it hands a record to the journal, or it asks for a
  completion callback.
\<close>

definition journals :: "totem_config \<Rightarrow> (conn_op \<Rightarrow> bool) \<Rightarrow> conn_event \<Rightarrow> conn_log \<Rightarrow> bool" where
  "journals c P ev s \<longleftrightarrow> P (snd ev) \<and> length (cl_out s) < length (cl_out (conn_run_step c ev s))"

fun subscribes :: "nat \<Rightarrow> conn_op \<Rightarrow> bool" where
  "subscribes i (C_subscribed conn) = (conn_index conn = i)"
| "subscribes i _ = False"

fun attempts :: "nat \<Rightarrow> conn_op \<Rightarrow> bool" where
  "attempts i (C_attempted conn subscribed) = (conn_index conn = i)"
| "attempts i _ = False"

fun fails :: "nat \<Rightarrow> conn_op \<Rightarrow> bool" where
  "fails i (C_result conn err) = (conn_index conn = i \<and> err \<noteq> 0)"
| "fails i _ = False"

fun asks_security :: "nat \<Rightarrow> conn_op \<Rightarrow> bool" where
  "asks_security i (C_security_enter conn sec) = (conn_index conn = i)"
| "asks_security i _ = False"

fun reconnects :: "nat \<Rightarrow> conn_op \<Rightarrow> bool" where
  "reconnects i (C_connected conn err handle) = (conn_index conn = i \<and> err = 0)"
| "reconnects i _ = False"

fun drops :: "nat \<Rightarrow> conn_op \<Rightarrow> bool" where
  "drops i (C_disconnected conn) = (conn_index conn = i)"
| "drops i _ = False"

fun asks_callback :: "totem_config \<Rightarrow> nat \<Rightarrow> conn_event \<Rightarrow> conn_log \<Rightarrow> bool" where
  "asks_callback c i (e, C_attempted conn subscribed) s =
     (conn_index conn = i \<and> fst (zmk_hog_keyboard_report_attempted c e conn subscribed s))"
| "asks_callback c i _ s = False"

lemma cl_emit_fields [simp]:
  "first_attempts (cl_emit now x s) = first_attempts s" "first_subscriptions (cl_emit now x s) = first_subscriptions s"
  "first_errors (cl_emit now x s) = first_errors s" "tracked_sends (cl_emit now x s) = tracked_sends s"
  "first_security_requests (cl_emit now x s) = first_security_requests s" "cl_out (cl_emit now x s) = cl_out s @ [(now, x)]"
  by (simp_all add: cl_emit_def)

lemmas handler_defs = zmk_ble_advertising_observed_def security_requested_def security_returned_def
  zmk_hog_subscription_observed_def zmk_hog_keyboard_report_attempted_def zmk_hog_keyboard_report_result_def
  hid_log_connected_def security_log_disconnected_def

lemma conn_op_lengths:
  "length (first_attempts (conn_op_step c e x s)) = length (first_attempts s)
   \<and> length (first_subscriptions (conn_op_step c e x s)) = length (first_subscriptions s)
   \<and> length (first_errors (conn_op_step c e x s)) = length (first_errors s)
   \<and> length (tracked_sends (conn_op_step c e x s)) = length (tracked_sends s)
   \<and> length (first_security_requests (conn_op_step c e x s)) = length (first_security_requests s)"
  by (cases x) (simp_all add: handler_defs Let_def split: option.split)

lemma slot_inv_step: "slot_inv i s \<Longrightarrow> slot_inv i (conn_run_step c ev s)"
  using conn_op_lengths [of c "fst ev" "snd ev" s] by (simp add: slot_inv_def conn_run_step_def)

lemma slot_inv_boot: "i < CONFIG_BT_MAX_CONN c \<Longrightarrow> slot_inv i (conn_log_boot c)"
  by (simp add: slot_inv_def conn_log_boot_def Let_def)

text \<open>What a step does to the five bits of a slot, and when it hands something to the journal.\<close>

lemma nth_update: "i < length xs \<Longrightarrow> xs[k := b] ! i = (if k = i then b else xs ! i)"
  by (cases "k = i") simp_all

lemma latch_updates:
  assumes "slot_inv i s"
  shows "first_subscriptions (conn_op_step c e x s) ! i
      = (subscribes i x \<or> first_subscriptions s ! i \<and> \<not> reconnects i x)"
    and "first_attempts (conn_op_step c e x s) ! i = (attempts i x \<or> first_attempts s ! i \<and> \<not> reconnects i x)"
    and "first_errors (conn_op_step c e x s) ! i = (fails i x \<or> first_errors s ! i \<and> \<not> reconnects i x)"
    and "first_security_requests (conn_op_step c e x s) ! i
      = (asks_security i x \<or> first_security_requests s ! i \<and> \<not> drops i x)"
    and "tracked_sends (conn_op_step c e x s) ! i
      = (attempts i x \<or> tracked_sends s ! i \<and> \<not> reconnects i x \<and> \<not> fails i x)"
  using assms by (cases x; auto simp: slot_inv_def handler_defs Let_def nth_update split: option.split if_splits)+

lemma latch_outputs:
  "subscribes i x \<Longrightarrow> length (cl_out s) < length (cl_out (conn_op_step c e x s)) \<longleftrightarrow> \<not> first_subscriptions s ! i"
  "attempts i x \<Longrightarrow> length (cl_out s) < length (cl_out (conn_op_step c e x s)) \<longleftrightarrow> \<not> first_attempts s ! i"
  "fails i x \<Longrightarrow> length (cl_out s) < length (cl_out (conn_op_step c e x s)) \<longleftrightarrow> \<not> first_errors s ! i"
  "asks_security i x \<Longrightarrow> length (cl_out s) < length (cl_out (conn_op_step c e x s)) \<longleftrightarrow> \<not> first_security_requests s ! i"
  by (cases x; simp add: handler_defs Let_def)+

lemma asks_callback_iff: "asks_callback c i ev s \<longleftrightarrow> attempts i (snd ev) \<and> \<not> tracked_sends s ! i"
  by (cases ev; cases "snd ev") (auto simp: zmk_hog_keyboard_report_attempted_def Let_def)

lemmas latch_simps = journals_def conn_run_step_def latch_updates latch_outputs asks_callback_iff

interpretation subscription_latch: one_shot "conn_run_step c" "journals c (subscribes i)" "\<lambda>ev. reconnects i (snd ev)"
    "\<lambda>s. first_subscriptions s ! i" "slot_inv i" for c i
  by unfold_locales (auto simp: latch_simps intro: slot_inv_step [unfolded conn_run_step_def])

interpretation attempt_latch: one_shot "conn_run_step c" "journals c (attempts i)" "\<lambda>ev. reconnects i (snd ev)"
    "\<lambda>s. first_attempts s ! i" "slot_inv i" for c i
  by unfold_locales (auto simp: latch_simps intro: slot_inv_step [unfolded conn_run_step_def])

interpretation error_latch: one_shot "conn_run_step c" "journals c (fails i)" "\<lambda>ev. reconnects i (snd ev)"
    "\<lambda>s. first_errors s ! i" "slot_inv i" for c i
  by unfold_locales (auto simp: latch_simps intro: slot_inv_step [unfolded conn_run_step_def])

interpretation security_latch: one_shot "conn_run_step c" "journals c (asks_security i)" "\<lambda>ev. drops i (snd ev)"
    "\<lambda>s. first_security_requests s ! i" "slot_inv i" for c i
  by unfold_locales (auto simp: latch_simps intro: slot_inv_step [unfolded conn_run_step_def])

interpretation callback_latch: one_shot "conn_run_step c" "asks_callback c i" "\<lambda>ev. reconnects i (snd ev) \<or> fails i (snd ev)"
    "\<lambda>s. tracked_sends s ! i" "slot_inv i" for c i
  by unfold_locales (auto simp: latch_simps intro: slot_inv_step [unfolded conn_run_step_def])

section \<open>Properties\<close>

text \<open>
  A connection's milestones are journalled once: in any run of the handlers in which the
  connection of a slot is not replaced, its first subscription, its first report attempt and its
  first failed send are each handed to the journal at most once, however many follow; its first
  security request likewise until it disconnects; and no second completion callback is requested
  while one is out (until a send fails or the slot is reused).
\<close>

theorem first_events_once:
  assumes "slot_inv i s" and "list_all (\<lambda>ev. \<not> reconnects i (snd ev)) evs"
  shows "length (fire_times (conn_run_step c) conn_time (journals c (subscribes i)) evs s) \<le> 1
    \<and> length (fire_times (conn_run_step c) conn_time (journals c (attempts i)) evs s) \<le> 1
    \<and> length (fire_times (conn_run_step c) conn_time (journals c (fails i)) evs s) \<le> 1
    \<and> (list_all (\<lambda>ev. \<not> drops i (snd ev)) evs \<longrightarrow>
         length (fire_times (conn_run_step c) conn_time (journals c (asks_security i)) evs s) \<le> 1)
    \<and> (list_all (\<lambda>ev. \<not> fails i (snd ev)) evs \<longrightarrow>
         length (fire_times (conn_run_step c) conn_time (asks_callback c i) evs s) \<le> 1)"
proof -
  have cb: "list_all (\<lambda>ev. \<not> (reconnects i (snd ev) \<or> fails i (snd ev))) evs" if "list_all (\<lambda>ev. \<not> fails i (snd ev)) evs"
    using that assms(2) by (simp add: list_all_iff)
  show ?thesis
    by (intro conjI impI subscription_latch.fires_once attempt_latch.fires_once error_latch.fires_once
        security_latch.fires_once callback_latch.fires_once assms cb)
qed

definition demo_peer :: bt_conn where
  "demo_peer = \<lparr>conn_index = 2, conn_dst = 1, conn_info = None, conn_security = 1\<rparr>"

theorem first_events_once_witness:
  "let evs = map (\<lambda>x. (hid_env 1, x)) [C_subscribed demo_peer, C_attempted demo_peer True, C_subscribed demo_peer,
         C_attempted demo_peer True, C_result demo_peer (- 128), C_result demo_peer (- 128)]
   in length (fire_times (conn_run_step totem_left_config) conn_time (journals totem_left_config (fails 2)) evs (conn_log_boot totem_left_config)) \<le> 1
    \<and> fire_times (conn_run_step totem_left_config) conn_time (journals totem_left_config (subscribes 2)) evs (conn_log_boot totem_left_config) = [0]"
proof -
  let ?evs = "map (\<lambda>x. (hid_env 1, x)) [C_subscribed demo_peer, C_attempted demo_peer True, C_subscribed demo_peer,
         C_attempted demo_peer True, C_result demo_peer (- 128), C_result demo_peer (- 128)]"
  have i: "slot_inv 2 (conn_log_boot totem_left_config)" by (rule slot_inv_boot) (simp add: totem_left_config_def)
  have n: "list_all (\<lambda>ev. \<not> reconnects 2 (snd ev)) ?evs" by simp
  have t: "fire_times (conn_run_step totem_left_config) conn_time (journals totem_left_config (subscribes 2)) ?evs
      (conn_log_boot totem_left_config) = [0]" by code_simp
  show ?thesis using first_events_once [OF i n, of totem_left_config] t by (simp only: Let_def)
qed

end
