(* ===== verification/Endpoint_Log.thy ===== *)
theory Endpoint_Log
  imports Platform Format
begin

text \<open>
  Console reports without an effect on the keyboard: the endpoint log, \<open>src/totem_endpoint_log.c\<close>,
  which prints the selected and the preferred endpoint whenever one of them changes, and the
  connection parameter log, \<open>src/conn_params_log.c\<close>. Lines are strings without the newline.
\<close>

section \<open>Endpoint log\<close>

text \<open>
  \<open>zmk_endpoint_instance\<close> is ZMK's: its values are the type \<open>'ep\<close>, its comparison and its text
  (\<open>None\<close> when the conversion fails) are parameters.
\<close>

record 'ep ep_ops =
  zmk_endpoint_instance_eq :: "'ep \<Rightarrow> 'ep \<Rightarrow> bool"
  zmk_endpoint_instance_to_str :: "'ep \<Rightarrow> string option"

record 'ep ep_log =
  last_selected :: 'ep
  last_preferred :: 'ep
  have_last :: bool
  totem_endpoint_boot_work :: "int option"
  totem_endpoint_poll_work :: "int option"
  ep_lines :: "string list"

definition endpoint_text :: "'ep ep_ops \<Rightarrow> 'ep \<Rightarrow> string" where
  "endpoint_text z x = (case zmk_endpoint_instance_to_str z x of None \<Rightarrow> ''?'' | Some t \<Rightarrow> t)"

definition endpoint_line :: "'ep ep_ops \<Rightarrow> string \<Rightarrow> 'ep \<times> 'ep \<Rightarrow> string" where
  "endpoint_line z why sp =
     ''totem_ep '' @ why @ '' selected='' @ endpoint_text z (fst sp) @ '' preferred='' @ endpoint_text z (snd sp)
     @ (if zmk_endpoint_instance_eq z (fst sp) (snd sp) then [] else ''  FALLBACK'')"

text \<open>\<open>sp\<close> are the selected and the preferred endpoint that ZMK returns.\<close>

definition totem_print_endpoints :: "'ep ep_ops \<Rightarrow> 'ep \<times> 'ep \<Rightarrow> string \<Rightarrow> bool \<Rightarrow> 'ep ep_log \<Rightarrow> 'ep ep_log" where
  "totem_print_endpoints z sp why force s =
     (if \<not> force \<and> have_last s \<and> zmk_endpoint_instance_eq z (fst sp) (last_selected s)
         \<and> zmk_endpoint_instance_eq z (snd sp) (last_preferred s)
      then s
      else s\<lparr>last_selected := fst sp, last_preferred := snd sp, have_last := True,
             ep_lines := ep_lines s @ [endpoint_line z why sp]\<rparr>)"

definition totem_endpoint_poll_handler :: "'ep ep_ops \<Rightarrow> 'ep \<times> 'ep \<Rightarrow> 'ep ep_log \<Rightarrow> 'ep ep_log" where
  "totem_endpoint_poll_handler z sp s = (totem_print_endpoints z sp ''changed'' False s)\<lparr>totem_endpoint_poll_work := Some 1000\<rparr>"

text \<open>The listener is called with every event it may see; others than endpoint changes are ignored.\<close>

definition totem_endpoint_changed_listener :: "'ep ep_ops \<Rightarrow> 'ep \<times> 'ep \<Rightarrow> bool \<Rightarrow> 'ep ep_log \<Rightarrow> 'ep ep_log" where
  "totem_endpoint_changed_listener z sp is_endpoint_change s =
     (if is_endpoint_change then totem_print_endpoints z sp ''changed'' False s else s)"

definition totem_endpoint_boot_work_handler :: "'ep ep_ops \<Rightarrow> 'ep \<times> 'ep \<Rightarrow> 'ep ep_log \<Rightarrow> 'ep ep_log" where
  "totem_endpoint_boot_work_handler z sp s = totem_print_endpoints z sp ''boot'' True s"

definition totem_endpoint_log_init :: "totem_config \<Rightarrow> 'ep ep_log \<Rightarrow> 'ep ep_log" where
  "totem_endpoint_log_init c s =
     s\<lparr>totem_endpoint_boot_work := Some (CONFIG_TOTEM_BOOT_PROFILE_DUMP_DELAY_MS c),
       totem_endpoint_poll_work := Some (CONFIG_TOTEM_BOOT_PROFILE_DUMP_DELAY_MS c + 1000)\<rparr>"

text \<open>One sample: a poll, or an endpoint event.\<close>

definition endpoint_sample :: "'ep ep_ops \<Rightarrow> bool \<times> 'ep \<times> 'ep \<Rightarrow> 'ep ep_log \<Rightarrow> 'ep ep_log" where
  "endpoint_sample z x s =
     (if fst x then totem_endpoint_poll_handler z (snd x) s else totem_endpoint_changed_listener z (snd x) True s)"

lemma samples_report_changes:
  assumes eq: "\<And>a b. zmk_endpoint_instance_eq z a b \<longleftrightarrow> a = b"
  shows "have_last s \<Longrightarrow> ep_lines (fold (endpoint_sample z) xs s)
    = ep_lines s @ map (endpoint_line z ''changed'') (tl (remdups_adj ((last_selected s, last_preferred s) # map snd xs)))"
proof (induction xs arbitrary: s)
  case Nil
  then show ?case by simp
next
  case (Cons x xs)
  let ?s = "endpoint_sample z x s" and ?last = "(last_selected s, last_preferred s)"
  show ?case
  proof (cases "snd x = ?last")
    case True
    then have "have_last ?s" "ep_lines ?s = ep_lines s" "(last_selected ?s, last_preferred ?s) = ?last"
      using Cons.prems eq
      by (simp_all add: endpoint_sample_def totem_endpoint_poll_handler_def totem_endpoint_changed_listener_def
          totem_print_endpoints_def)
    with Cons.IH [of ?s] True show ?thesis by simp
  next
    case False
    then have "have_last ?s" "ep_lines ?s = ep_lines s @ [endpoint_line z ''changed'' (snd x)]"
      "(last_selected ?s, last_preferred ?s) = snd x"
      using Cons.prems eq
      by (auto simp: endpoint_sample_def totem_endpoint_poll_handler_def totem_endpoint_changed_listener_def
          totem_print_endpoints_def prod_eq_iff)
    with Cons.IH [of ?s] have "ep_lines (fold (endpoint_sample z) (x # xs) s)
        = ep_lines s @ map (endpoint_line z ''changed'') (snd x # tl (remdups_adj (snd x # map snd xs)))"
      by (simp del: remdups_adj_Cons_alt)
    also have "snd x # tl (remdups_adj (snd x # map snd xs)) = tl (remdups_adj (?last # map snd (x # xs)))"
      using False by simp
    finally show ?thesis .
  qed
qed

section \<open>Connection parameter log\<close>

text \<open>\<open>to_str\<close> is \<open>bt_addr_le_to_str\<close>; the result is the line to print, if any.\<close>

definition print_params :: "(bt_addr \<Rightarrow> string) \<Rightarrow> bt_conn \<Rightarrow> string \<Rightarrow> string option" where
  "print_params to_str conn why =
     (case conn_info conn of
        None \<Rightarrow> None
      | Some info \<Rightarrow>
          if \<not> info_le info then None
          else Some (''totem_ble conn_params '' @ why @ '' addr='' @ to_str (conn_dst conn)
                 @ '' role='' @ fmt_d (role_num (info_role info)) @ '' interval='' @ fmt_u (info_interval info)
                 @ '' latency='' @ fmt_u (info_latency info) @ '' timeout='' @ fmt_u (info_timeout info)))"

definition conn_params_connected :: "(bt_addr \<Rightarrow> string) \<Rightarrow> bt_conn \<Rightarrow> u8 \<Rightarrow> string option" where
  "conn_params_connected to_str conn err = (if err = 0 then print_params to_str conn ''connected'' else None)"

definition conn_params_updated :: "(bt_addr \<Rightarrow> string) \<Rightarrow> bt_conn \<Rightarrow> u16 \<Rightarrow> u16 \<Rightarrow> u16 \<Rightarrow> string option" where
  "conn_params_updated to_str conn interval latency timeout = print_params to_str conn ''updated''"

section \<open>Properties\<close>

text \<open>
  The endpoint log shows every change and nothing else: after the boot report, the lines are
  those of the sequence of sampled pairs (selected, preferred), from polls and from endpoint events
  in any order, with consecutive repetitions removed; each line is marked as a fallback exactly
  when the two endpoints differ.
\<close>

theorem endpoint_changes_reported:
  assumes "\<And>a b. zmk_endpoint_instance_eq z a b \<longleftrightarrow> a = b"
  shows "ep_lines (fold (endpoint_sample z) xs (totem_endpoint_boot_work_handler z sp s))
    = ep_lines s @ endpoint_line z ''boot'' sp
        # map (\<lambda>(sel, pref). ''totem_ep changed selected='' @ endpoint_text z sel @ '' preferred='' @ endpoint_text z pref
                 @ (if sel = pref then [] else ''  FALLBACK''))
            (tl (remdups_adj (sp # map snd xs)))"
proof -
  let ?b = "totem_endpoint_boot_work_handler z sp s"
  have b: "have_last ?b" "(last_selected ?b, last_preferred ?b) = sp" "ep_lines ?b = ep_lines s @ [endpoint_line z ''boot'' sp]"
    by (simp_all add: totem_endpoint_boot_work_handler_def totem_print_endpoints_def)
  have "endpoint_line z ''changed'' = (\<lambda>(sel, pref). ''totem_ep changed selected='' @ endpoint_text z sel
      @ '' preferred='' @ endpoint_text z pref @ (if sel = pref then [] else ''  FALLBACK''))"
    by (rule ext) (simp add: endpoint_line_def assms case_prod_beta)
  with samples_report_changes [OF assms b(1), of xs] b show ?thesis by simp
qed

text \<open>
  USB is 0 and BLE is 1; USB stays selected while the preference moves to BLE, then BLE takes over.
\<close>

theorem endpoint_changes_reported_witness:
  "let z = \<lparr>zmk_endpoint_instance_eq = (=), zmk_endpoint_instance_to_str = (\<lambda>n. if n = (0 :: nat) then Some ''USB'' else None)\<rparr>;
       s = \<lparr>last_selected = 0, last_preferred = 0, have_last = False, totem_endpoint_boot_work = None,
            totem_endpoint_poll_work = None, ep_lines = []\<rparr>
   in ep_lines (fold (endpoint_sample z) [(True, 0, 0), (True, 0, 1), (True, 0, 1), (False, 1, 1)]
        (totem_endpoint_boot_work_handler z (0, 0) s))
      = [''totem_ep boot selected=USB preferred=USB'', ''totem_ep changed selected=USB preferred=?  FALLBACK'',
         ''totem_ep changed selected=? preferred=?'']"
proof -
  let ?z = "\<lparr>zmk_endpoint_instance_eq = (=), zmk_endpoint_instance_to_str = (\<lambda>n. if n = (0 :: nat) then Some ''USB'' else None)\<rparr>"
  have "\<And>a b. zmk_endpoint_instance_eq ?z a b \<longleftrightarrow> a = b" by simp
  note th = endpoint_changes_reported [OF this]
  show ?thesis unfolding Let_def th by (simp add: endpoint_line_def endpoint_text_def)
qed

end
