(* ===== verification/Studio_Usb.thy ===== *)
theory Studio_Usb
  imports Platform
begin

text \<open>
  Studio's USB preference, \<open>src/totem_studio_usb.c\<close>: while the cable is in, a work item asks ZMK to
  prefer the USB endpoint and retries a bounded number of times until USB is the selected one. The
  work item is the pending delay in milliseconds. Console lines are not modelled.
\<close>

section \<open>State\<close>

text \<open>\<open>SU_prefer\<close> carries the result of \<open>zmk_endpoint_set_preferred_transport\<close>.\<close>

datatype studio_usb_effect =
    SU_adv_wake
  | SU_uart_rearm
  | SU_prefer zmk_transport int
  | SU_log log_call

record studio_usb =
  tries :: u8
  totem_studio_usb_work :: "int option"
  su_out :: "studio_usb_effect list"

definition su_emit :: "studio_usb_effect list \<Rightarrow> studio_usb \<Rightarrow> studio_usb" where
  "su_emit xs s = s\<lparr>su_out := su_out s @ xs\<rparr>"

text \<open>
  What the handler's calls return: whether the cable is in, the result of setting the preference
  and the transport that is selected after it.
\<close>

record studio_usb_env =
  su_powered :: bool
  su_prefer_err :: int
  su_selected :: zmk_transport

section \<open>Handlers\<close>

text \<open>The work item is no longer pending when its handler runs.\<close>

definition totem_studio_prefer_usb :: "studio_usb_env \<Rightarrow> studio_usb \<Rightarrow> studio_usb" where
  "totem_studio_prefer_usb e s =
     (if \<not> su_powered e then su_emit [SU_adv_wake] (s\<lparr>tries := 0\<rparr>)
      else
        let s1 = su_emit [SU_uart_rearm, SU_prefer ZMK_TRANSPORT_USB (su_prefer_err e)] s in
        if su_selected e = ZMK_TRANSPORT_USB then s1\<lparr>tries := 0\<rparr>
        else if tries s1 < 20 then s1\<lparr>tries := tries s1 + 1, totem_studio_usb_work := Some 250\<rparr>
        else s1)"

definition totem_studio_usb_kick :: "studio_usb \<Rightarrow> studio_usb" where
  "totem_studio_usb_kick s = s\<lparr>totem_studio_usb_work := Some 200\<rparr>"

text \<open>
  The two events of the listener: the USB connection state as its number, and an endpoint change.
  \<open>tnum\<close> is the numbering of ZMK's transport type.
\<close>

datatype studio_usb_event = Usb_conn_state u8 | Endpoint_changed zmk_transport

definition totem_studio_usb_listener ::
  "(zmk_transport \<Rightarrow> u8) \<Rightarrow> zmk_transport \<Rightarrow> studio_usb_event \<Rightarrow> studio_usb \<Rightarrow> studio_usb" where
  "totem_studio_usb_listener tnum selected ev s =
     totem_studio_usb_kick (case ev of
        Usb_conn_state conn_state \<Rightarrow> su_emit [SU_log (log_args TOTEM_HEVT_USB (- 1) (- 1) conn_state 0 (tnum selected))] s
      | Endpoint_changed transport \<Rightarrow> su_emit [SU_log (log_args TOTEM_HEVT_USB (- 1) (- 1) 0xFF 0 (tnum transport))] s)"

definition totem_studio_usb_init :: studio_usb where
  "totem_studio_usb_init = \<lparr>tries = 0, totem_studio_usb_work = Some 1500, su_out = []\<rparr>"

section \<open>Retries\<close>

text \<open>
  The timer alone: while the work item is pending its handler runs with the next environment.
  The result also lists the delays waited for.
\<close>

fun studio_retries :: "studio_usb_env list \<Rightarrow> studio_usb \<Rightarrow> int list \<times> studio_usb" where
  "studio_retries [] s = ([], s)"
| "studio_retries (e # es) s =
     (case totem_studio_usb_work s of
        None \<Rightarrow> ([], s)
      | Some delay \<Rightarrow>
          let (ds, s') = studio_retries es (totem_studio_prefer_usb e (s\<lparr>totem_studio_usb_work := None\<rparr>))
          in (delay # ds, s'))"

text \<open>How many more runs the work item can have.\<close>

definition retries_left :: "studio_usb \<Rightarrow> nat" where
  "retries_left s = (if totem_studio_usb_work s = None then 0 else Suc (20 - unat (tries s)))"

lemma prefer_usb_decreases:
  assumes "totem_studio_usb_work s \<noteq> None"
  shows "retries_left (totem_studio_prefer_usb e (s\<lparr>totem_studio_usb_work := None\<rparr>)) < retries_left s"
proof -
  have "unat (tries s + 1) = unat (tries s) + 1" if "tries s < 20"
    using that by (simp add: word_less_nat_alt unat_inc)
  with assms show ?thesis
    by (auto simp: retries_left_def totem_studio_prefer_usb_def su_emit_def Let_def word_less_nat_alt)
qed

lemma prefer_usb_delay:
  "totem_studio_usb_work (totem_studio_prefer_usb e (s\<lparr>totem_studio_usb_work := None\<rparr>)) \<in> {None, Some 250}"
  by (simp add: totem_studio_prefer_usb_def su_emit_def Let_def)

lemma studio_retries_bound:
  "let (ds, s') = studio_retries es s in
     length ds \<le> retries_left s \<and> (retries_left s \<le> length es \<longrightarrow> totem_studio_usb_work s' = None)
     \<and> set (tl ds) \<subseteq> {250}"
proof (induction es arbitrary: s)
  case Nil
  then show ?case by (auto simp: retries_left_def)
next
  case (Cons e es)
  show ?case
  proof (cases "totem_studio_usb_work s")
    case None
    then show ?thesis by simp
  next
    case (Some delay)
    let ?t = "totem_studio_prefer_usb e (s\<lparr>totem_studio_usb_work := None\<rparr>)"
    obtain ds s' where r: "studio_retries es ?t = (ds, s')" by (metis prod.exhaust)
    have "retries_left ?t < retries_left s" using Some prefer_usb_decreases [of s e] by simp
    moreover have "set ds \<subseteq> {250}"
    proof (cases "totem_studio_usb_work ?t")
      case None
      with r show ?thesis by (cases es) auto
    next
      case (Some d)
      with prefer_usb_delay [of e s] r Cons.IH [of ?t] show ?thesis
        by (cases es) (auto split: prod.splits)
    qed
    ultimately show ?thesis using Some r Cons.IH [of ?t] by auto
  qed
qed

section \<open>Properties\<close>

text \<open>
  C40. The search for USB ends: from any state, without a new event, the work item runs at most
  21 times, every wait after the first is 250 ms, and then it is not pending any more, whatever
  the cable, the endpoint selection and the result of the request do. One run with USB selected or
  the cable out ends it at once and starts the count afresh.
\<close>

theorem studio_usb_retries_end:
  assumes "21 \<le> length es" and "studio_retries es s = (ds, s')"
  shows "length ds \<le> 21 \<and> set (tl ds) \<subseteq> {250} \<and> totem_studio_usb_work s' = None
    \<and> (\<forall>e t. (if su_powered e then su_selected e = ZMK_TRANSPORT_USB else True) \<longrightarrow>
         totem_studio_usb_work (totem_studio_prefer_usb e (t\<lparr>totem_studio_usb_work := None\<rparr>)) = None
         \<and> tries (totem_studio_prefer_usb e (t\<lparr>totem_studio_usb_work := None\<rparr>)) = 0)"
proof -
  have "retries_left s \<le> 21" by (simp add: retries_left_def)
  with studio_retries_bound [of es s] assms have "length ds \<le> 21 \<and> set (tl ds) \<subseteq> {250} \<and> totem_studio_usb_work s' = None"
    by auto
  then show ?thesis by (auto simp: totem_studio_prefer_usb_def su_emit_def Let_def split: if_splits)
qed

text \<open>The cable is in and USB never becomes the selected endpoint.\<close>

theorem studio_usb_retries_end_witness:
  "let (ds, s') = studio_retries (replicate 30 \<lparr>su_powered = True, su_prefer_err = 0, su_selected = ZMK_TRANSPORT_BLE\<rparr>)
        totem_studio_usb_init
   in length ds = 21 \<and> sum_list ds = 6500 \<and> totem_studio_usb_work s' = None"
proof -
  let ?es = "replicate 30 \<lparr>su_powered = True, su_prefer_err = 0, su_selected = ZMK_TRANSPORT_BLE\<rparr>"
  obtain ds s' where r: "studio_retries ?es totem_studio_usb_init = (ds, s')" by (metis prod.exhaust)
  have "fst (studio_retries ?es totem_studio_usb_init) = 1500 # replicate 20 250" by code_simp
  then have "length ds = 21" "sum_list ds = 6500" using r by (simp_all add: sum_list_replicate)
  with studio_usb_retries_end [OF _ r] r show ?thesis by simp
qed

end
