(* ===== verification/Battery_Log.thy ===== *)
theory Battery_Log
  imports Host_Event_Log
begin

text \<open>
  Battery samples, \<open>src/totem_battery_log.c\<close>: console lines for both halves, rate-limited when they
  are driven by events, and a periodic power sample in the journal. Readings of ZMK and of the
  sensor driver are the environment \<open>batt_env\<close>.
\<close>

section \<open>State\<close>

text \<open>
  \<open>gauge\<close> is the voltage channel of the chosen battery device (\<open>None\<close> when there is no such device, it
  is not ready or the read fails); \<open>snapshot\<close> is the text of the Studio log's battery frame.
\<close>

record batt_env =
  b_uptime :: int
  zmk_battery_millivolts :: u16
  gauge :: "(int \<times> int) option"
  zmk_battery_reported_soc :: u8
  zmk_battery_state_of_charge :: u8
  b_usb_powered :: bool
  b_active_profile :: int
  snapshot :: string

record batt =
  peripheral_soc :: int
  last_event_print_ms :: int
  last_printed :: string
  batt_lines :: "(int \<times> string) list"
  batt_tick_in :: "int option"
  batt_heartbeat_in :: "int option"

definition batt_boot :: batt where
  "batt_boot = \<lparr>peripheral_soc = - 1, last_event_print_ms = 0, last_printed = [], batt_lines = [],
     batt_tick_in = None, batt_heartbeat_in = None\<rparr>"

definition BATT_EVENT_MIN_INTERVAL_MS :: int where [simp]: "BATT_EVENT_MIN_INTERVAL_MS = 1000"
definition LEVELS_MAX :: nat where [simp]: "LEVELS_MAX = 48"

section \<open>Readings\<close>

definition c_quot :: "int \<Rightarrow> int \<Rightarrow> int" where
  "c_quot a b = (if a < 0 then - ((- a) div b) else a div b)"

definition battery_mv :: "batt_env \<Rightarrow> u16" where
  "battery_mv e =
     (if zmk_battery_millivolts e = 0
      then case gauge e of
          None \<Rightarrow> 0
        | Some (val1, val2) \<Rightarrow> word_of_int (val1 * 1000 + c_quot val2 1000)
      else zmk_battery_millivolts e)"

definition left_on_usb :: "totem_config \<Rightarrow> batt_env \<Rightarrow> bool" where
  "left_on_usb c e = (CONFIG_ZMK_USB c \<and> b_usb_powered e)"

text \<open>\<open>studio_battery\<close> is \<open>CONFIG_ZMK_STUDIO_LOG_BATTERY\<close>; the text is cut to the buffer.\<close>

definition format_levels :: "bool \<Rightarrow> batt_env \<Rightarrow> batt \<Rightarrow> string" where
  "format_levels studio_battery e s =
     take (LEVELS_MAX - 1)
       (if studio_battery then snapshot e
        else if peripheral_soc s < 0 then ''left='' @ fmt_u (zmk_battery_reported_soc e) @ '' right=--''
        else ''left='' @ fmt_u (zmk_battery_reported_soc e) @ '' right='' @ fmt_d (peripheral_soc s))"

section \<open>Lines\<close>

definition batt_event_should_print :: "bool \<Rightarrow> batt_env \<Rightarrow> batt \<Rightarrow> bool \<times> batt" where
  "batt_event_should_print sb e s =
     (let levels = format_levels sb e s; now = b_uptime e in
      if levels = last_printed s then (False, s)
      else if last_event_print_ms s \<noteq> 0 \<and> now - last_event_print_ms s < BATT_EVENT_MIN_INTERVAL_MS then (False, s)
      else (True, s\<lparr>last_event_print_ms := now, last_printed := levels\<rparr>))"

definition totem_batt_print :: "bool \<Rightarrow> batt_env \<Rightarrow> string \<Rightarrow> bool \<Rightarrow> batt \<Rightarrow> batt" where
  "totem_batt_print sb e why with_mv s =
     (let up_s = (word_of_int (b_uptime e) :: u32) div 1000;
          mv = battery_mv e;
          line = ''totem_batt '' @ why @ '' t='' @ fmt_u up_s @ ''s '' @ format_levels sb e s
            @ (if with_mv \<and> mv > 0 then '' '' @ fmt_u mv @ ''mV'' else [])
            @ (if peripheral_soc s < 0 then ''  (no report yet)'' else [])
      in s\<lparr>batt_lines := batt_lines s @ [(b_uptime e, line)]\<rparr>)"

text \<open>The events the listener subscribes to; \<open>charge_status\<close> is \<open>CONFIG_ZMK_BATTERY_CHARGE_STATUS\<close>.\<close>

datatype batt_event = Peripheral_battery u8 | Peripheral_charging | Local_battery

definition totem_batt_listener :: "bool \<Rightarrow> bool \<Rightarrow> batt_env \<Rightarrow> batt_event \<Rightarrow> batt \<Rightarrow> batt" where
  "totem_batt_listener sb charge_status e ev s =
     (case ev of
        Peripheral_battery soc \<Rightarrow>
          let (yes, s1) = batt_event_should_print sb e (s\<lparr>peripheral_soc := uint soc\<rparr>)
          in if yes then totem_batt_print sb e ''periph'' False s1 else s1
      | Peripheral_charging \<Rightarrow>
          if charge_status
          then let (yes, s1) = batt_event_should_print sb e s in if yes then totem_batt_print sb e ''periph'' False s1 else s1
          else s
      | Local_battery \<Rightarrow>
          let (yes, s1) = batt_event_should_print sb e s in if yes then totem_batt_print sb e ''local'' False s1 else s1)"

definition totem_batt_tick_handler :: "totem_config \<Rightarrow> bool \<Rightarrow> batt_env \<Rightarrow> batt \<Rightarrow> batt" where
  "totem_batt_tick_handler c sb e s =
     (totem_batt_print sb e ''tick'' True s)\<lparr>batt_tick_in := Some (CONFIG_TOTEM_BATTERY_LOG_INTERVAL_SEC c * 1000)\<rparr>"

section \<open>Heartbeat\<close>

definition heartbeat_word :: "totem_config \<Rightarrow> batt_env \<Rightarrow> u16" where
  "heartbeat_word c e =
     (let w = min (battery_mv e) 0x7FFF in if left_on_usb c e then w OR 0x8000 else w)"

definition heartbeat_call :: "totem_config \<Rightarrow> batt_env \<Rightarrow> batt \<Rightarrow> log_call" where
  "heartbeat_call c e s =
     (let w = heartbeat_word c e
      in log_args TOTEM_HEVT_HEARTBEAT (to_i8 (b_active_profile e)) (to_i8 (peripheral_soc s))
           (zmk_battery_state_of_charge e) (ucast w) (ucast (drop_bit 8 w)))"

definition totem_batt_heartbeat_handler :: "totem_config \<Rightarrow> batt_env \<Rightarrow> batt \<times> journal \<Rightarrow> batt \<times> journal" where
  "totem_batt_heartbeat_handler c e sj =
     (let (s, j) = sj
      in (s\<lparr>batt_heartbeat_in := Some (CONFIG_TOTEM_DIAG_HEARTBEAT_MIN c * 60000)\<rparr>,
          totem_host_event_log_record c (b_uptime e) (heartbeat_call c e s) j))"

definition totem_batt_heartbeat_start :: "totem_config \<Rightarrow> batt \<Rightarrow> batt" where
  "totem_batt_heartbeat_start c s =
     (if CONFIG_TOTEM_DIAG_HEARTBEAT_MIN c > 0 then s\<lparr>batt_heartbeat_in := Some 60000\<rparr> else s)"

definition totem_battery_log_init :: "totem_config \<Rightarrow> batt" where
  "totem_battery_log_init c = totem_batt_heartbeat_start c (batt_boot\<lparr>batt_tick_in := Some 10000\<rparr>)"

section \<open>Event lines are rate-limited\<close>

text \<open>The steps that print: an event of the listener or a tick of the periodic work item.\<close>

datatype batt_op = Batt_event batt_event | Batt_tick

primrec batt_step :: "totem_config \<Rightarrow> bool \<Rightarrow> bool \<Rightarrow> batt_env \<Rightarrow> batt_op \<Rightarrow> batt \<Rightarrow> batt" where
  "batt_step c sb cs e (Batt_event ev) = totem_batt_listener sb cs e ev"
| "batt_step c sb cs e Batt_tick = totem_batt_tick_handler c sb e"

definition batt_fires :: "totem_config \<Rightarrow> bool \<Rightarrow> bool \<Rightarrow> batt_env \<times> batt_op \<Rightarrow> batt \<Rightarrow> bool" where
  "batt_fires c sb cs eo s \<longleftrightarrow> snd eo \<noteq> Batt_tick
     \<and> length (batt_lines s) < length (batt_lines (batt_step c sb cs (fst eo) (snd eo) s))"

lemma should_print_fields:
  "batt_event_should_print sb e s = (yes, s') \<Longrightarrow> batt_lines s' = batt_lines s \<and> peripheral_soc s' = peripheral_soc s
     \<and> (if yes then last_event_print_ms s' = b_uptime e \<and> (last_event_print_ms s = 0 \<or> last_event_print_ms s + 1000 \<le> b_uptime e)
          \<and> last_printed s' \<noteq> last_printed s
        else s' = s)"
  by (auto simp: batt_event_should_print_def Let_def split: if_splits)

lemma print_fields [simp]:
  "last_event_print_ms (totem_batt_print sb e why mv s) = last_event_print_ms s"
  "last_printed (totem_batt_print sb e why mv s) = last_printed s"
  "length (batt_lines (totem_batt_print sb e why mv s)) = Suc (length (batt_lines s))"
  by (simp_all add: totem_batt_print_def Let_def)

lemma listener_step:
  "let s' = totem_batt_listener sb cs e ev s in
   if length (batt_lines s) < length (batt_lines s')
   then last_event_print_ms s' = b_uptime e \<and> (last_event_print_ms s = 0 \<or> last_event_print_ms s + 1000 \<le> b_uptime e)
     \<and> last_printed s' \<noteq> last_printed s
   else last_event_print_ms s' = last_event_print_ms s \<and> last_printed s' = last_printed s"
proof -
  have pr: "\<exists>yes s'. batt_event_should_print sb e t = (yes, s')" for t by (metis prod.exhaust)
  obtain y1 t1 where 1: "batt_event_should_print sb e s = (y1, t1)" using pr by blast
  show ?thesis
  proof (cases ev)
    case (Peripheral_battery soc)
    obtain y2 t2 where 2: "batt_event_should_print sb e (s\<lparr>peripheral_soc := uint soc\<rparr>) = (y2, t2)" using pr by blast
    with should_print_fields [OF 2] Peripheral_battery show ?thesis
      by (cases y2) (simp_all add: totem_batt_listener_def)
  next
    case Peripheral_charging
    with 1 should_print_fields [OF 1] show ?thesis
      by (cases y1; cases cs) (simp_all add: totem_batt_listener_def)
  next
    case Local_battery
    with 1 should_print_fields [OF 1] show ?thesis
      by (cases y1) (simp_all add: totem_batt_listener_def)
  qed
qed

text \<open>The limit does not apply after an event line at uptime 0, which is before the first event.\<close>

definition print_not_before :: "batt \<Rightarrow> int" where
  "print_not_before s = (if last_event_print_ms s = 0 then 0 else last_event_print_ms s + 1000)"

lemma batt_step_limit:
  assumes "0 < b_uptime e"
  shows "if batt_fires c sb cs (e, op) s
    then print_not_before s \<le> b_uptime e \<and> print_not_before (batt_step c sb cs e op s) = b_uptime e + 1000
      \<and> last_printed (batt_step c sb cs e op s) \<noteq> last_printed s
    else print_not_before (batt_step c sb cs e op s) = print_not_before s
      \<and> last_printed (batt_step c sb cs e op s) = last_printed s"
proof (cases op)
  case (Batt_event ev)
  with assms listener_step [where s = s and sb = sb and cs = cs and e = e and ev = ev] show ?thesis
    by (auto simp: batt_fires_def print_not_before_def Let_def split: if_splits)
next
  case Batt_tick
  then show ?thesis by (simp add: batt_fires_def print_not_before_def totem_batt_tick_handler_def)
qed

interpretation event_lines: rate_limited "\<lambda>eo. batt_step c sb cs (fst eo) (snd eo)" "\<lambda>eo. b_uptime (fst eo)"
    "batt_fires c sb cs" print_not_before 1000 "\<lambda>eo. 0 < b_uptime (fst eo)" "\<lambda>s. True" for c sb cs
proof unfold_locales
  fix eo :: "batt_env \<times> batt_op" and s
  assume "0 < b_uptime (fst eo)"
  note st = batt_step_limit [OF this, of c sb cs "snd eo" s, unfolded prod.collapse]
  show "print_not_before s \<le> b_uptime (fst eo)" if "batt_fires c sb cs eo s" using st that by simp
  show "b_uptime (fst eo) + 1000 \<le> print_not_before (batt_step c sb cs (fst eo) (snd eo) s)" if "batt_fires c sb cs eo s"
    using st that by simp
  show "print_not_before s \<le> print_not_before (batt_step c sb cs (fst eo) (snd eo) s)" if "\<not> batt_fires c sb cs eo s"
    using st that by simp
qed simp_all

section \<open>The heartbeat word\<close>

lemma u16_bytes_join: "push_bit 8 (ucast (ucast (drop_bit 8 w) :: u8)) OR ucast (ucast w :: u8) = (w :: u16)"
  by (rule bit_word_eqI) (auto simp: bit_simps)

lemma mask15_small: "w \<le> 0x7FFF \<Longrightarrow> w AND 0x7FFF = w \<and> \<not> bit w 15" for w :: u16
proof -
  assume le: "w \<le> 0x7FFF"
  then have "unat w < 2 ^ 15" by (simp add: word_le_nat_alt)
  then have "take_bit 15 w = w" by (simp add: word_unat_eq_iff unsigned_take_bit_eq take_bit_nat_eq_self)
  moreover have "take_bit 15 w = w AND 0x7FFF" by (simp add: take_bit_eq_mask mask_eq_exp_minus_1)
  moreover have "\<not> bit (take_bit 15 w) 15" by (simp add: bit_take_bit_iff)
  ultimately show ?thesis by simp
qed

lemma heartbeat_word_fields:
  "heartbeat_word c e AND 0x7FFF = min (battery_mv e) 0x7FFF \<and> (bit (heartbeat_word c e) 15 \<longleftrightarrow> left_on_usb c e)"
proof -
  let ?m = "min (battery_mv e) 0x7FFF"
  have m: "?m AND 0x7FFF = ?m" "\<not> bit ?m 15" using mask15_small [of ?m] by simp_all
  have "bit (0x8000 :: u16) 15" by simp
  moreover have "(0x8000 :: u16) AND 0x7FFF = 0" by simp
  ultimately show ?thesis
    using m by (simp add: heartbeat_word_def Let_def bit_or_iff bit.conj_disj_distrib2)
qed

section \<open>Properties\<close>

text \<open>
  Event-driven battery lines are rate-limited: in any run from boot, with the periodic ticks
  interleaved anywhere, two lines printed for battery events are at least one second apart, and
  every tick still prints its line.
\<close>

theorem battery_lines_spaced:
  assumes "list_all (\<lambda>eo. 0 < b_uptime (fst eo)) ops"
  shows "sorted_wrt (\<lambda>a b. a + BATT_EVENT_MIN_INTERVAL_MS \<le> b)
      (fire_times (\<lambda>eo. batt_step c sb cs (fst eo) (snd eo)) (\<lambda>eo. b_uptime (fst eo)) (batt_fires c sb cs) ops
        (totem_battery_log_init c))
    \<and> (\<forall>e s. length (batt_lines (batt_step c sb cs e Batt_tick s)) = Suc (length (batt_lines s)))"
  using event_lines.fire_times_spaced [OF assms] by (simp add: totem_batt_tick_handler_def)

text \<open>A storm of three reports within a second and one after it: two lines.\<close>

definition batt_sample :: "int \<Rightarrow> batt_env" where
  "batt_sample t = \<lparr>b_uptime = t, zmk_battery_millivolts = 0, gauge = Some (4, 187000), zmk_battery_reported_soc = 90,
     zmk_battery_state_of_charge = 91, b_usb_powered = True, b_active_profile = 2, snapshot = []\<rparr>"

theorem battery_lines_spaced_witness:
  "let ops = [(batt_sample 5000, Batt_event (Peripheral_battery 50)), (batt_sample 5010, Batt_event (Peripheral_battery 0)),
      (batt_sample 5500, Batt_tick), (batt_sample 6000, Batt_event (Peripheral_battery 0))];
     ts = fire_times (\<lambda>eo. batt_step totem_left_config False True (fst eo) (snd eo)) (\<lambda>eo. b_uptime (fst eo))
       (batt_fires totem_left_config False True) ops (totem_battery_log_init totem_left_config)
   in ts = [5000, 6000] \<and> sorted_wrt (\<lambda>a b. a + BATT_EVENT_MIN_INTERVAL_MS \<le> b) ts"
proof -
  let ?ops = "[(batt_sample 5000, Batt_event (Peripheral_battery 50)), (batt_sample 5010, Batt_event (Peripheral_battery 0)),
      (batt_sample 5500, Batt_tick), (batt_sample 6000, Batt_event (Peripheral_battery 0))]"
  have "list_all (\<lambda>eo. 0 < b_uptime (fst eo)) ?ops" by (simp add: batt_sample_def)
  note sp = battery_lines_spaced [OF this, of totem_left_config False True]
  have "fire_times (\<lambda>eo. batt_step totem_left_config False True (fst eo) (snd eo)) (\<lambda>eo. b_uptime (fst eo))
       (batt_fires totem_left_config False True) ?ops (totem_battery_log_init totem_left_config) = [5000, 6000]"
    by code_simp
  with sp show ?thesis unfolding Let_def by blast
qed

text \<open>
  A heartbeat record can be read back: the two low data bytes give the cell voltage in
  millivolts (cut at 32767) and whether the left half runs on USB, the reason byte the local
  charge, and the active byte the right half's charge, -1 while it has not reported.
\<close>

theorem heartbeat_decodes:
  assumes "- 1 \<le> peripheral_soc s" and "peripheral_soc s \<le> 100"
  shows "let k = heartbeat_call c e s; w = push_bit 8 (ucast (call_extra k)) OR ucast (call_thrash_win k) :: u16
    in w AND 0x7FFF = min (battery_mv e) 0x7FFF \<and> (bit w 15 \<longleftrightarrow> left_on_usb c e)
      \<and> call_reason k = zmk_battery_state_of_charge e \<and> sint (call_active k) = peripheral_soc s"
  using heartbeat_word_fields [of c e] assms
  by (simp add: heartbeat_call_def Let_def u16_bytes_join sint_to_i8)

theorem heartbeat_decodes_witness:
  "let k = heartbeat_call totem_left_config (batt_sample 60000) batt_boot;
       w = push_bit 8 (ucast (call_extra k)) OR ucast (call_thrash_win k) :: u16
   in w AND 0x7FFF = 4187 \<and> bit w 15 \<and> call_reason k = 91 \<and> sint (call_active k) = - 1"
proof -
  have "- 1 \<le> peripheral_soc batt_boot" "peripheral_soc batt_boot \<le> 100" by (simp_all add: batt_boot_def)
  note d = heartbeat_decodes [OF this, of totem_left_config "batt_sample 60000"]
  have "min (battery_mv (batt_sample 60000)) 0x7FFF = 4187" by (simp add: battery_mv_def batt_sample_def c_quot_def)
  moreover have "left_on_usb totem_left_config (batt_sample 60000)"
    by (simp add: left_on_usb_def batt_sample_def totem_left_config_def)
  ultimately show ?thesis using d by (simp add: Let_def batt_sample_def batt_boot_def)
qed

end
