(* ===== verification/Independent_Steps.thy ===== *)
theory Independent_Steps
  imports "HOL-Library.Multiset"
begin

text \<open>
  Steps of different parties that commute up to an equivalence: the order in which a set of them is
  run does not matter.
\<close>

locale independent_steps =
  fixes step :: "'m \<Rightarrow> 's \<Rightarrow> 's"
    and same :: "'s \<Rightarrow> 's \<Rightarrow> bool"
  assumes same_refl: "same s s"
    and same_trans: "same s t \<Longrightarrow> same t u \<Longrightarrow> same s u"
    and same_step: "same s t \<Longrightarrow> same (step m s) (step m t)"
    and swap: "same (step m (step n s)) (step n (step m s))"
begin

lemma same_fold: "same s t \<Longrightarrow> same (fold step ms s) (fold step ms t)"
  by (induction ms arbitrary: s t) (simp_all add: same_step)

lemma delay: "same (fold step (m # us @ vs) s) (fold step (us @ m # vs) s)"
proof (induction us arbitrary: s)
  case Nil
  show ?case by (simp add: same_refl)
next
  case (Cons u us)
  have "same (fold step (us @ vs) (step u (step m s))) (fold step (us @ vs) (step m (step u s)))"
    by (rule same_fold [OF swap])
  from same_trans [OF this] Cons.IH [of "step u s"] show ?case by simp
qed

lemma fold_order: "mset ms = mset ns \<Longrightarrow> same s t \<Longrightarrow> same (fold step ms s) (fold step ns t)"
proof (induction ms arbitrary: ns s t)
  case Nil
  then show ?case by simp
next
  case (Cons m ms)
  then have "m \<in> set ns" by (metis list.set_intros(1) set_mset_mset)
  then obtain us vs where ns: "ns = us @ m # vs" by (metis split_list)
  with Cons.prems(1) have "mset ms = mset (us @ vs)" by simp
  from Cons.IH [OF this same_step [OF Cons.prems(2)]]
  have "same (fold step ms (step m s)) (fold step (m # us @ vs) t)" by simp
  from same_trans [OF this delay] show ?case by (simp add: ns)
qed

end

end
