(* ===== verification/Event_Dispatch.thy ===== *)
theory Event_Dispatch
  imports Left_Half Exclusive_Host_Work Hid_Connection_Log Endpoint_Log Studio_Usb Battery_Log Independent_Steps
begin

text \<open>
  Who hears of what: the callback structures (\<open>BT_CONN_CB_DEFINE\<close>) and the event subscriptions
  (\<open>ZMK_LISTENER\<close>, \<open>ZMK_SUBSCRIPTION\<close>) of the modules. Zephyr calls the callbacks of a Bluetooth
  event one after another in the order in which the linker placed the structures; ZMK calls the
  subscribed listeners of an event in its own link order, and only as long as each returns
  \<open>ZMK_EV_EVENT_BUBBLE\<close>. Neither order is fixed in the sources, so it is an input here, as is the set of
  modules the build links. Records the modules hand to the journal are collected in \<open>es_calls\<close>, console
  lines of the connection parameter log in \<open>es_params\<close>. Each module's work items are part of its state;
  in what order the items of different modules reach Zephyr's work queue is not kept.
\<close>

section \<open>State\<close>

datatype module =
    Exclusive_host | Reconnect_watch | Lazy_inactive_host | Hid_connection_log | Conn_params_log
  | Usb_host_quiet | Studio_usb | Endpoint_log | Battery_log

record 'ep event_side =
  es_excl :: excl_sys
  es_watch :: watch
  es_lazy :: lazy_host
  es_conn :: conn_log
  es_params :: "string list"
  es_quiet :: usb_quiet
  es_studio :: studio_usb
  es_endpoint :: "'ep ep_log"
  es_batt :: batt
  es_calls :: "(int \<times> conn_log_call) list"

text \<open>
  What the stack answers while the event is handled; \<open>st_endpoints\<close> are the selected and the preferred
  endpoint. The last two are the build options \<open>CONFIG_ZMK_STUDIO_LOG_BATTERY\<close> and
  \<open>CONFIG_ZMK_BATTERY_CHARGE_STATUS\<close>.
\<close>

record 'ep stack_env =
  st_ble :: ble_env
  st_addr_str :: "bt_addr \<Rightarrow> string"
  st_transport_num :: "zmk_transport \<Rightarrow> u8"
  st_ep_ops :: "'ep ep_ops"
  st_endpoints :: "'ep \<times> 'ep"
  st_batt :: batt_env
  st_studio_battery :: bool
  st_charge_status :: bool

datatype bt_event =
    Bt_connected bt_conn u8 "u16 option"
  | Bt_disconnected bt_conn u8
  | Bt_security_changed bt_conn nat nat
  | Bt_identity_resolved bt_conn bt_addr
  | Bt_le_param_updated bt_conn u16 u16 u16

datatype zmk_event =
    Zmk_ble_active_profile_changed
  | Zmk_usb_conn_state_changed u8
  | Zmk_endpoint_changed zmk_transport
  | Zmk_battery batt_event

section \<open>Callback structures\<close>

text \<open>A missing member of a structure is a null pointer and is skipped.\<close>

definition exclusive_host_cb :: "totem_config \<Rightarrow> 'ep stack_env \<Rightarrow> bt_event \<Rightarrow> excl_sys \<Rightarrow> excl_sys" where
  "exclusive_host_cb c e ev = (case ev of
      Bt_connected conn err handle \<Rightarrow> run_handler (excl_step c (st_ble e) (X_connected conn err))
    | Bt_disconnected conn reason \<Rightarrow> run_handler (excl_step c (st_ble e) (X_disconnected conn reason))
    | Bt_security_changed conn level err \<Rightarrow> run_handler (excl_step c (st_ble e) (X_security_changed conn level err))
    | Bt_identity_resolved conn identity \<Rightarrow> run_handler (excl_step c (st_ble e) (X_identity_resolved identity))
    | Bt_le_param_updated conn interval lat tmo \<Rightarrow> (\<lambda>s. s))"

definition reconnect_watch_cb :: "totem_config \<Rightarrow> 'ep stack_env \<Rightarrow> bt_event \<Rightarrow> watch \<Rightarrow> watch" where
  "reconnect_watch_cb c e ev = (case ev of
      Bt_connected conn err handle \<Rightarrow> reconnect_watch_connected (st_ble e) err
    | Bt_disconnected conn reason \<Rightarrow> reconnect_watch_disconnected c (st_ble e) conn
    | Bt_security_changed conn level err \<Rightarrow> reconnect_watch_security_changed (st_ble e) level
    | _ \<Rightarrow> (\<lambda>s. s))"

definition lazy_inactive_host_cb :: "bt_event \<Rightarrow> lazy_host \<Rightarrow> lazy_host" where
  "lazy_inactive_host_cb ev = (case ev of
      Bt_connected conn err handle \<Rightarrow> lazy_host_connected err
    | Bt_security_changed conn level err \<Rightarrow> lazy_host_security_changed level
    | Bt_identity_resolved conn identity \<Rightarrow> lazy_host_identity_resolved
    | _ \<Rightarrow> (\<lambda>s. s))"

definition hid_connection_log_cb :: "'ep stack_env \<Rightarrow> bt_event \<Rightarrow> conn_log \<Rightarrow> conn_log" where
  "hid_connection_log_cb e ev = (case ev of
      Bt_connected conn err handle \<Rightarrow> hid_log_connected (st_ble e) (\<lambda>_. handle) conn err
    | Bt_disconnected conn reason \<Rightarrow> security_log_disconnected conn
    | _ \<Rightarrow> (\<lambda>s. s))"

definition conn_params_log_cb :: "'ep stack_env \<Rightarrow> bt_event \<Rightarrow> string option" where
  "conn_params_log_cb e ev = (case ev of
      Bt_connected conn err handle \<Rightarrow> conn_params_connected (st_addr_str e) conn err
    | Bt_le_param_updated conn interval lat tmo \<Rightarrow> conn_params_updated (st_addr_str e) conn interval lat tmo
    | _ \<Rightarrow> None)"

section \<open>One module handles an event\<close>

fun excl_calls :: "(int \<times> excl_effect) list \<Rightarrow> (int \<times> conn_log_call) list" where
  "excl_calls xs = map (\<lambda>(t, a). (t, Log_record a)) (x_logs xs)"

text \<open>The records a module makes are what it appended to its output.\<close>

definition on_excl :: "(excl_sys \<Rightarrow> excl_sys) \<Rightarrow> 'ep event_side \<Rightarrow> 'ep event_side" where
  "on_excl f s = (let x = f (es_excl s) in s\<lparr>es_excl := x,
     es_calls := es_calls s @ excl_calls (drop (length (x_out (sx (es_excl s)))) (x_out (sx x)))\<rparr>)"

definition on_watch :: "int \<Rightarrow> (watch \<Rightarrow> watch) \<Rightarrow> 'ep event_side \<Rightarrow> 'ep event_side" where
  "on_watch now f s = (let w = f (es_watch s) in s\<lparr>es_watch := w,
     es_calls := es_calls s @ map (\<lambda>a. (now, Log_record a)) (w_logs (drop (length (w_out (es_watch s))) (w_out w)))\<rparr>)"

definition on_lazy :: "(lazy_host \<Rightarrow> lazy_host) \<Rightarrow> 'ep event_side \<Rightarrow> 'ep event_side" where
  "on_lazy f s = s\<lparr>es_lazy := f (es_lazy s)\<rparr>"

definition on_conn :: "(conn_log \<Rightarrow> conn_log) \<Rightarrow> 'ep event_side \<Rightarrow> 'ep event_side" where
  "on_conn f s = (let x = f (es_conn s) in s\<lparr>es_conn := x,
     es_calls := es_calls s @ drop (length (cl_out (es_conn s))) (cl_out x)\<rparr>)"

definition on_params :: "string option \<Rightarrow> 'ep event_side \<Rightarrow> 'ep event_side" where
  "on_params line s = (case line of None \<Rightarrow> s | Some l \<Rightarrow> s\<lparr>es_params := es_params s @ [l]\<rparr>)"

definition on_quiet :: "(usb_quiet \<Rightarrow> usb_quiet) \<Rightarrow> 'ep event_side \<Rightarrow> 'ep event_side" where
  "on_quiet f s = s\<lparr>es_quiet := f (es_quiet s)\<rparr>"

fun su_logs :: "studio_usb_effect list \<Rightarrow> log_call list" where
  "su_logs [] = []"
| "su_logs (SU_log a # xs) = a # su_logs xs"
| "su_logs (_ # xs) = su_logs xs"

definition on_studio :: "int \<Rightarrow> (studio_usb \<Rightarrow> studio_usb) \<Rightarrow> 'ep event_side \<Rightarrow> 'ep event_side" where
  "on_studio now f s = (let x = f (es_studio s) in s\<lparr>es_studio := x,
     es_calls := es_calls s @ map (\<lambda>a. (now, Log_record a)) (su_logs (drop (length (su_out (es_studio s))) (su_out x)))\<rparr>)"

definition on_endpoint :: "('ep ep_log \<Rightarrow> 'ep ep_log) \<Rightarrow> 'ep event_side \<Rightarrow> 'ep event_side" where
  "on_endpoint f s = s\<lparr>es_endpoint := f (es_endpoint s)\<rparr>"

definition on_batt :: "(batt \<Rightarrow> batt) \<Rightarrow> 'ep event_side \<Rightarrow> 'ep event_side" where
  "on_batt f s = s\<lparr>es_batt := f (es_batt s)\<rparr>"

definition bt_callback :: "totem_config \<Rightarrow> 'ep stack_env \<Rightarrow> bt_event \<Rightarrow> module \<Rightarrow> 'ep event_side \<Rightarrow> 'ep event_side" where
  "bt_callback c e ev m = (case m of
      Exclusive_host \<Rightarrow> on_excl (exclusive_host_cb c e ev)
    | Reconnect_watch \<Rightarrow> on_watch (k_uptime_get (st_ble e)) (reconnect_watch_cb c e ev)
    | Lazy_inactive_host \<Rightarrow> on_lazy (lazy_inactive_host_cb ev)
    | Hid_connection_log \<Rightarrow> on_conn (hid_connection_log_cb e ev)
    | Conn_params_log \<Rightarrow> on_params (conn_params_log_cb e ev)
    | _ \<Rightarrow> (\<lambda>s. s))"

section \<open>Listeners\<close>

definition ZMK_EV_EVENT_BUBBLE :: int where "ZMK_EV_EVENT_BUBBLE = 0"

text \<open>
  Each listener with the events it is subscribed to; an event it is not subscribed to never
  reaches it.
\<close>

definition exclusive_host_listener :: "totem_config \<Rightarrow> 'ep stack_env \<Rightarrow> 'ep event_side \<Rightarrow> int \<times> 'ep event_side" where
  "exclusive_host_listener c e s = (ZMK_EV_EVENT_BUBBLE, on_excl (run_handler (excl_step c (st_ble e) X_profile_changed)) s)"

definition reconnect_watch_listener :: "totem_config \<Rightarrow> 'ep stack_env \<Rightarrow> 'ep event_side \<Rightarrow> int \<times> 'ep event_side" where
  "reconnect_watch_listener c e s =
     (ZMK_EV_EVENT_BUBBLE, on_watch (k_uptime_get (st_ble e)) (reconnect_watch_profile_changed c (st_ble e)) s)"

definition lazy_inactive_host_listener :: "'ep event_side \<Rightarrow> int \<times> 'ep event_side" where
  "lazy_inactive_host_listener s = (ZMK_EV_EVENT_BUBBLE, on_lazy lazy_host_profile_changed s)"

definition usb_quiet_listener :: "'ep event_side \<Rightarrow> int \<times> 'ep event_side" where
  "usb_quiet_listener s = (ZMK_EV_EVENT_BUBBLE, on_quiet usb_host_quiet_listener s)"

definition studio_usb_listener :: "'ep stack_env \<Rightarrow> studio_usb_event \<Rightarrow> 'ep event_side \<Rightarrow> int \<times> 'ep event_side" where
  "studio_usb_listener e ev s =
     (ZMK_EV_EVENT_BUBBLE, on_studio (k_uptime_get (st_ble e)) (totem_studio_usb_listener (st_transport_num e)
        (zmk_endpoint_selected_transport (st_ble e)) ev) s)"

definition endpoint_log_listener :: "'ep stack_env \<Rightarrow> 'ep event_side \<Rightarrow> int \<times> 'ep event_side" where
  "endpoint_log_listener e s =
     (ZMK_EV_EVENT_BUBBLE, on_endpoint (totem_endpoint_changed_listener (st_ep_ops e) (st_endpoints e) True) s)"

definition battery_log_listener :: "'ep stack_env \<Rightarrow> batt_event \<Rightarrow> 'ep event_side \<Rightarrow> int \<times> 'ep event_side" where
  "battery_log_listener e ev s =
     (ZMK_EV_EVENT_BUBBLE, on_batt (totem_batt_listener (st_studio_battery e) (st_charge_status e) (st_batt e) ev) s)"

definition listener :: "totem_config \<Rightarrow> 'ep stack_env \<Rightarrow> zmk_event \<Rightarrow> module \<Rightarrow> 'ep event_side \<Rightarrow> int \<times> 'ep event_side" where
  "listener c e ev m = (case ev of
      Zmk_ble_active_profile_changed \<Rightarrow> (case m of
          Exclusive_host \<Rightarrow> exclusive_host_listener c e
        | Reconnect_watch \<Rightarrow> reconnect_watch_listener c e
        | Lazy_inactive_host \<Rightarrow> lazy_inactive_host_listener
        | _ \<Rightarrow> Pair ZMK_EV_EVENT_BUBBLE)
    | Zmk_usb_conn_state_changed conn_state \<Rightarrow> (case m of
          Usb_host_quiet \<Rightarrow> usb_quiet_listener
        | Studio_usb \<Rightarrow> studio_usb_listener e (Usb_conn_state conn_state)
        | _ \<Rightarrow> Pair ZMK_EV_EVENT_BUBBLE)
    | Zmk_endpoint_changed transport \<Rightarrow> (case m of
          Studio_usb \<Rightarrow> studio_usb_listener e (Endpoint_changed transport)
        | Endpoint_log \<Rightarrow> endpoint_log_listener e
        | _ \<Rightarrow> Pair ZMK_EV_EVENT_BUBBLE)
    | Zmk_battery bev \<Rightarrow> (case m of
          Battery_log \<Rightarrow> battery_log_listener e bev
        | _ \<Rightarrow> Pair ZMK_EV_EVENT_BUBBLE))"

section \<open>Handlers of different modules commute\<close>

text \<open>The same for every module; the same records for the journal, perhaps in another order.\<close>

definition same_side :: "'ep event_side \<Rightarrow> 'ep event_side \<Rightarrow> bool" where
  "same_side s t \<longleftrightarrow> es_excl s = es_excl t \<and> es_watch s = es_watch t \<and> es_lazy s = es_lazy t \<and> es_conn s = es_conn t
     \<and> es_params s = es_params t \<and> es_quiet s = es_quiet t \<and> es_studio s = es_studio t
     \<and> es_endpoint s = es_endpoint t \<and> es_batt s = es_batt t \<and> mset (es_calls s) = mset (es_calls t)"

lemmas on_defs = on_excl_def on_watch_def on_lazy_def on_conn_def on_params_def on_quiet_def on_studio_def
  on_endpoint_def on_batt_def Let_def

lemma same_on:
  assumes "same_side s t"
  shows "same_side (on_excl f1 s) (on_excl f1 t)" "same_side (on_watch now f2 s) (on_watch now f2 t)"
    "same_side (on_lazy f3 s) (on_lazy f3 t)" "same_side (on_conn f4 s) (on_conn f4 t)"
    "same_side (on_params line s) (on_params line t)" "same_side (on_quiet f5 s) (on_quiet f5 t)"
    "same_side (on_studio now f6 s) (on_studio now f6 t)" "same_side (on_endpoint f7 s) (on_endpoint f7 t)"
    "same_side (on_batt f8 s) (on_batt f8 t)"
  using assms by (simp_all add: same_side_def on_defs split: option.split)

lemma bt_swap: "same_side (bt_callback c e ev m (bt_callback c e ev n s)) (bt_callback c e ev n (bt_callback c e ev m s))"
  by (cases m; cases n) (simp_all add: bt_callback_def same_side_def on_defs ac_simps split: option.split)

lemma same_side_refl: "same_side s s"
  by (simp add: same_side_def)

lemma same_side_trans: "same_side s t \<Longrightarrow> same_side t u \<Longrightarrow> same_side s u"
  by (simp add: same_side_def)

interpretation callbacks: independent_steps "bt_callback c e ev" same_side for c e ev
proof
  show "same_side s t \<Longrightarrow> same_side (bt_callback c e ev m s) (bt_callback c e ev m t)" for s t m
    by (cases m) (simp_all add: bt_callback_def same_on)
qed (rule same_side_refl, erule (1) same_side_trans, rule bt_swap)

lemmas listener_defs = listener_def exclusive_host_listener_def reconnect_watch_listener_def
  lazy_inactive_host_listener_def usb_quiet_listener_def studio_usb_listener_def endpoint_log_listener_def battery_log_listener_def

lemma listeners_bubble: "fst (listener c e ev m s) = ZMK_EV_EVENT_BUBBLE"
  by (cases ev; cases m) (simp_all add: listener_defs)

interpretation listeners: independent_steps "\<lambda>m s. snd (listener c e ev m s)" same_side for c e ev
proof
  show "same_side s t \<Longrightarrow> same_side (snd (listener c e ev m s)) (snd (listener c e ev m t))" for s t m
    by (cases ev; cases m) (simp_all add: listener_defs same_on)
  show "same_side (snd (listener c e ev m (snd (listener c e ev n s)))) (snd (listener c e ev n (snd (listener c e ev m s))))" for m n s
    by (cases ev; cases m; cases n) (simp_all add: listener_defs same_side_def on_defs ac_simps)
qed (rule same_side_refl, erule (1) same_side_trans)

section \<open>Runs\<close>

text \<open>
  \<open>raise\<close> is ZMK's event manager: it calls the listeners one after another, the next one only if the
  last one let the event bubble.
\<close>

definition event_manager_ok :: "(('ep event_side \<Rightarrow> int \<times> 'ep event_side) list \<Rightarrow> 'ep event_side \<Rightarrow> 'ep event_side) \<Rightarrow> bool" where
  "event_manager_ok raise \<longleftrightarrow> (\<forall>s. raise [] s = s)
     \<and> (\<forall>l ls s. raise (l # ls) s = (if fst (l s) = ZMK_EV_EVENT_BUBBLE then raise ls (snd (l s)) else snd (l s)))"

datatype stack_event = On_bt bt_event | On_zmk zmk_event

type_synonym 'ep raised = "'ep stack_env \<times> stack_event \<times> module list"

definition handle_event ::
  "(('ep event_side \<Rightarrow> int \<times> 'ep event_side) list \<Rightarrow> 'ep event_side \<Rightarrow> 'ep event_side) \<Rightarrow> totem_config \<Rightarrow> 'ep raised \<Rightarrow> 'ep event_side \<Rightarrow> 'ep event_side" where
  "handle_event raise c r s = (case r of (e, ev, order) \<Rightarrow>
     (case ev of On_bt b \<Rightarrow> fold (bt_callback c e b) order s | On_zmk z \<Rightarrow> raise (map (listener c e z) order) s))"

lemma raise_fold: "event_manager_ok raise \<Longrightarrow> raise (map (listener c e z) order) s = fold (\<lambda>m s. snd (listener c e z m s)) order s"
  by (induction order arbitrary: s) (simp_all add: event_manager_ok_def listeners_bubble)

text \<open>
  The handlers in one fixed order instead of the order they were linked in, each run if it was linked.
\<close>

definition all_modules :: "module list" where
  "all_modules = [Exclusive_host, Reconnect_watch, Lazy_inactive_host, Hid_connection_log, Conn_params_log,
     Usb_host_quiet, Studio_usb, Endpoint_log, Battery_log]"

definition module_step :: "totem_config \<Rightarrow> 'ep stack_env \<Rightarrow> stack_event \<Rightarrow> module \<Rightarrow> 'ep event_side \<Rightarrow> 'ep event_side" where
  "module_step c e ev m = (case ev of On_bt b \<Rightarrow> bt_callback c e b m | On_zmk z \<Rightarrow> (\<lambda>s. snd (listener c e z m s)))"

definition in_fixed_order :: "totem_config \<Rightarrow> 'ep stack_env \<Rightarrow> stack_event \<Rightarrow> module set \<Rightarrow> 'ep event_side \<Rightarrow> 'ep event_side" where
  "in_fixed_order c e ev linked = fold (\<lambda>m s. if m \<in> linked then module_step c e ev m s else s) all_modules"

lemma fold_if: "fold (\<lambda>x s. if P x then f x s else s) xs s = fold f (filter P xs) s"
  by (induction xs arbitrary: s) simp_all

lemma handled_in_any_order:
  assumes "event_manager_ok raise" and "distinct order"
  shows "same_side (handle_event raise c (e, ev, order) s) (in_fixed_order c e ev (set order) s)"
proof -
  let ?f = "filter (\<lambda>m. m \<in> set order) all_modules"
  have "m \<in> set all_modules" for m by (cases m) (simp_all add: all_modules_def)
  then have "set order = set ?f" by auto
  moreover have "distinct ?f" by (simp add: all_modules_def)
  ultimately have "mset order = mset ?f" using assms(2) by (simp only: set_eq_iff_mset_eq_distinct)
  from callbacks.fold_order [OF this same_side_refl] listeners.fold_order [OF this same_side_refl] show ?thesis
    by (cases ev) (simp_all add: handle_event_def in_fixed_order_def module_step_def fold_if raise_fold [OF assms(1)])
qed

lemma fold_all_modules: "fold f all_modules s
    = f Battery_log (f Endpoint_log (f Studio_usb (f Usb_host_quiet (f Conn_params_log (f Hid_connection_log
        (f Lazy_inactive_host (f Reconnect_watch (f Exclusive_host s))))))))"
  by (simp add: all_modules_def)

section \<open>What the modules do\<close>

text \<open>The immediate scan is queued and the retry is pending, with its old deadline if it had one.\<close>

definition scans_scheduled :: "int \<Rightarrow> excl_sys \<Rightarrow> excl_sys \<Rightarrow> bool" where
  "scans_scheduled now s t \<longleftrightarrow> evict_queued t \<and> retry_due t = Some (case retry_due s of None \<Rightarrow> now + 150 | Some d \<Rightarrow> d)"

text \<open>The selected host needs no recovery: USB carries the keys, advertising is off, or the link is up or open.\<close>

definition no_recovery :: "totem_config \<Rightarrow> ble_env \<Rightarrow> bool" where
  "no_recovery c b \<longleftrightarrow> totem_hid_is_usb b \<or> totem_usb_cable_up c b \<or> zmk_ble_host_adv_suppressed b
     \<or> zmk_ble_active_profile_is_open b \<or> zmk_ble_active_profile_is_connected b"

definition record_if :: "bool \<Rightarrow> 'a \<Rightarrow> 'a multiset" where
  "record_if b x = (if b then {#x#} else {#})"

text \<open>
  The user selects a profile: from \<open>s\<close> to \<open>t\<close> with the modules \<open>linked\<close>.
\<close>

definition switch_heard :: "totem_config \<Rightarrow> 'ep stack_env \<Rightarrow> module set \<Rightarrow> 'ep event_side \<Rightarrow> 'ep event_side \<Rightarrow> bool" where
  "switch_heard c e linked s t \<longleftrightarrow> (let b = st_ble e; now = k_uptime_get b; a = zmk_ble_active_profile_index b; x = sx (es_excl s);
       moved = (a \<noteq> watch_profile_index (es_watch s))
     in (if Exclusive_host \<in> linked then scans_scheduled now (es_excl s) (es_excl t) \<and> fallback_due (es_excl t) = fallback_due (es_excl s)
            \<and> last_active_profile (sx (es_excl t)) = a \<and> disconnects (x_out (sx (es_excl t))) = disconnects (x_out x)
            \<and> (if 0 \<le> last_active_profile x \<and> last_active_profile x \<noteq> a
               then set (bg_ignore_until (sx (es_excl t))) \<subseteq> {0} \<and> (CONFIG_TOTEM_THRASH_DETECT c \<longrightarrow> thrash_ring_count (sx (es_excl t)) = 0)
               else bg_ignore_until (sx (es_excl t)) = bg_ignore_until x \<and> thrash_contents (sx (es_excl t)) = thrash_contents x)
         else es_excl t = es_excl s)
      \<and> (if Reconnect_watch \<in> linked \<and> moved
         then watch_profile_index (es_watch t) = a
            \<and> (if no_recovery c b then next_step (es_watch t) = RECONNECT_STEP_NONE \<and> watch_timer (es_watch t) = None
               else next_step (es_watch t) = RECONNECT_STEP_READV
                  \<and> watch_timer (es_watch t) = Some (reconnect_watch_first_delay_sec c))
         else es_watch t = es_watch s)
      \<and> es_lazy t = (if Lazy_inactive_host \<in> linked then (es_lazy s)\<lparr>lazy_host_work := Some 100\<rparr> else es_lazy s)
      \<and> es_conn t = es_conn s \<and> es_params t = es_params s \<and> es_quiet t = es_quiet s \<and> es_studio t = es_studio s
      \<and> es_endpoint t = es_endpoint s \<and> es_batt t = es_batt s
      \<and> mset (es_calls t) = mset (es_calls s)
          + record_if (Exclusive_host \<in> linked) (now, Log_record (log_args TOTEM_HEVT_PROFILE_CHANGED (to_i8 a) (to_i8 a)
              (bool_u8 (zmk_ble_active_profile_is_connected b)) 0 (bool_u8 (zmk_ble_active_profile_is_open b))))
          + record_if (Reconnect_watch \<in> linked \<and> moved \<and> \<not> no_recovery c b)
              (now, Log_record (log_args TOTEM_HEVT_WATCH_ARM (to_i8 a) (to_i8 a) (to_u8 (reconnect_watch_first_delay_sec c)) 0 0)))"

text \<open>A link breaks, for another reason than a failed authentication.\<close>

definition loss_heard ::
  "totem_config \<Rightarrow> 'ep stack_env \<Rightarrow> bt_conn \<Rightarrow> u8 \<Rightarrow> module set \<Rightarrow> 'ep event_side \<Rightarrow> 'ep event_side \<Rightarrow> bool" where
  "loss_heard c e conn reason linked s t \<longleftrightarrow> (let b = st_ble e; now = k_uptime_get b; a = zmk_ble_active_profile_index b;
       idx = zmk_ble_profile_index b (conn_dst conn)
     in sched (es_excl t) = sched (es_excl s) \<and> guard_vars (sx (es_excl t)) = guard_vars (sx (es_excl s))
      \<and> disconnects (x_out (sx (es_excl t))) = disconnects (x_out (sx (es_excl s)))
      \<and> (if Exclusive_host \<in> linked then length (x_out (sx (es_excl t))) = Suc (length (x_out (sx (es_excl s)))) else es_excl t = es_excl s)
      \<and> es_watch t = (if Reconnect_watch \<in> linked \<and> CONFIG_TOTEM_RECONNECT_WATCH_ON_ACTIVE_DOWN c \<and> 0 \<le> idx \<and> idx = a
            \<and> \<not> totem_hid_is_usb b \<and> \<not> totem_usb_cable_up c b
           then (es_watch s)\<lparr>w_out := w_out (es_watch s) @ [W_submit_active_down]\<rparr> else es_watch s)
      \<and> es_conn t = (if Hid_connection_log \<in> linked
           then (es_conn s)\<lparr>first_security_requests := (first_security_requests (es_conn s))[conn_index conn := False]\<rparr> else es_conn s)
      \<and> es_lazy t = es_lazy s \<and> es_params t = es_params s \<and> es_quiet t = es_quiet s \<and> es_studio t = es_studio s
      \<and> es_endpoint t = es_endpoint s \<and> es_batt t = es_batt s
      \<and> mset (es_calls t) = mset (es_calls s)
          + record_if (Exclusive_host \<in> linked) (now, Log_record (log_args TOTEM_HEVT_DISC (to_i8 idx) (to_i8 a) reason
              (of_nat (thrash_win_count c b (sx (es_excl s))))
              (to_u8 (case conn_info conn of None \<Rightarrow> - 1 | Some info \<Rightarrow> role_num (info_role info))))))"

text \<open>A computer or the right half connects.\<close>

definition connection_heard ::
  "totem_config \<Rightarrow> 'ep stack_env \<Rightarrow> bt_conn \<Rightarrow> u16 option \<Rightarrow> module set \<Rightarrow> 'ep event_side \<Rightarrow> 'ep event_side \<Rightarrow> bool" where
  "connection_heard c e conn handle linked s t \<longleftrightarrow> (let b = st_ble e; now = k_uptime_get b; a = zmk_ble_active_profile_index b;
       idx = zmk_ble_profile_index b (conn_dst conn); i = conn_index conn
     in (if Exclusive_host \<in> linked then scans_scheduled now (es_excl s) (es_excl t) \<and> fallback_due (es_excl t) = Some (now + 2000)
         else es_excl t = es_excl s)
      \<and> guard_vars (sx (es_excl t)) = guard_vars (sx (es_excl s))
      \<and> disconnects (x_out (sx (es_excl t))) = disconnects (x_out (sx (es_excl s)))
      \<and> es_watch t = (if Reconnect_watch \<in> linked \<and> zmk_ble_active_profile_is_connected b
           then (es_watch s)\<lparr>next_step := RECONNECT_STEP_NONE, ladder_from_active_down := False, watch_timer := None\<rparr> else es_watch s)
      \<and> es_lazy t = (if Lazy_inactive_host \<in> linked then (es_lazy s)\<lparr>lazy_host_work := Some 100\<rparr> else es_lazy s)
      \<and> (if Hid_connection_log \<in> linked
         then first_attempts (es_conn t) = (first_attempts (es_conn s))[i := False]
            \<and> first_subscriptions (es_conn t) = (first_subscriptions (es_conn s))[i := False]
            \<and> first_errors (es_conn t) = (first_errors (es_conn s))[i := False]
            \<and> tracked_sends (es_conn t) = (tracked_sends (es_conn s))[i := False]
         else es_conn t = es_conn s)
      \<and> es_params t = es_params s @ (if Conn_params_log \<in> linked
           then (case conn_params_connected (st_addr_str e) conn 0 of None \<Rightarrow> [] | Some l \<Rightarrow> [l]) else [])
      \<and> es_quiet t = es_quiet s \<and> es_studio t = es_studio s \<and> es_endpoint t = es_endpoint s \<and> es_batt t = es_batt s
      \<and> mset (es_calls t) = mset (es_calls s)
          + record_if (Exclusive_host \<in> linked) (now, Log_record (log_args TOTEM_HEVT_CONN (to_i8 idx) (to_i8 a) 0
              (of_nat (thrash_win_count c b (sx (es_excl s)))) 0))
          + (case handle of None \<Rightarrow> {#} | Some h \<Rightarrow> record_if (Hid_connection_log \<in> linked)
              (now, Log_record_timing (log_args TOTEM_HEVT_CONN_HANDLE (to_i8 idx) (to_i8 a) (ucast h) 0 (ucast (drop_bit 8 h))))))"

text \<open>The selected or the preferred endpoint changes; the event carries the new transport.\<close>

definition endpoint_heard ::
  "'ep stack_env \<Rightarrow> zmk_transport \<Rightarrow> module set \<Rightarrow> 'ep event_side \<Rightarrow> 'ep event_side \<Rightarrow> bool" where
  "endpoint_heard e transport linked s t \<longleftrightarrow> (let z = st_ep_ops e; (selected, preferred) = st_endpoints e; l = es_endpoint s;
       known = (have_last l \<and> zmk_endpoint_instance_eq z selected (last_selected l)
          \<and> zmk_endpoint_instance_eq z preferred (last_preferred l));
       usb = log_args TOTEM_HEVT_USB (- 1) (- 1) 0xFF 0 (st_transport_num e transport)
     in es_endpoint t = (if Endpoint_log \<in> linked \<and> \<not> known
           then l\<lparr>last_selected := selected, last_preferred := preferred, have_last := True,
              ep_lines := ep_lines l @ [endpoint_line z ''changed'' (selected, preferred)]\<rparr> else l)
      \<and> es_studio t = (if Studio_usb \<in> linked
           then (es_studio s)\<lparr>totem_studio_usb_work := Some 200, su_out := su_out (es_studio s) @ [SU_log usb]\<rparr> else es_studio s)
      \<and> es_excl t = es_excl s \<and> es_watch t = es_watch s \<and> es_lazy t = es_lazy s \<and> es_conn t = es_conn s
      \<and> es_params t = es_params s \<and> es_quiet t = es_quiet s \<and> es_batt t = es_batt s
      \<and> mset (es_calls t) = mset (es_calls s) + record_if (Studio_usb \<in> linked) (k_uptime_get (st_ble e), Log_record usb))"

text \<open>Exclusive host's part of the three events.\<close>

lemma callback_sched:
  "is_callback ev \<Longrightarrow> sched (run_handler (excl_step c b ev) x) = sched (fold apply_work (asked b ev) x)"
  by (intro run_handler_sched excl_step_prefix callback_works)

lemma asked_scheduled:
  assumes "sched y = sched (fold apply_work (asked b ev) x)" and "is_trigger ev"
  shows "scans_scheduled (k_uptime_get b) x y"
    and "fallback_due y = (case ev of X_connected conn err \<Rightarrow> Some (k_uptime_get b + 2000) | _ \<Rightarrow> fallback_due x)"
  using assms by (cases ev; auto simp: scans_scheduled_def sched_def asked_def apply_work_def split: option.splits)+

lemma class_a_ok_out: "x_out (class_a_note_auth_event c b False x) = x_out x"
  by (simp add: class_a_note_auth_event_def Let_def)

lemma guard_vars_contents:
  "guard_vars x = guard_vars y \<Longrightarrow> bg_ignore_until x = bg_ignore_until y \<and> thrash_contents x = thrash_contents y
     \<and> last_active_profile x = last_active_profile y"
  by (simp add: guard_vars_def thrash_contents_def)

lemma switch_out:
  "x_out (exclusive_host_profile_changed c b x) = x_out x @ map (Pair (k_uptime_get b))
     [X_log (log_args TOTEM_HEVT_PROFILE_CHANGED (to_i8 (zmk_ble_active_profile_index b)) (to_i8 (zmk_ble_active_profile_index b))
        (bool_u8 (zmk_ble_active_profile_is_connected b)) 0 (bool_u8 (zmk_ble_active_profile_is_open b))),
      X_submit_evict, X_schedule_retry 150]"
  by (simp add: excl_callback_defs class_a_ok_out)

lemma switch_clears:
  assumes "0 \<le> last_active_profile x" and "last_active_profile x \<noteq> zmk_ble_active_profile_index b"
  shows "set (bg_ignore_until (exclusive_host_profile_changed c b x)) \<subseteq> {0}"
    and "CONFIG_TOTEM_THRASH_DETECT c \<Longrightarrow> thrash_ring_count (exclusive_host_profile_changed c b x) = 0"
  using assms class_a_quiet [of _ c b False]
  by (auto simp: excl_callback_defs thrash_clear_def bg_clear_ignores_def quiet_def guard_vars_def)

lemma switch_selects: "last_active_profile (exclusive_host_profile_changed c b x) = zmk_ble_active_profile_index b"
  using class_a_quiet [of _ c b False]
  by (auto simp: excl_callback_defs thrash_clear_def bg_clear_ignores_def quiet_def guard_vars_def)

lemma loss_out:
  assumes "conn_idx b conn = zmk_ble_active_profile_index b \<Longrightarrow> reason \<noteq> BT_HCI_ERR_AUTH_FAIL"
  shows "x_out (exclusive_host_disconnected c b conn reason x) = x_out x @ [(k_uptime_get b,
     X_log (log_args TOTEM_HEVT_DISC (to_i8 (conn_idx b conn)) (to_i8 (zmk_ble_active_profile_index b)) reason
       (of_nat (thrash_win_count c b x))
       (to_u8 (case conn_info conn of None \<Rightarrow> - 1 | Some info \<Rightarrow> role_num (info_role info)))))]"
  using assms by (auto simp: excl_callback_defs)

lemma connection_out:
  "x_out (exclusive_host_connected c b conn 0 x) = x_out x @ map (Pair (k_uptime_get b))
     [X_log (log_args TOTEM_HEVT_CONN (to_i8 (conn_idx b conn)) (to_i8 (zmk_ble_active_profile_index b)) 0
        (of_nat (thrash_win_count c b x)) 0),
      X_submit_evict, X_schedule_retry 150, X_reschedule_fallback 2000]"
  by (simp add: excl_callback_defs)

lemma heard_same_side:
  assumes "same_side t u"
  shows "switch_heard c e linked s u \<Longrightarrow> switch_heard c e linked s t"
    and "loss_heard c e conn reason linked s u \<Longrightarrow> loss_heard c e conn reason linked s t"
    and "connection_heard c e conn handle linked s u \<Longrightarrow> connection_heard c e conn handle linked s t"
    and "endpoint_heard e transport linked s u \<Longrightarrow> endpoint_heard e transport linked s t"
proof -
  have eq: "es_excl t = es_excl u" "es_watch t = es_watch u" "es_lazy t = es_lazy u" "es_conn t = es_conn u"
    "es_params t = es_params u" "es_quiet t = es_quiet u" "es_studio t = es_studio u" "es_endpoint t = es_endpoint u"
    "es_batt t = es_batt u" "mset (es_calls t) = mset (es_calls u)" using assms by (simp_all only: same_side_def)
  show "switch_heard c e linked s u \<Longrightarrow> switch_heard c e linked s t" unfolding switch_heard_def eq .
  show "loss_heard c e conn reason linked s u \<Longrightarrow> loss_heard c e conn reason linked s t" unfolding loss_heard_def eq .
  show "connection_heard c e conn handle linked s u \<Longrightarrow> connection_heard c e conn handle linked s t"
    unfolding connection_heard_def eq .
  show "endpoint_heard e transport linked s u \<Longrightarrow> endpoint_heard e transport linked s t" unfolding endpoint_heard_def eq .
qed

text \<open>The modules that hear an event, one after another.\<close>

definition linked_step :: "bool \<Rightarrow> ('ep event_side \<Rightarrow> 'ep event_side) \<Rightarrow> 'ep event_side \<Rightarrow> 'ep event_side" where
  "linked_step linked f s = (if linked then f s else s)"

lemma linked_step_id [simp]: "linked_step b (\<lambda>s. s) = (\<lambda>s. s)"
  by (simp add: linked_step_def fun_eq_iff)

lemma in_fixed_order_linked: "in_fixed_order c e ev linked s
    = fold (\<lambda>m. linked_step (m \<in> linked) (module_step c e ev m)) all_modules s"
  by (simp add: in_fixed_order_def linked_step_def [abs_def])

lemmas hearers_defs = in_fixed_order_linked fold_all_modules module_step_def listener_defs bt_callback_def

lemma endpoint_hearers: "in_fixed_order c e (On_zmk (Zmk_endpoint_changed transport)) linked s
    = linked_step (Endpoint_log \<in> linked) (on_endpoint (totem_endpoint_changed_listener (st_ep_ops e) (st_endpoints e) True))
        (linked_step (Studio_usb \<in> linked) (on_studio (k_uptime_get (st_ble e)) (totem_studio_usb_listener (st_transport_num e)
        (zmk_endpoint_selected_transport (st_ble e)) (Endpoint_changed transport))) s)"
  by (simp add: hearers_defs)

lemma endpoint_in_fixed_order:
  "endpoint_heard e transport linked s (in_fixed_order c e (On_zmk (Zmk_endpoint_changed transport)) linked s)"
  unfolding endpoint_heard_def endpoint_hearers
  by (cases "Endpoint_log \<in> linked"; cases "Studio_usb \<in> linked"; cases "st_endpoints e")
    (simp_all add: linked_step_def on_defs totem_endpoint_changed_listener_def totem_print_endpoints_def
      totem_studio_usb_listener_def totem_studio_usb_kick_def su_emit_def record_if_def)

lemma switch_hearers: "in_fixed_order c e (On_zmk Zmk_ble_active_profile_changed) linked s
    = linked_step (Lazy_inactive_host \<in> linked) (on_lazy lazy_host_profile_changed)
        (linked_step (Reconnect_watch \<in> linked) (on_watch (k_uptime_get (st_ble e)) (reconnect_watch_profile_changed c (st_ble e)))
        (linked_step (Exclusive_host \<in> linked) (on_excl (run_handler (excl_step c (st_ble e) X_profile_changed))) s))"
  by (simp add: hearers_defs)

lemma nothing_heard [simp]: "on_lazy (\<lambda>s. s) = (\<lambda>s. s)" "on_params None = (\<lambda>s. s)"
  by (simp_all add: on_lazy_def on_params_def fun_eq_iff)

lemma loss_hearers: "in_fixed_order c e (On_bt (Bt_disconnected conn reason)) linked s
    = linked_step (Hid_connection_log \<in> linked) (on_conn (security_log_disconnected conn))
        (linked_step (Reconnect_watch \<in> linked) (on_watch (k_uptime_get (st_ble e)) (reconnect_watch_disconnected c (st_ble e) conn))
        (linked_step (Exclusive_host \<in> linked) (on_excl (run_handler (excl_step c (st_ble e) (X_disconnected conn reason)))) s))"
  by (simp add: hearers_defs exclusive_host_cb_def reconnect_watch_cb_def lazy_inactive_host_cb_def hid_connection_log_cb_def
      conn_params_log_cb_def)

lemma connection_hearers: "in_fixed_order c e (On_bt (Bt_connected conn 0 handle)) linked s
    = linked_step (Conn_params_log \<in> linked) (on_params (conn_params_connected (st_addr_str e) conn 0))
        (linked_step (Hid_connection_log \<in> linked) (on_conn (hid_log_connected (st_ble e) (\<lambda>_. handle) conn 0))
        (linked_step (Lazy_inactive_host \<in> linked) (on_lazy (lazy_host_connected 0))
        (linked_step (Reconnect_watch \<in> linked) (on_watch (k_uptime_get (st_ble e)) (reconnect_watch_connected (st_ble e) 0))
        (linked_step (Exclusive_host \<in> linked) (on_excl (run_handler (excl_step c (st_ble e) (X_connected conn 0)))) s))))"
  by (simp add: hearers_defs exclusive_host_cb_def reconnect_watch_cb_def lazy_inactive_host_cb_def hid_connection_log_cb_def
      conn_params_log_cb_def)

text \<open>Each module changes its own part of the state and adds its records.\<close>

definition records_if :: "bool \<Rightarrow> 'a list \<Rightarrow> 'a multiset" where
  "records_if b xs = (if b then mset xs else {#})"

lemma linked_excl:
  assumes "t = linked_step b (on_excl f) s"
  shows "es_excl t = (if b then f (es_excl s) else es_excl s)" "es_watch t = es_watch s" "es_lazy t = es_lazy s" "es_conn t = es_conn s"
    "es_params t = es_params s" "es_quiet t = es_quiet s" "es_studio t = es_studio s" "es_endpoint t = es_endpoint s"
    "es_batt t = es_batt s" "mset (es_calls t) = mset (es_calls s)
      + records_if b (excl_calls (drop (length (x_out (sx (es_excl s)))) (x_out (sx (f (es_excl s))))))"
  using assms by (simp_all add: linked_step_def on_excl_def records_if_def Let_def)

lemma linked_watch:
  assumes "t = linked_step b (on_watch now f) s"
  shows "es_excl t = es_excl s" "es_watch t = (if b then f (es_watch s) else es_watch s)" "es_lazy t = es_lazy s" "es_conn t = es_conn s"
    "es_params t = es_params s" "es_quiet t = es_quiet s" "es_studio t = es_studio s" "es_endpoint t = es_endpoint s"
    "es_batt t = es_batt s" "mset (es_calls t) = mset (es_calls s)
      + records_if b (map (\<lambda>a. (now, Log_record a)) (w_logs (drop (length (w_out (es_watch s))) (w_out (f (es_watch s))))))"
  using assms by (simp_all add: linked_step_def on_watch_def records_if_def Let_def)

lemma linked_lazy:
  assumes "t = linked_step b (on_lazy f) s"
  shows "es_excl t = es_excl s" "es_watch t = es_watch s" "es_lazy t = (if b then f (es_lazy s) else es_lazy s)" "es_conn t = es_conn s"
    "es_params t = es_params s" "es_quiet t = es_quiet s" "es_studio t = es_studio s" "es_endpoint t = es_endpoint s"
    "es_batt t = es_batt s" "mset (es_calls t) = mset (es_calls s)"
  using assms by (simp_all add: linked_step_def on_lazy_def)

lemma linked_conn:
  assumes "t = linked_step b (on_conn f) s"
  shows "es_excl t = es_excl s" "es_watch t = es_watch s" "es_lazy t = es_lazy s" "es_conn t = (if b then f (es_conn s) else es_conn s)"
    "es_params t = es_params s" "es_quiet t = es_quiet s" "es_studio t = es_studio s" "es_endpoint t = es_endpoint s"
    "es_batt t = es_batt s" "mset (es_calls t) = mset (es_calls s)
      + records_if b (drop (length (cl_out (es_conn s))) (cl_out (f (es_conn s))))"
  using assms by (simp_all add: linked_step_def on_conn_def records_if_def Let_def)

lemma linked_params:
  assumes "t = linked_step b (on_params line) s"
  shows "es_excl t = es_excl s" "es_watch t = es_watch s" "es_lazy t = es_lazy s" "es_conn t = es_conn s"
    "es_params t = es_params s @ (if b then (case line of None \<Rightarrow> [] | Some l \<Rightarrow> [l]) else [])"
    "es_quiet t = es_quiet s" "es_studio t = es_studio s" "es_endpoint t = es_endpoint s"
    "es_batt t = es_batt s" "mset (es_calls t) = mset (es_calls s)"
  using assms by (cases line; simp add: linked_step_def on_params_def)+

lemma watch_switch:
  assumes "a = zmk_ble_active_profile_index b" and "w = reconnect_watch_profile_changed c b x"
  shows "if a \<noteq> watch_profile_index x
      then watch_profile_index w = a
         \<and> (if no_recovery c b then next_step w = RECONNECT_STEP_NONE \<and> watch_timer w = None
            else next_step w = RECONNECT_STEP_READV \<and> watch_timer w = Some (reconnect_watch_first_delay_sec c))
      else w = x"
    and "w_logs (drop (length (w_out x)) (w_out w)) = (if a \<noteq> watch_profile_index x \<and> \<not> no_recovery c b
      then [log_args TOTEM_HEVT_WATCH_ARM (to_i8 a) (to_i8 a) (to_u8 (reconnect_watch_first_delay_sec c)) 0 0] else [])"
  unfolding assms by (simp_all add: reconnect_watch_profile_changed_def reconnect_watch_arm_full_def reconnect_watch_reset_def
      watch_reschedule_def no_recovery_def Let_def)

lemma switch_in_fixed_order:
  "switch_heard c e linked s (in_fixed_order c e (On_zmk Zmk_ble_active_profile_changed) linked s)"
proof -
  let ?b = "st_ble e"
  let ?f = "run_handler (excl_step c ?b X_profile_changed)" and ?w = "reconnect_watch_profile_changed c ?b"
  define s1 where "s1 = linked_step (Exclusive_host \<in> linked) (on_excl ?f) s"
  define s2 where "s2 = linked_step (Reconnect_watch \<in> linked) (on_watch (k_uptime_get ?b) ?w) s1"
  define s3 where "s3 = linked_step (Lazy_inactive_host \<in> linked) (on_lazy lazy_host_profile_changed) s2"
  have t: "in_fixed_order c e (On_zmk Zmk_ble_active_profile_changed) linked s = s3"
    by (simp only: switch_hearers s1_def s2_def s3_def)
  note f = linked_excl [OF s1_def] linked_watch [OF s2_def] linked_lazy [OF s3_def]
  let ?y = "?f (es_excl s)" and ?x = "sx (es_excl s)"
  have y: "sx ?y = exclusive_host_profile_changed c ?b ?x" by simp
  note q = profile_changed_quiet [of ?x ?b c]
  have sched: "scans_scheduled (k_uptime_get ?b) (es_excl s) ?y" "fallback_due ?y = fallback_due (es_excl s)"
    using asked_scheduled [OF callback_sched [of X_profile_changed c ?b "es_excl s"]] by simp_all
  have calls: "excl_calls (drop (length (x_out ?x)) (x_out (sx ?y))) = [(k_uptime_get ?b,
      Log_record (log_args TOTEM_HEVT_PROFILE_CHANGED (to_i8 (zmk_ble_active_profile_index ?b)) (to_i8 (zmk_ble_active_profile_index ?b))
        (bool_u8 (zmk_ble_active_profile_is_connected ?b)) 0 (bool_u8 (zmk_ble_active_profile_is_open ?b))))]"
    unfolding y switch_out by simp
  have disc: "disconnects (x_out (sx ?y)) = disconnects (x_out ?x)" unfolding y switch_out by simp
  have sel: "last_active_profile (sx ?y) = zmk_ble_active_profile_index ?b" unfolding y by (rule switch_selects)
  have guards: "if 0 \<le> last_active_profile ?x \<and> last_active_profile ?x \<noteq> zmk_ble_active_profile_index ?b
      then set (bg_ignore_until (sx ?y)) \<subseteq> {0} \<and> (CONFIG_TOTEM_THRASH_DETECT c \<longrightarrow> thrash_ring_count (sx ?y) = 0)
      else bg_ignore_until (sx ?y) = bg_ignore_until ?x \<and> thrash_contents (sx ?y) = thrash_contents ?x"
    unfolding y using switch_clears [of ?x ?b c] guard_vars_contents [OF q(2)]
    by (auto simp: thrash_contents_def)
  note w = watch_switch [where b = ?b and x = "es_watch s" and c = c, OF refl refl]
  show ?thesis
    unfolding t switch_heard_def Let_def f calls w(2)
    using sched disc sel guards w(1)
    by (simp add: lazy_host_profile_changed_def lazy_host_schedule_def record_if_def records_if_def del: run_handler_sx)
qed

lemma loss_in_fixed_order:
  assumes "zmk_ble_profile_index (st_ble e) (conn_dst conn) = zmk_ble_active_profile_index (st_ble e) \<Longrightarrow> reason \<noteq> BT_HCI_ERR_AUTH_FAIL"
  shows "loss_heard c e conn reason linked s (in_fixed_order c e (On_bt (Bt_disconnected conn reason)) linked s)"
proof -
  let ?b = "st_ble e"
  let ?f = "run_handler (excl_step c ?b (X_disconnected conn reason))" and ?w = "reconnect_watch_disconnected c ?b conn"
  define s1 where "s1 = linked_step (Exclusive_host \<in> linked) (on_excl ?f) s"
  define s2 where "s2 = linked_step (Reconnect_watch \<in> linked) (on_watch (k_uptime_get ?b) ?w) s1"
  define s3 where "s3 = linked_step (Hid_connection_log \<in> linked) (on_conn (security_log_disconnected conn)) s2"
  have t: "in_fixed_order c e (On_bt (Bt_disconnected conn reason)) linked s = s3"
    by (simp only: loss_hearers s1_def s2_def s3_def)
  note f = linked_excl [OF s1_def] linked_watch [OF s2_def] linked_conn [OF s3_def]
  let ?y = "?f (es_excl s)" and ?x = "sx (es_excl s)"
  have y: "sx ?y = exclusive_host_disconnected c ?b conn reason ?x" by simp
  have quiet: "guard_vars (sx ?y) = guard_vars ?x" "disconnects (x_out (sx ?y)) = disconnects (x_out ?x)"
    unfolding y using callbacks_quiet(3) [of ?x c ?b conn reason] by (simp_all add: quiet_def)
  have sched: "sched ?y = sched (es_excl s)"
    using callback_sched [of "X_disconnected conn reason" c ?b "es_excl s"] by (simp add: asked_def)
  note out = loss_out [where c = c and x = ?x and b = ?b and conn = conn, OF assms, folded y]
  have watch: "?w (es_watch s) = (if CONFIG_TOTEM_RECONNECT_WATCH_ON_ACTIVE_DOWN c \<and> 0 \<le> conn_idx ?b conn
        \<and> conn_idx ?b conn = zmk_ble_active_profile_index ?b \<and> \<not> totem_hid_is_usb ?b \<and> \<not> totem_usb_cable_up c ?b
      then (es_watch s)\<lparr>w_out := w_out (es_watch s) @ [W_submit_active_down]\<rparr> else es_watch s)"
    by (simp add: reconnect_watch_disconnected_def w_emit_def Let_def)
  have no_logs: "w_logs (drop (length (w_out (es_watch s))) (w_out (?w (es_watch s)))) = []" unfolding watch by simp
  show ?thesis
    unfolding t loss_heard_def Let_def f no_logs
    using quiet sched out watch by (simp add: security_log_disconnected_def record_if_def records_if_def del: run_handler_sx)
qed

lemma connection_in_fixed_order:
  "connection_heard c e conn handle linked s (in_fixed_order c e (On_bt (Bt_connected conn 0 handle)) linked s)"
proof -
  let ?b = "st_ble e"
  let ?f = "run_handler (excl_step c ?b (X_connected conn 0))" and ?w = "reconnect_watch_connected ?b 0"
    and ?h = "hid_log_connected ?b (\<lambda>_. handle) conn 0"
  define s1 where "s1 = linked_step (Exclusive_host \<in> linked) (on_excl ?f) s"
  define s2 where "s2 = linked_step (Reconnect_watch \<in> linked) (on_watch (k_uptime_get ?b) ?w) s1"
  define s3 where "s3 = linked_step (Lazy_inactive_host \<in> linked) (on_lazy (lazy_host_connected 0)) s2"
  define s4 where "s4 = linked_step (Hid_connection_log \<in> linked) (on_conn ?h) s3"
  define s5 where "s5 = linked_step (Conn_params_log \<in> linked) (on_params (conn_params_connected (st_addr_str e) conn 0)) s4"
  have t: "in_fixed_order c e (On_bt (Bt_connected conn 0 handle)) linked s = s5"
    by (simp only: connection_hearers s1_def s2_def s3_def s4_def s5_def)
  note f = linked_excl [OF s1_def] linked_watch [OF s2_def] linked_lazy [OF s3_def] linked_conn [OF s4_def] linked_params [OF s5_def]
  let ?y = "?f (es_excl s)" and ?x = "sx (es_excl s)"
  have y: "sx ?y = exclusive_host_connected c ?b conn 0 ?x" by simp
  have quiet: "guard_vars (sx ?y) = guard_vars ?x" "disconnects (x_out (sx ?y)) = disconnects (x_out ?x)"
    unfolding y using callbacks_quiet(1) [of ?x c ?b conn 0] by (simp_all add: quiet_def)
  have sched: "scans_scheduled (k_uptime_get ?b) (es_excl s) ?y" "fallback_due ?y = Some (k_uptime_get ?b + 2000)"
    using asked_scheduled [OF callback_sched [of "X_connected conn 0" c ?b "es_excl s"]] by simp_all
  note out = connection_out [where c = c and b = ?b and conn = conn and x = ?x, folded y]
  have watch: "?w (es_watch s) = (if zmk_ble_active_profile_is_connected ?b
      then (es_watch s)\<lparr>next_step := RECONNECT_STEP_NONE, ladder_from_active_down := False, watch_timer := None\<rparr> else es_watch s)"
    by (simp add: reconnect_watch_connected_def reconnect_watch_reset_def)
  have no_logs: "w_logs (drop (length (w_out (es_watch s))) (w_out (?w (es_watch s)))) = []" unfolding watch by simp
  have conn: "drop (length (cl_out (es_conn s))) (cl_out (?h (es_conn s))) = (case handle of None \<Rightarrow> []
      | Some h \<Rightarrow> [(k_uptime_get ?b, Log_record_timing (log_args TOTEM_HEVT_CONN_HANDLE (to_i8 (conn_idx ?b conn))
          (to_i8 (zmk_ble_active_profile_index ?b)) (ucast h) 0 (ucast (drop_bit 8 h))))])"
    by (simp add: hid_log_connected_def cl_emit_def peer_idx_def active_idx_def Let_def split: option.split)
  have bits: "first_attempts (?h (es_conn s)) = (first_attempts (es_conn s))[conn_index conn := False]"
    "first_subscriptions (?h (es_conn s)) = (first_subscriptions (es_conn s))[conn_index conn := False]"
    "first_errors (?h (es_conn s)) = (first_errors (es_conn s))[conn_index conn := False]"
    "tracked_sends (?h (es_conn s)) = (tracked_sends (es_conn s))[conn_index conn := False]"
    by (simp_all add: hid_log_connected_def cl_emit_def Let_def split: option.split)
  show ?thesis
    unfolding t connection_heard_def Let_def f no_logs conn
    using quiet sched out watch bits
    by (simp add: lazy_host_connected_def lazy_host_schedule_def record_if_def records_if_def split: option.split del: run_handler_sx)
qed

section \<open>Properties\<close>

text \<open>
  C21. What every module does on a profile switch, a lost link, a new link and an endpoint change,
  in whatever order the linker placed the linked modules' callback structures and listeners. A switch
  makes exclusive host queue its scan and retry and, when it moves to another profile, drop the ignore
  times and the storm count; it arms or resets reconnect watch, and wakes the lazy host. A lost link of
  the selected computer, for another reason than a failed authentication, makes reconnect watch submit
  its arming work, schedules no scan and reopens the slot's security latch. A new link queues exclusive
  host's scan, retry and settle scan, stops the ladder when the selected computer is up, and clears the
  slot's latches. An endpoint change is printed by the endpoint log if it is news and kicks Studio's
  preference. Every other module stays as it was, no computer is disconnected before the work items
  run, and the journal is handed exactly the records listed, each once.
\<close>

theorem link_events_handled:
  assumes "event_manager_ok raise" and "distinct order"
    and "\<not> (zmk_ble_profile_index (st_ble e) (conn_dst conn) = zmk_ble_active_profile_index (st_ble e) \<and> reason = BT_HCI_ERR_AUTH_FAIL)"
  shows "switch_heard c e (set order) s (handle_event raise c (e, On_zmk Zmk_ble_active_profile_changed, order) s)
    \<and> loss_heard c e conn reason (set order) s (handle_event raise c (e, On_bt (Bt_disconnected conn reason), order) s)
    \<and> connection_heard c e conn handle (set order) s (handle_event raise c (e, On_bt (Bt_connected conn 0 handle), order) s)
    \<and> endpoint_heard e transport (set order) s (handle_event raise c (e, On_zmk (Zmk_endpoint_changed transport), order) s)"
proof (intro conjI)
  note any = handled_in_any_order [OF assms(1,2), of c e]
  show "switch_heard c e (set order) s (handle_event raise c (e, On_zmk Zmk_ble_active_profile_changed, order) s)"
    by (rule heard_same_side(1) [OF any switch_in_fixed_order])
  show "loss_heard c e conn reason (set order) s (handle_event raise c (e, On_bt (Bt_disconnected conn reason), order) s)"
    by (rule heard_same_side(2) [OF any loss_in_fixed_order]) (use assms(3) in blast)
  show "connection_heard c e conn handle (set order) s (handle_event raise c (e, On_bt (Bt_connected conn 0 handle), order) s)"
    by (rule heard_same_side(3) [OF any connection_in_fixed_order])
  show "endpoint_heard e transport (set order) s (handle_event raise c (e, On_zmk (Zmk_endpoint_changed transport), order) s)"
    by (rule heard_same_side(4) [OF any endpoint_in_fixed_order])
qed

text \<open>The boot state, and an event manager that stops at the first listener that keeps the event.\<close>

definition event_side_boot :: "totem_config \<Rightarrow> ble_env \<Rightarrow> int event_side" where
  "event_side_boot c e = \<lparr>es_excl = excl_sys_boot c, es_watch = reconnect_watch_init e,
     es_lazy = \<lparr>lazy_host_work = None, l_out = []\<rparr>, es_conn = conn_log_boot c, es_params = [],
     es_quiet = usb_host_quiet_init, es_studio = totem_studio_usb_init,
     es_endpoint = totem_endpoint_log_init c \<lparr>last_selected = 0, last_preferred = 0, have_last = False,
       totem_endpoint_boot_work = None, totem_endpoint_poll_work = None, ep_lines = []\<rparr>,
     es_batt = totem_battery_log_init c, es_calls = []\<rparr>"

fun first_bubbling :: "('ep event_side \<Rightarrow> int \<times> 'ep event_side) list \<Rightarrow> 'ep event_side \<Rightarrow> 'ep event_side" where
  "first_bubbling [] s = s"
| "first_bubbling (l # ls) s = (if fst (l s) = ZMK_EV_EVENT_BUBBLE then first_bubbling ls (snd (l s)) else snd (l s))"

lemma first_bubbling_ok: "event_manager_ok first_bubbling"
  by (simp add: event_manager_ok_def)

text \<open>Profile 1 is selected, its computer is down; endpoints are numbers.\<close>

definition demo_stack :: "int \<Rightarrow> int stack_env" where
  "demo_stack t = \<lparr>st_ble = lost_env\<lparr>k_uptime_get := t, zmk_ble_active_profile_index := 1\<rparr>, st_addr_str = (\<lambda>_. ''a''),
     st_transport_num = (\<lambda>_. 0),
     st_ep_ops = \<lparr>zmk_endpoint_instance_eq = (=), zmk_endpoint_instance_to_str = (\<lambda>n. Some (fmt_d n))\<rparr>, st_endpoints = (1, 2),
     st_batt = batt_sample 0, st_studio_battery = True, st_charge_status = True\<rparr>"

theorem link_events_handled_witness:
  "let c = totem_left_config; e = demo_stack 20; s = event_side_boot c lost_env;
       order = [Endpoint_log, Studio_usb, Hid_connection_log, Reconnect_watch, Exclusive_host];
       switched = handle_event first_bubbling c (e, On_zmk Zmk_ble_active_profile_changed, order) s;
       lost = handle_event first_bubbling c (e, On_bt (Bt_disconnected (demo_conn 1) 8), order) s;
       linked = handle_event first_bubbling c (e, On_bt (Bt_connected (demo_conn 1) 0 (Some 5)), order) s;
       moved = handle_event first_bubbling c (e, On_zmk (Zmk_endpoint_changed ZMK_TRANSPORT_USB), order) s
   in switch_heard c e (set order) s switched \<and> loss_heard c e (demo_conn 1) 8 (set order) s lost
      \<and> connection_heard c e (demo_conn 1) (Some 5) (set order) s linked \<and> endpoint_heard e ZMK_TRANSPORT_USB (set order) s moved
      \<and> retry_due (es_excl switched) = Some 170 \<and> next_step (es_watch switched) = RECONNECT_STEP_READV
      \<and> w_out (es_watch lost) = [W_submit_active_down] \<and> fallback_due (es_excl linked) = Some 2020
      \<and> ep_lines (es_endpoint moved) = [''totem_ep changed selected=1 preferred=2  FALLBACK'']
      \<and> map (length \<circ> es_calls) [switched, lost, linked, moved] = [2, 1, 2, 1]"
proof -
  let ?c = totem_left_config and ?e = "demo_stack 20" and ?order = "[Endpoint_log, Studio_usb, Hid_connection_log, Reconnect_watch, Exclusive_host]"
  let ?s = "event_side_boot ?c lost_env"
  let ?h = "\<lambda>ev. handle_event first_bubbling ?c (?e, ev, ?order) ?s"
  have v: "retry_due (es_excl (?h (On_zmk Zmk_ble_active_profile_changed))) = Some 170"
    "next_step (es_watch (?h (On_zmk Zmk_ble_active_profile_changed))) = RECONNECT_STEP_READV"
    "w_out (es_watch (?h (On_bt (Bt_disconnected (demo_conn 1) 8)))) = [W_submit_active_down]"
    "fallback_due (es_excl (?h (On_bt (Bt_connected (demo_conn 1) 0 (Some 5))))) = Some 2020"
    "ep_lines (es_endpoint (?h (On_zmk (Zmk_endpoint_changed ZMK_TRANSPORT_USB)))) = [''totem_ep changed selected=1 preferred=2  FALLBACK'']"
    "map (length \<circ> es_calls) [?h (On_zmk Zmk_ble_active_profile_changed), ?h (On_bt (Bt_disconnected (demo_conn 1) 8)),
       ?h (On_bt (Bt_connected (demo_conn 1) 0 (Some 5))), ?h (On_zmk (Zmk_endpoint_changed ZMK_TRANSPORT_USB))] = [2, 1, 2, 1]"
    by code_simp+
  have d: "distinct ?order" by simp
  have r: "\<not> (zmk_ble_profile_index (st_ble ?e) (conn_dst (demo_conn 1)) = zmk_ble_active_profile_index (st_ble ?e) \<and> (8 :: u8) = BT_HCI_ERR_AUTH_FAIL)"
    by simp
  from link_events_handled [OF first_bubbling_ok d r, of ?c ?s "Some 5" ZMK_TRANSPORT_USB] v show ?thesis
    unfolding Let_def by blast
qed

end
