(* ===== verification/Diagnostic_Timing.thy ===== *)
theory Diagnostic_Timing
  imports Host_Event_Log
begin

text \<open>
  The timing inbox, \<open>src/diagnostic_timing.c\<close>: a bounded queue filled from controller and
  interrupt paths, which a work item drains into the journal with the original timestamps. The
  theory also has the link-time wrapper of \<open>settings_save_one\<close>; the wrapper of
  \<open>bt_conn_set_state\<close> calls the handoff observers and is in \<open>Handoff_Diagnostics\<close>.
\<close>

section \<open>Inbox\<close>

record timing_record =
  tr_uptime_ms :: u32
  tr_type :: totem_host_evt
  tr_idx :: i8
  tr_active :: i8
  tr_reason :: u8
  tr_pair :: u8
  tr_extra :: u8

record timing =
  timing_inbox :: "timing_record list"
  timing_head :: nat
  timing_count :: nat
  timing_dropped :: u8
  write_sequence :: u32
  timing_work_submitted :: bool

definition TIMING_CAP :: nat where "TIMING_CAP = 24"

definition zero_timing_record :: timing_record where
  "zero_timing_record = \<lparr>tr_uptime_ms = 0, tr_type = TOTEM_HEVT_NONE, tr_idx = 0, tr_active = 0,
     tr_reason = 0, tr_pair = 0, tr_extra = 0\<rparr>"

definition timing_boot :: timing where
  "timing_boot = \<lparr>timing_inbox = replicate TIMING_CAP zero_timing_record, timing_head = 0, timing_count = 0,
     timing_dropped = 0, write_sequence = 0, timing_work_submitted = False\<rparr>"

definition totem_diagnostic_timing_capture :: "timing_record \<Rightarrow> timing \<Rightarrow> timing" where
  "totem_diagnostic_timing_capture r s0 =
     (let s = (if timing_count s0 < TIMING_CAP
               then s0\<lparr>timing_inbox := (timing_inbox s0)[(timing_head s0 + timing_count s0) mod TIMING_CAP := r],
                       timing_count := timing_count s0 + 1\<rparr>
               else if timing_dropped s0 < 255 then s0\<lparr>timing_dropped := timing_dropped s0 + 1\<rparr>
               else s0)
      in s\<lparr>timing_work_submitted := True\<rparr>)"

text \<open>The record of a capture with the clock read at the call.\<close>

definition timing_capture :: "u32 \<Rightarrow> totem_host_evt \<Rightarrow> i8 \<Rightarrow> i8 \<Rightarrow> u8 \<Rightarrow> u8 \<Rightarrow> u8 \<Rightarrow> timing \<Rightarrow> timing" where
  "timing_capture now t idx active reason pair extra = totem_diagnostic_timing_capture
     \<lparr>tr_uptime_ms = now, tr_type = t, tr_idx = idx, tr_active = active, tr_reason = reason,
      tr_pair = pair, tr_extra = extra\<rparr>"

section \<open>Drain\<close>

definition record_args :: "timing_record \<Rightarrow> log_call" where
  "record_args r = log_args (tr_type r) (tr_idx r) (tr_active r) (tr_reason r) (tr_pair r) (tr_extra r)"

function timing_drain :: "totem_config \<Rightarrow> int \<Rightarrow> timing \<times> journal \<Rightarrow> timing \<times> journal" where
  "timing_drain c now sj =
     (let (s, j) = sj in
      if timing_count s = 0 then
        (s\<lparr>timing_dropped := 0\<rparr>,
         if timing_dropped s \<noteq> 0
         then totem_host_event_log_record_timing c now (word_of_int now)
                (log_args TOTEM_HEVT_TIMING_DROPPED (- 1) (- 1) (timing_dropped s) 0 0) j
         else j)
      else
        let r = timing_inbox s ! timing_head s
        in timing_drain c now
             (s\<lparr>timing_head := (timing_head s + 1) mod TIMING_CAP, timing_count := timing_count s - 1\<rparr>,
              totem_host_event_log_record_timing c now (tr_uptime_ms r) (record_args r) j))"
  by pat_completeness auto
termination
  by (relation "measure (\<lambda>(c, now, s, j). timing_count s)") auto

declare timing_drain.simps [simp del]

section \<open>Settings writes\<close>

definition settings_category :: "string \<Rightarrow> u8" where
  "settings_category name =
     (if take 8 name = ''th/dlog/'' then 1
      else if name = ''ble/active_profile'' then 2
      else if take 13 name = ''ble/profiles/'' then 3
      else if take 3 name = ''bt/'' then 4 else 5)"

text \<open>
  \<open>real\<close> is the wrapped function on the outside world, \<open>active\<close> the selected profile, \<open>now\<close> and
  \<open>now'\<close> the clock before and after it.
\<close>

definition wrap_settings_save_one ::
  "(string \<times> u8 list \<Rightarrow> 'w \<Rightarrow> int \<times> 'w) \<Rightarrow> int \<Rightarrow> u32 \<Rightarrow> u32
   \<Rightarrow> string \<times> u8 list \<Rightarrow> timing \<times> 'w \<Rightarrow> int \<times> timing \<times> 'w" where
  "wrap_settings_save_one real active now now' arg sw =
     (let (s, w) = sw;
          category = settings_category (fst arg);
          pair = ucast (write_sequence s);
          s1 = timing_capture now TOTEM_HEVT_FLASH_BEGIN (- 1) (to_i8 active) category pair 0
                 (s\<lparr>write_sequence := write_sequence s + 1\<rparr>);
          (err, w') = real arg w;
          s2 = timing_capture now' TOTEM_HEVT_FLASH_END (- 1) (to_i8 active) category pair (err_abs_u8 err) s1
      in (err, s2, w'))"

interpretation settings_save: passive_observer real "wrap_settings_save_one real active now now'"
  for real :: "string \<times> u8 list \<Rightarrow> 'w \<Rightarrow> int \<times> 'w" and active now now'
  by unfold_locales (simp add: wrap_settings_save_one_def Let_def case_prod_beta)

section \<open>The inbox is a bounded queue\<close>

definition timing_contents :: "timing \<Rightarrow> timing_record list" where
  "timing_contents s = ring_slice (timing_inbox s) (timing_head s) (timing_count s)"

definition timing_inv :: "timing \<Rightarrow> bool" where
  "timing_inv s \<longleftrightarrow> length (timing_inbox s) = TIMING_CAP \<and> timing_head s < TIMING_CAP \<and> timing_count s \<le> TIMING_CAP"

lemma length_timing_contents [simp]: "length (timing_contents s) = timing_count s"
  by (simp add: timing_contents_def)

interpretation inbox: bounded_fifo totem_diagnostic_timing_capture timing_contents
  "\<lambda>s. unat (timing_dropped s)" TIMING_CAP 255 timing_inv
proof unfold_locales
  show "timing_inv (totem_diagnostic_timing_capture r s)" if "timing_inv s" for s r
    using that by (simp add: timing_inv_def totem_diagnostic_timing_capture_def)
  show "length (timing_contents s) \<le> TIMING_CAP" if "timing_inv s" for s
    using that by (simp add: timing_inv_def)
  show "timing_contents (totem_diagnostic_timing_capture r s) = timing_contents s @ [r]
      \<and> unat (timing_dropped (totem_diagnostic_timing_capture r s)) = unat (timing_dropped s)"
    if "timing_inv s" "length (timing_contents s) < TIMING_CAP" for s r
    using that ring_slice_put [of "timing_count s" "timing_inbox s" "timing_head s" r]
    by (simp add: timing_inv_def timing_contents_def totem_diagnostic_timing_capture_def)
  show "timing_contents (totem_diagnostic_timing_capture r s) = timing_contents s
      \<and> unat (timing_dropped (totem_diagnostic_timing_capture r s)) = min 255 (unat (timing_dropped s) + 1)"
    if "timing_inv s" "length (timing_contents s) = TIMING_CAP" for s r
  proof (cases "timing_dropped s < 255")
    case True
    then have "unat (timing_dropped s) < 255" by (simp add: word_less_nat_alt)
    moreover from this have "unat (timing_dropped s + 1) = unat (timing_dropped s) + 1" by (simp add: unat_inc)
    ultimately show ?thesis
      using that True by (simp add: timing_contents_def totem_diagnostic_timing_capture_def)
  next
    case False
    then have "255 \<le> unat (timing_dropped s)" by (simp add: word_less_nat_alt)
    with False that show ?thesis
      using unat_word_bound [of "timing_dropped s"]
      by (simp add: timing_contents_def totem_diagnostic_timing_capture_def)
  qed
  show "unat (timing_dropped s) \<le> 255" if "timing_inv s" for s
    using unat_word_bound [of "timing_dropped s"] by simp
qed

text \<open>The journal's calls made by a drain.\<close>

definition drain_events :: "int \<Rightarrow> timing \<Rightarrow> totem_host_event list" where
  "drain_events now s = map (\<lambda>r. call_event (tr_uptime_ms r) (record_args r)) (timing_contents s)
     @ (if timing_dropped s \<noteq> 0
        then [call_event (word_of_int now) (log_args TOTEM_HEVT_TIMING_DROPPED (- 1) (- 1) (timing_dropped s) 0 0)]
        else [])"

lemma timing_contents_step:
  assumes "timing_inv s" and "timing_count s = Suc n"
  shows "timing_contents s = timing_inbox s ! timing_head s
     # timing_contents (s\<lparr>timing_head := (timing_head s + 1) mod TIMING_CAP, timing_count := n\<rparr>)"
  using assms ring_slice_get [of "timing_inbox s" "timing_head s" n] ring_slice_hd [of "timing_inbox s" "timing_head s" n]
  by (simp add: timing_contents_def timing_inv_def)

lemma timing_drain_spec:
  "timing_inv s \<Longrightarrow> fst (timing_drain c now (s, j)) = s\<lparr>timing_head := (timing_head s + timing_count s) mod TIMING_CAP,
       timing_count := 0, timing_dropped := 0\<rparr>
     \<and> snd (timing_drain c now (s, j)) = fold (\<lambda>e. record_event c now e False) (drain_events now s) j"
proof (induction "timing_count s" arbitrary: s j)
  case 0
  then show ?case
    by (subst (1 2) timing_drain.simps)
      (simp add: drain_events_def timing_contents_def timing_inv_def totem_host_event_log_record_timing_def)
next
  case (Suc n)
  let ?r = "timing_inbox s ! timing_head s"
  let ?s = "s\<lparr>timing_head := (timing_head s + 1) mod TIMING_CAP, timing_count := n\<rparr>"
  let ?j = "totem_host_event_log_record_timing c now (tr_uptime_ms ?r) (record_args ?r) j"
  have n: "timing_count s = Suc n" using Suc.hyps(2) by simp
  have inv: "timing_inv ?s" using Suc.prems n by (simp add: timing_inv_def TIMING_CAP_def)
  have step: "timing_drain c now (s, j) = timing_drain c now (?s, ?j)"
    by (subst timing_drain.simps) (simp add: n Let_def)
  have head: "((timing_head s + 1) mod TIMING_CAP + n) mod TIMING_CAP = (timing_head s + timing_count s) mod TIMING_CAP"
    by (simp add: n mod_add_left_eq)
  have evs: "drain_events now s = call_event (tr_uptime_ms ?r) (record_args ?r) # drain_events now ?s"
    by (simp add: drain_events_def timing_contents_step [OF Suc.prems n])
  show ?case
    using Suc.hyps(1) [OF _ inv, of ?j] head by (simp add: step evs totem_host_event_log_record_timing_def)
qed

section \<open>Properties\<close>

text \<open>
  The inbox accounts for every capture: after any burst on an empty inbox, one drain hands
  the journal exactly the first 24 captures, in order and with their own timestamps, followed by
  one record with the number of the captures that did not fit (up to 255) if there were any;
  the inbox is empty again.
\<close>

theorem timing_burst_accounted:
  assumes "timing_inv s" and "timing_count s = 0" and "timing_dropped s = 0"
    and "(s', j') = timing_drain c now (fold totem_diagnostic_timing_capture rs s, j)"
  shows "timing_count s' = 0 \<and> timing_dropped s' = 0
    \<and> j' = fold (\<lambda>e. record_event c now e False)
        (map (\<lambda>r. call_event (tr_uptime_ms r) (record_args r)) (take 24 rs)
         @ (if length rs > 24 then [call_event (word_of_int now) (log_args TOTEM_HEVT_TIMING_DROPPED (- 1) (- 1)
               (of_nat (min 255 (length rs - 24))) 0 0)] else [])) j"
proof -
  let ?t = "fold totem_diagnostic_timing_capture rs s"
  have inv: "timing_inv ?t" using inbox.puts_invar [OF assms(1)] .
  have "timing_contents s = []" using assms(2) by (simp add: timing_contents_def)
  then have cont: "timing_contents ?t = take 24 rs" using inbox.puts_contents [OF assms(1), of rs] by (simp add: TIMING_CAP_def)
  have d: "unat (timing_dropped ?t) = min 255 (length rs - 24)"
    using inbox.puts_refused [OF assms(1), of rs] assms(2,3) by (simp add: TIMING_CAP_def)
  then have dw: "timing_dropped ?t = of_nat (min 255 (length rs - 24))" by (metis of_nat_unat ucast_id)
  have "timing_dropped ?t \<noteq> 0 \<longleftrightarrow> length rs > 24" using d by (auto simp: unat_eq_zero [symmetric] simp del: unat_eq_zero)
  then have "drain_events now ?t = map (\<lambda>r. call_event (tr_uptime_ms r) (record_args r)) (take 24 rs)
         @ (if length rs > 24 then [call_event (word_of_int now) (log_args TOTEM_HEVT_TIMING_DROPPED (- 1) (- 1)
               (of_nat (min 255 (length rs - 24))) 0 0)] else [])"
    by (simp add: drain_events_def cont dw)
  with timing_drain_spec [OF inv, of c now j] assms(4) show ?thesis
    by (metis fst_conv snd_conv timing.select_convs(3,4) timing.surjective timing.update_convs(2,3,4))
qed

theorem timing_burst_accounted_witness:
  "let r = zero_timing_record;
       (s', j') = timing_drain minimal_config 5
         (fold totem_diagnostic_timing_capture (replicate 26 r) timing_boot, journal_boot minimal_config)
   in timing_count s' = 0 \<and> timing_dropped s' = 0
      \<and> j' = fold (\<lambda>e. record_event minimal_config 5 e False)
          (replicate 24 (call_event 0 (record_args r))
           @ [call_event 5 (log_args TOTEM_HEVT_TIMING_DROPPED (- 1) (- 1) 2 0 0)]) (journal_boot minimal_config)"
proof -
  let ?st = "timing_drain minimal_config 5 (fold totem_diagnostic_timing_capture (replicate 26 zero_timing_record) timing_boot,
    journal_boot minimal_config)"
  have boot: "timing_inv timing_boot" "timing_count timing_boot = 0" "timing_dropped timing_boot = 0"
    by (simp_all add: timing_boot_def timing_inv_def TIMING_CAP_def)
  have r: "take 24 (replicate 26 r) = replicate 24 r" for r :: timing_record by simp
  have up: "tr_uptime_ms zero_timing_record = 0" by (simp add: zero_timing_record_def)
  show ?thesis
    using timing_burst_accounted [OF boot prod.collapse [of ?st]]
    by (simp only: r map_replicate up case_prod_beta Let_def length_replicate) simp
qed

end
