(* ===== verification/Timing_Queue.thy ===== *)
theory Timing_Queue
  imports Diagnostic_Timing "HOL-Library.Sublist"
begin

text \<open>
  The timing inbox of \<open>Diagnostic_Timing\<close> under interleaving. \<open>timing_drain\<close> gives up its spin lock
  between two records, so captures from interrupts and from the controller may fall between any two
  of its critical sections. The sections and the captures refine an abstract queue with a loss
  counter, in every order.
\<close>

section \<open>Critical sections\<close>

text \<open>
  One pass of the drain loop under the lock: the record it takes out, or (\<open>Inr\<close>) the number of
  lost captures it found when the inbox was empty, which ends the loop.
\<close>

definition drain_section :: "timing \<Rightarrow> (timing_record + u8) \<times> timing" where
  "drain_section s =
     (if timing_count s = 0 then (Inr (timing_dropped s), s\<lparr>timing_dropped := 0\<rparr>)
      else (Inl (timing_inbox s ! timing_head s),
            s\<lparr>timing_head := (timing_head s + 1) mod TIMING_CAP, timing_count := timing_count s - 1\<rparr>))"

text \<open>What the loop does with the result after unlocking.\<close>

definition hand_over :: "totem_config \<Rightarrow> int \<Rightarrow> timing_record + u8 \<Rightarrow> journal \<Rightarrow> journal" where
  "hand_over c now x j =
     (case x of
        Inl r \<Rightarrow> totem_host_event_log_record_timing c now (tr_uptime_ms r) (record_args r) j
      | Inr dropped \<Rightarrow>
          if dropped \<noteq> 0
          then totem_host_event_log_record_timing c now (word_of_int now)
                 (log_args TOTEM_HEVT_TIMING_DROPPED (- 1) (- 1) dropped 0 0) j
          else j)"

text \<open>The loop is its sections one after the other.\<close>

lemma timing_drain_sections:
  "timing_drain c now (s, j) =
     (case drain_section s of
        (Inl r, s') \<Rightarrow> timing_drain c now (s', hand_over c now (Inl r) j)
      | (Inr d, s') \<Rightarrow> (s', hand_over c now (Inr d) j))"
  by (subst timing_drain.simps) (simp add: drain_section_def hand_over_def Let_def)

datatype inbox_op = Capture timing_record | Section

primrec inbox_step :: "inbox_op \<Rightarrow> timing \<times> (timing_record + u8) list \<Rightarrow> timing \<times> (timing_record + u8) list" where
  "inbox_step (Capture r) so = (totem_diagnostic_timing_capture r (fst so), snd so)"
| "inbox_step Section so = (let (x, s) = drain_section (fst so) in (s, snd so @ [x]))"

section \<open>The abstract queue\<close>

record queue_spec =
  pending :: "timing_record list"
  lost :: nat
  handed :: "(timing_record + nat) list"

primrec spec_step :: "inbox_op \<Rightarrow> queue_spec \<Rightarrow> queue_spec" where
  "spec_step (Capture r) q =
     (if length (pending q) < 24 then q\<lparr>pending := pending q @ [r]\<rparr> else q\<lparr>lost := min 255 (lost q + 1)\<rparr>)"
| "spec_step Section q =
     (case pending q of
        [] \<Rightarrow> q\<lparr>lost := 0, handed := handed q @ [Inr (lost q)]\<rparr>
      | r # rs \<Rightarrow> q\<lparr>pending := rs, handed := handed q @ [Inl r]\<rparr>)"

definition queue_init :: queue_spec where
  "queue_init = \<lparr>pending = [], lost = 0, handed = []\<rparr>"

text \<open>The abstraction forgets the ring's layout.\<close>

definition queue_abs :: "timing \<times> (timing_record + u8) list \<Rightarrow> queue_spec" where
  "queue_abs so = \<lparr>pending = timing_contents (fst so), lost = unat (timing_dropped (fst so)),
     handed = map (map_sum (\<lambda>r. r) unat) (snd so)\<rparr>"

lemma section_inv: "timing_inv s \<Longrightarrow> timing_inv (snd (drain_section s))"
  by (auto simp: drain_section_def timing_inv_def TIMING_CAP_def)

lemma step_inv: "timing_inv (fst so) \<Longrightarrow> timing_inv (fst (inbox_step op so))"
  by (cases op) (simp_all add: inbox.put_invar section_inv case_prod_beta)

lemma capture_refines:
  assumes "timing_inv s"
  shows "queue_abs (totem_diagnostic_timing_capture r s, out) = spec_step (Capture r) (queue_abs (s, out))"
proof (cases "length (timing_contents s) < TIMING_CAP")
  case True
  with inbox.put_room [OF assms True, of r] show ?thesis by (simp add: queue_abs_def TIMING_CAP_def)
next
  case False
  then have full: "length (timing_contents s) = TIMING_CAP" using inbox.contents_bound [OF assms] by simp
  from inbox.put_full [OF assms full, of r] full show ?thesis by (simp add: queue_abs_def TIMING_CAP_def)
qed

lemma section_refines:
  assumes "timing_inv s"
  shows "queue_abs (inbox_step Section (s, out)) = spec_step Section (queue_abs (s, out))"
proof (cases "timing_count s")
  case 0
  then show ?thesis by (simp add: queue_abs_def drain_section_def timing_contents_def)
next
  case (Suc n)
  from timing_contents_step [OF assms Suc] Suc show ?thesis by (simp add: queue_abs_def drain_section_def)
qed

lemma step_refines: "timing_inv (fst so) \<Longrightarrow> queue_abs (inbox_step op so) = spec_step op (queue_abs so)"
  using capture_refines [of "fst so" _ "snd so"] section_refines [of "fst so" "snd so"] by (cases op) simp_all

lemma run_refines:
  "timing_inv (fst so) \<Longrightarrow> queue_abs (fold inbox_step ops so) = fold spec_step ops (queue_abs so)"
  by (induction ops arbitrary: so) (simp_all add: step_inv step_refines)

section \<open>What the abstract queue promises\<close>

definition captured :: "inbox_op list \<Rightarrow> timing_record list" where
  "captured ops = List.map_filter (\<lambda>op. case op of Capture r \<Rightarrow> Some r | Section \<Rightarrow> None) ops"

definition handed_records :: "queue_spec \<Rightarrow> timing_record list" where
  "handed_records q = List.map_filter (\<lambda>x. case x of Inl r \<Rightarrow> Some r | Inr _ \<Rightarrow> None) (handed q)"

definition handed_losses :: "queue_spec \<Rightarrow> nat" where
  "handed_losses q = sum_list (map (\<lambda>x. case x of Inl _ \<Rightarrow> 0 | Inr n \<Rightarrow> n) (handed q))"

lemma captured_snoc [simp]:
  "captured [] = []" "captured (ops @ [Capture r]) = captured ops @ [r]" "captured (ops @ [Section]) = captured ops"
  by (simp_all add: captured_def List.map_filter_def)

text \<open>What happened to the captures: handed over, still pending, or counted as lost.\<close>

definition accounted :: "queue_spec \<Rightarrow> nat" where
  "accounted q = length (handed_records q) + length (pending q) + handed_losses q + lost q"

lemma accounted_step:
  "accounted (spec_step Section q) = accounted q"
  "accounted (spec_step (Capture r) q) \<le> Suc (accounted q)"
  "lost q < 255 \<Longrightarrow> accounted (spec_step (Capture r) q) = Suc (accounted q)"
  by (auto simp: accounted_def handed_records_def handed_losses_def List.map_filter_def split: list.splits)

lemma delivered_step:
  "handed_records (spec_step Section q) @ pending (spec_step Section q) = handed_records q @ pending q"
  "handed_records (spec_step (Capture r) q) @ pending (spec_step (Capture r) q)
     = handed_records q @ pending q @ (if length (pending q) < 24 then [r] else [])"
  by (auto simp: handed_records_def List.map_filter_def split: list.splits)

lemma queue_init_accounted: "accounted queue_init = 0" "handed_records queue_init @ pending queue_init = []"
  by (simp_all add: accounted_def queue_init_def handed_records_def handed_losses_def List.map_filter_def)

lemma spec_run_order:
  "subseq (handed_records (fold spec_step ops queue_init) @ pending (fold spec_step ops queue_init)) (captured ops)"
proof (induction ops rule: rev_induct)
  case Nil
  then show ?case by (simp only: fold.simps id_apply queue_init_accounted(2) captured_snoc list_emb_Nil)
next
  case (snoc op ops)
  have more: "subseq ((handed_records q @ pending q) @ [r]) (captured ops @ [r])" if "q = fold spec_step ops queue_init" for q r
    using snoc.IH that by (intro list_emb_append_mono) simp_all
  show ?case
    using snoc.IH more [OF refl]
    by (cases op) (auto simp del: spec_step.simps simp: delivered_step)
qed

lemma spec_run_bound: "accounted (fold spec_step ops queue_init) \<le> length (captured ops)"
proof (induction ops rule: rev_induct)
  case Nil
  then show ?case by (simp add: queue_init_accounted)
next
  case (snoc op ops)
  then show ?case
    using accounted_step(2) [of _ "fold spec_step ops queue_init"]
    by (cases op) (auto simp del: spec_step.simps simp: accounted_step(1) intro: le_SucI le_trans)
qed

text \<open>Without saturation of the loss counter nothing is unaccounted for.\<close>

lemma spec_run_accounted:
  "(\<And>k. k \<le> length ops \<Longrightarrow> lost (fold spec_step (take k ops) queue_init) < 255) \<Longrightarrow>
   accounted (fold spec_step ops queue_init) = length (captured ops)"
proof (induction ops rule: rev_induct)
  case Nil
  then show ?case by (simp add: queue_init_accounted)
next
  case (snoc op ops)
  have "lost (fold spec_step (take k ops) queue_init) < 255" if "k \<le> length ops" for k
    using snoc.prems [of k] that by simp
  then have "accounted (fold spec_step ops queue_init) = length (captured ops)" by (rule snoc.IH)
  moreover have "lost (fold spec_step ops queue_init) < 255" using snoc.prems [of "length ops"] by simp
  ultimately show ?case
    by (cases op) (simp_all del: spec_step.simps add: accounted_step)
qed

section \<open>Properties\<close>

text \<open>
  C12. The timing inbox refines a queue: whatever captures fall between the critical sections of
  the drain loop, the ring of 24 entries with its wrapped index, fill level and 8-bit loss
  counter behaves as a queue that holds at most 24 records and counts what it refuses (up to
  255). Hence records reach the journal in the order of their capture, none twice, and no more
  losses are reported than happened.
\<close>

theorem inbox_refines_queue:
  "queue_abs (fold inbox_step ops (timing_boot, [])) = fold spec_step ops queue_init
   \<and> subseq (handed_records (queue_abs (fold inbox_step ops (timing_boot, [])))) (captured ops)
   \<and> length (handed_records (queue_abs (fold inbox_step ops (timing_boot, []))))
       + handed_losses (queue_abs (fold inbox_step ops (timing_boot, []))) \<le> length (captured ops)"
proof -
  have boot: "timing_inv (fst (timing_boot, []))" "queue_abs (timing_boot, []) = queue_init"
    by (simp_all add: timing_boot_def timing_inv_def queue_abs_def queue_init_def timing_contents_def TIMING_CAP_def)
  have abs: "queue_abs (fold inbox_step ops (timing_boot, [])) = fold spec_step ops queue_init"
    using run_refines [OF boot(1), of ops] boot(2) by simp
  have "subseq (handed_records (fold spec_step ops queue_init)) (captured ops)"
    by (rule subseq_order.trans [OF prefix_imp_subseq spec_run_order]) simp
  with abs spec_run_bound [of ops] show ?thesis by (simp add: accounted_def)
qed

end
