(* ===== verification/Security_Controller.thy ===== *)
theory Security_Controller
  imports Diagnostic_Timing
begin

text \<open>
  The controller side of the security observers, \<open>src/security_controller_timing.c\<close>: wrappers
  around the link layer's control procedures that note when encryption packets are received or
  queued and when the host answers a request for a long-term key. The theory also has the view
  of packets and controller connections that \<open>Handoff_Diagnostics\<close> and \<open>Handoff_Radio_Tx\<close> share.
\<close>

section \<open>What the observers read of the controller\<close>

text \<open>The header of a data packet and, for control packets, its opcode.\<close>

record pdu_data =
  ll_id :: u8
  pdu_len :: u8
  llctrl_opcode :: u8

record lll_conn =
  lll_handle :: u16
  lll_role :: bt_role
  lll_enc_tx :: bool

text \<open>Numbers of the Bluetooth core specification, by their names in the controller.\<close>

definition PDU_DATA_LLID_CTRL :: u8 where [simp]: "PDU_DATA_LLID_CTRL = 3"
definition PDU_DATA_LLCTRL_TYPE_TERMINATE_IND :: u8 where [simp]: "PDU_DATA_LLCTRL_TYPE_TERMINATE_IND = 2"
definition PDU_DATA_LLCTRL_TYPE_ENC_REQ :: u8 where [simp]: "PDU_DATA_LLCTRL_TYPE_ENC_REQ = 3"
definition PDU_DATA_LLCTRL_TYPE_ENC_RSP :: u8 where [simp]: "PDU_DATA_LLCTRL_TYPE_ENC_RSP = 4"
definition PDU_DATA_LLCTRL_TYPE_START_ENC_REQ :: u8 where [simp]: "PDU_DATA_LLCTRL_TYPE_START_ENC_REQ = 5"
definition PDU_DATA_LLCTRL_TYPE_START_ENC_RSP :: u8 where [simp]: "PDU_DATA_LLCTRL_TYPE_START_ENC_RSP = 6"

text \<open>The connection handle in the \<open>idx\<close> and \<open>active\<close> fields of a record: low and high byte.\<close>

definition handle_low :: "u16 \<Rightarrow> i8" where "handle_low h = ucast h"
definition handle_high :: "u16 \<Rightarrow> i8" where "handle_high h = ucast (drop_bit 8 h)"

lemma le16_handle [simp]: "le16 (handle_low h) (handle_high h) = h"
  using le16_byte_of [of h] by (simp add: handle_low_def handle_high_def byte_of_def)

section \<open>Observers\<close>

definition exchange_capture :: "u32 \<Rightarrow> lll_conn \<Rightarrow> u8 \<Rightarrow> u8 \<Rightarrow> u8 \<Rightarrow> timing \<Rightarrow> timing" where
  "exchange_capture now conn stage code extra t =
     (if lll_role conn = BT_CONN_ROLE_PERIPHERAL
      then timing_capture now TOTEM_HEVT_SECURITY_EXCHANGE (handle_low (lll_handle conn))
             (handle_high (lll_handle conn)) stage code extra t
      else t)"

text \<open>\<open>PDU_DATA_LLCTRL_LEN\<close> of the four packets is 23, 13, 1 and 1.\<close>

definition encryption_pdu :: "pdu_data \<Rightarrow> bool" where
  "encryption_pdu p =
     (if ll_id p \<noteq> PDU_DATA_LLID_CTRL \<or> pdu_len p < 1 then False
      else if llctrl_opcode p = PDU_DATA_LLCTRL_TYPE_ENC_REQ then pdu_len p = 23
      else if llctrl_opcode p = PDU_DATA_LLCTRL_TYPE_ENC_RSP then pdu_len p = 13
      else if llctrl_opcode p = PDU_DATA_LLCTRL_TYPE_START_ENC_REQ then pdu_len p = 1
      else if llctrl_opcode p = PDU_DATA_LLCTRL_TYPE_START_ENC_RSP then pdu_len p = 1
      else False)"

definition totem_security_tx_queued :: "u32 \<Rightarrow> lll_conn \<Rightarrow> pdu_data \<Rightarrow> timing \<Rightarrow> timing" where
  "totem_security_tx_queued now conn p t =
     (if encryption_pdu p then exchange_capture now conn 3 (llctrl_opcode p) 0 t else t)"

definition wrap_ull_cp_rx ::
  "(lll_conn \<times> pdu_data \<Rightarrow> 'w \<Rightarrow> unit \<times> 'w) \<Rightarrow> u32 \<Rightarrow> lll_conn \<times> pdu_data \<Rightarrow> timing \<times> 'w \<Rightarrow> unit \<times> timing \<times> 'w" where
  "wrap_ull_cp_rx real now arg sw =
     (let (t, w) = sw; (conn, p) = arg;
          t1 = (if encryption_pdu p then exchange_capture now conn 2 (llctrl_opcode p) 0 t else t);
          (r, w') = real arg w
      in (r, t1, w'))"

definition wrap_ull_cp_ltk_req_reply ::
  "(lll_conn \<times> u8 list \<Rightarrow> 'w \<Rightarrow> u8 \<times> 'w) \<Rightarrow> u32 \<Rightarrow> u32 \<Rightarrow> lll_conn \<times> u8 list \<Rightarrow> timing \<times> 'w \<Rightarrow> u8 \<times> timing \<times> 'w" where
  "wrap_ull_cp_ltk_req_reply real now now' arg sw =
     (let (t, w) = sw; (conn, ltk) = arg;
          t1 = exchange_capture now conn 4 0 1 t;
          (result, w') = real arg w;
          t2 = exchange_capture now' conn 5 result 1 t1
      in (result, t2, w'))"

definition wrap_ull_cp_ltk_req_neq_reply ::
  "(lll_conn \<Rightarrow> 'w \<Rightarrow> u8 \<times> 'w) \<Rightarrow> u32 \<Rightarrow> u32 \<Rightarrow> lll_conn \<Rightarrow> timing \<times> 'w \<Rightarrow> u8 \<times> timing \<times> 'w" where
  "wrap_ull_cp_ltk_req_neq_reply real now now' conn sw =
     (let (t, w) = sw;
          t1 = exchange_capture now conn 4 0 0 t;
          (result, w') = real conn w;
          t2 = exchange_capture now' conn 5 result 0 t1
      in (result, t2, w'))"

interpretation cp_rx: passive_observer real "wrap_ull_cp_rx real now"
  for real :: "lll_conn \<times> pdu_data \<Rightarrow> 'w \<Rightarrow> unit \<times> 'w" and now
  by unfold_locales (simp add: wrap_ull_cp_rx_def Let_def case_prod_beta prod_eq_iff)

interpretation ltk_reply: passive_observer real "wrap_ull_cp_ltk_req_reply real now now'"
  for real :: "lll_conn \<times> u8 list \<Rightarrow> 'w \<Rightarrow> u8 \<times> 'w" and now now'
  by unfold_locales (simp add: wrap_ull_cp_ltk_req_reply_def Let_def case_prod_beta)

interpretation ltk_neq_reply: passive_observer real "wrap_ull_cp_ltk_req_neq_reply real now now'"
  for real :: "lll_conn \<Rightarrow> 'w \<Rightarrow> u8 \<times> 'w" and now now'
  by unfold_locales (simp add: wrap_ull_cp_ltk_req_neq_reply_def Let_def case_prod_beta)

end
