(* ===== verification/Handoff_Diagnostics.thy ===== *)
theory Handoff_Diagnostics
  imports Security_Controller
begin

text \<open>
  Handoff observers, \<open>src/handoff_diagnostics.c\<close>, and the wrapper of \<open>bt_conn_set_state\<close> of
  \<open>src/diagnostic_timing.c\<close> that calls them. When the keyboard disconnects a background computer,
  the slot of that connection is armed: until the disconnect completes, the radio events of the
  connection are counted, and at the end the counts are handed to the timing inbox. One clock
  reading per handler, as in \<open>Platform\<close>; the wrapper of \<open>bt_conn_disconnect\<close> is split at the call of
  the real function, since other observers may run meanwhile.
\<close>

section \<open>State\<close>

record handoff_radio =
  armed :: bool
  rx_known :: bool
  first_bad :: bool
  last_rx :: u32
  r_done :: u16
  r_bad :: u16
  r_aborted :: u16
  r_skipped :: u16
  rx_packets :: u16
  no_rx :: u16
  invalid_rx :: u16
  mic_pass :: u16
  mic_fail :: u16
  tx_setups :: u16
  tx_completed :: u16
  tx_uncompleted :: u16
  first_tx_setup :: u32
  first_tx_end :: u32
  last_tx_end :: u32

definition zero_radio :: handoff_radio where
  "zero_radio = \<lparr>armed = False, rx_known = False, first_bad = False, last_rx = 0, r_done = 0, r_bad = 0,
     r_aborted = 0, r_skipped = 0, rx_packets = 0, no_rx = 0, invalid_rx = 0, mic_pass = 0, mic_fail = 0,
     tx_setups = 0, tx_completed = 0, tx_uncompleted = 0, first_tx_setup = 0, first_tx_end = 0, last_tx_end = 0\<rparr>"

record handoff =
  radios :: "handoff_radio list"
  inbox_state :: timing

definition handoff_boot :: "totem_config \<Rightarrow> handoff" where
  "handoff_boot c = \<lparr>radios = replicate (CONFIG_BT_MAX_CONN c) zero_radio, inbox_state = timing_boot\<rparr>"

definition in_range :: "u16 \<Rightarrow> handoff \<Rightarrow> bool" where
  "in_range handle s \<longleftrightarrow> unat handle < length (radios s)"

definition radio_at :: "u16 \<Rightarrow> handoff \<Rightarrow> handoff_radio" where
  "radio_at handle s = radios s ! unat handle"

definition set_radio :: "u16 \<Rightarrow> handoff_radio \<Rightarrow> handoff \<Rightarrow> handoff" where
  "set_radio handle r s = s\<lparr>radios := (radios s)[unat handle := r]\<rparr>"

definition capture :: "u32 \<Rightarrow> totem_host_evt \<Rightarrow> u16 \<Rightarrow> u8 \<Rightarrow> u8 \<Rightarrow> u8 \<Rightarrow> handoff \<Rightarrow> handoff" where
  "capture time t handle stage low high s = s\<lparr>inbox_state :=
     timing_capture time t (handle_low handle) (handle_high handle) stage low high (inbox_state s)\<rparr>"

definition capture_value :: "u32 \<Rightarrow> totem_host_evt \<Rightarrow> u16 \<Rightarrow> u8 \<Rightarrow> u16 \<Rightarrow> handoff \<Rightarrow> handoff" where
  "capture_value now t handle stage v = capture now t handle stage (ucast v) (ucast (drop_bit 8 v))"

definition add_count :: "u16 \<Rightarrow> u32 \<Rightarrow> u16" where
  "add_count v count = ucast (min (ucast v + count) 65535)"

section \<open>Transmissions, connections, disconnections\<close>

definition totem_handoff_tx_armed :: "u16 \<Rightarrow> handoff \<Rightarrow> bool" where
  "totem_handoff_tx_armed handle s = (in_range handle s \<and> armed (radio_at handle s))"

definition totem_handoff_tx_setup :: "u32 \<Rightarrow> u16 \<Rightarrow> handoff \<Rightarrow> handoff" where
  "totem_handoff_tx_setup now handle s =
     (if \<not> in_range handle s then s
      else let r = radio_at handle s in
        if armed r then
          let r1 = (if tx_setups r = 0 then r\<lparr>first_tx_setup := now\<rparr> else r)
          in set_radio handle (r1\<lparr>tx_setups := add_count (tx_setups r1) 1\<rparr>) s
        else s)"

definition totem_handoff_tx_result :: "u32 \<Rightarrow> u16 \<Rightarrow> bool \<Rightarrow> handoff \<Rightarrow> handoff" where
  "totem_handoff_tx_result now handle completed s =
     (if \<not> in_range handle s then s
      else let r = radio_at handle s in
        if armed r then
          if completed then
            let r1 = (if tx_completed r = 0 then r\<lparr>first_tx_end := now\<rparr> else r)
            in set_radio handle (r1\<lparr>last_tx_end := now, tx_completed := add_count (tx_completed r1) 1\<rparr>) s
          else set_radio handle (r\<lparr>tx_uncompleted := add_count (tx_uncompleted r) 1\<rparr>) s
        else s)"

definition totem_handoff_connected :: "u16 \<Rightarrow> handoff \<Rightarrow> handoff" where
  "totem_handoff_connected handle s = (if \<not> in_range handle s then s else set_radio handle zero_radio s)"

definition known_time :: "bool \<Rightarrow> u32 \<Rightarrow> u32 \<Rightarrow> u32" where
  "known_time known t now = (if known then t else now)"

text \<open>The summary of a radio, as the sequence of captures the code makes.\<close>

definition handoff_summary :: "u32 \<Rightarrow> u16 \<Rightarrow> handoff_radio \<Rightarrow> handoff \<Rightarrow> handoff" where
  "handoff_summary now handle r s0 =
     (let v = (\<lambda>t stage x. capture_value now t handle stage x);
          s1 = v TOTEM_HEVT_HANDOFF_RADIO 0 (r_done r) s0;
          s2 = v TOTEM_HEVT_HANDOFF_RADIO 1 (r_bad r) s1;
          s3 = v TOTEM_HEVT_HANDOFF_RADIO 2 (r_aborted r) s2;
          s4 = v TOTEM_HEVT_HANDOFF_RADIO 3 (r_skipped r) s3;
          s5 = v TOTEM_HEVT_HANDOFF_RADIO 7 (rx_packets r) s4;
          s6 = v TOTEM_HEVT_HANDOFF_RADIO 8 (no_rx r) s5;
          s7 = v TOTEM_HEVT_HANDOFF_RADIO 9 (invalid_rx r) s6;
          s8 = v TOTEM_HEVT_HANDOFF_RADIO 10 (mic_pass r) s7;
          s9 = v TOTEM_HEVT_HANDOFF_RADIO 11 (mic_fail r) s8;
          s10 = capture (known_time (rx_known r) (last_rx r) now) TOTEM_HEVT_HANDOFF_RADIO handle 5 0 (bool_u8 (rx_known r)) s9;
          s11 = v TOTEM_HEVT_HANDOFF_TX 0 (tx_setups r) s10;
          s12 = v TOTEM_HEVT_HANDOFF_TX 1 (tx_completed r) s11;
          s13 = v TOTEM_HEVT_HANDOFF_TX 2 (tx_uncompleted r) s12;
          s14 = capture (known_time (tx_setups r \<noteq> 0) (first_tx_setup r) now) TOTEM_HEVT_HANDOFF_TX handle 3 0
                  (bool_u8 (tx_setups r \<noteq> 0)) s13;
          s15 = capture (known_time (tx_completed r \<noteq> 0) (first_tx_end r) now) TOTEM_HEVT_HANDOFF_TX handle 4 0
                  (bool_u8 (tx_completed r \<noteq> 0)) s14
      in capture (known_time (tx_completed r \<noteq> 0) (last_tx_end r) now) TOTEM_HEVT_HANDOFF_TX handle 5 0
           (bool_u8 (tx_completed r \<noteq> 0)) s15)"

definition totem_handoff_disconnected :: "u32 \<Rightarrow> u16 \<Rightarrow> handoff \<Rightarrow> handoff" where
  "totem_handoff_disconnected now handle s =
     (if \<not> in_range handle s then s
      else let r = radio_at handle s; s1 = set_radio handle zero_radio s
        in if \<not> armed r then s1 else handoff_summary now handle r s1)"

section \<open>The disconnect request\<close>

text \<open>
  Which requests are a handoff: an LE link in the peripheral role, connected, no
  cable, to a profile other than the selected one. \<open>get_handle\<close> is \<open>bt_hci_get_conn_handle\<close>.
\<close>

definition handoff_target :: "ble_env \<Rightarrow> (bt_conn \<Rightarrow> u16 option) \<Rightarrow> bt_conn \<Rightarrow> handoff \<Rightarrow> (bt_conn_info \<times> u16) option" where
  "handoff_target e get_handle conn s =
     (case conn_info conn of
        None \<Rightarrow> None
      | Some info \<Rightarrow>
          if info_le info \<and> info_role info = BT_CONN_ROLE_PERIPHERAL \<and> info_state info = BT_CONN_STATE_CONNECTED
             \<and> \<not> zmk_usb_is_powered e
          then
            let profile = zmk_ble_profile_index e (conn_dst conn) in
            if profile \<ge> 0 \<and> profile \<noteq> zmk_ble_active_profile_index e
            then case get_handle conn of
                None \<Rightarrow> None
              | Some handle \<Rightarrow> if in_range handle s then Some (info, handle) else None
            else None
          else None)"

text \<open>What the wrapper does before the real call; the result is the handle if it is a handoff.\<close>

definition handoff_request ::
  "ble_env \<Rightarrow> (bt_conn \<Rightarrow> u16 option) \<Rightarrow> u32 \<Rightarrow> bt_conn \<times> u8 \<Rightarrow> handoff \<Rightarrow> u16 option \<times> handoff" where
  "handoff_request e get_handle now arg s =
     (let (conn, reason) = arg in
      case handoff_target e get_handle conn s of
        None \<Rightarrow> (None, s)
      | Some (info, handle) \<Rightarrow>
          let previous = radio_at handle s;
              s1 = set_radio handle (zero_radio\<lparr>armed := True, rx_known := rx_known previous, last_rx := last_rx previous\<rparr>) s;
              s2 = capture now TOTEM_HEVT_HANDOFF_TERM handle 0 0 reason s1;
              s3 = capture_value now TOTEM_HEVT_HANDOFF_PARAM handle 0 (info_interval info) s2;
              s4 = capture_value now TOTEM_HEVT_HANDOFF_PARAM handle 1 (info_latency info) s3;
              s5 = capture_value now TOTEM_HEVT_HANDOFF_PARAM handle 2 (info_timeout info) s4;
              s6 = capture (known_time (rx_known previous) (last_rx previous) now) TOTEM_HEVT_HANDOFF_RADIO handle 4 0
                     (bool_u8 (rx_known previous)) s5
          in (Some handle, s6))"

definition handoff_returned :: "u32 \<Rightarrow> u16 option \<Rightarrow> int \<Rightarrow> handoff \<Rightarrow> handoff" where
  "handoff_returned now target err s =
     (case target of
        None \<Rightarrow> s
      | Some handle \<Rightarrow>
          let s1 = capture now TOTEM_HEVT_HANDOFF_TERM handle 1 (err_class err) (err_abs_u8 err) s
          in if err \<noteq> 0 then set_radio handle ((radio_at handle s1)\<lparr>armed := False\<rparr>) s1 else s1)"

definition wrap_bt_conn_disconnect ::
  "(bt_conn \<times> u8 \<Rightarrow> 'w \<Rightarrow> int \<times> 'w) \<Rightarrow> ble_env \<Rightarrow> (bt_conn \<Rightarrow> u16 option) \<Rightarrow> u32 \<Rightarrow> u32
   \<Rightarrow> bt_conn \<times> u8 \<Rightarrow> handoff \<times> 'w \<Rightarrow> int \<times> handoff \<times> 'w" where
  "wrap_bt_conn_disconnect real e get_handle now now' arg sw =
     (let (s, w) = sw;
          (target, s1) = handoff_request e get_handle now arg s;
          (err, w') = real arg w
      in (err, handoff_returned now' target err s1, w'))"

section \<open>Connection state\<close>

datatype bt_conn_state = BT_CONN_CONNECTED | BT_CONN_DISCONNECT_COMPLETE | BT_CONN_OTHER_STATE

record host_conn =
  hc_le :: bool
  hc_handle :: u16
  hc_err :: u8

definition set_state_observed ::
  "bool \<Rightarrow> int \<Rightarrow> u32 \<Rightarrow> host_conn \<Rightarrow> bt_conn_state \<Rightarrow> handoff \<Rightarrow> handoff" where
  "set_state_observed ll_sw_split active now conn state s =
     (let s1 = (if ll_sw_split \<and> hc_le conn \<and> state = BT_CONN_CONNECTED
                then totem_handoff_connected (hc_handle conn) s else s)
      in if hc_le conn \<and> state = BT_CONN_DISCONNECT_COMPLETE
         then
           let s2 = s1\<lparr>inbox_state := timing_capture now TOTEM_HEVT_HCI_DISC (handle_low (hc_handle conn AND 0xFF))
                      (handle_high (hc_handle conn)) (hc_err conn) 0 (to_u8 active) (inbox_state s1)\<rparr>
           in if ll_sw_split then totem_handoff_disconnected now (hc_handle conn) s2 else s2
         else s1)"

definition wrap_bt_conn_set_state ::
  "(host_conn \<times> bt_conn_state \<Rightarrow> 'w \<Rightarrow> unit \<times> 'w) \<Rightarrow> bool \<Rightarrow> int \<Rightarrow> u32
   \<Rightarrow> host_conn \<times> bt_conn_state \<Rightarrow> handoff \<times> 'w \<Rightarrow> unit \<times> handoff \<times> 'w" where
  "wrap_bt_conn_set_state real ll_sw_split active now arg sw =
     (let (s, w) = sw;
          s1 = set_state_observed ll_sw_split active now (fst arg) (snd arg) s;
          (r, w') = real arg w
      in (r, s1, w'))"

section \<open>Termination procedure\<close>

definition termination_observed :: "u32 \<Rightarrow> lll_conn \<Rightarrow> pdu_data \<Rightarrow> u8 \<Rightarrow> handoff \<Rightarrow> handoff" where
  "termination_observed now conn p stage s =
     (let handle = lll_handle conn in
      if \<not> in_range handle s \<or> ll_id p \<noteq> PDU_DATA_LLID_CTRL \<or> llctrl_opcode p \<noteq> PDU_DATA_LLCTRL_TYPE_TERMINATE_IND
      then s
      else if armed (radio_at handle s) then capture now TOTEM_HEVT_HANDOFF_TERM handle stage 0 0 s
      else s)"

definition wrap_llcp_tx_enqueue ::
  "(lll_conn \<times> pdu_data \<Rightarrow> 'w \<Rightarrow> unit \<times> 'w) \<Rightarrow> u32 \<Rightarrow> lll_conn \<times> pdu_data \<Rightarrow> handoff \<times> 'w \<Rightarrow> unit \<times> handoff \<times> 'w" where
  "wrap_llcp_tx_enqueue real now arg sw =
     (let (s, w) = sw; (conn, p) = arg;
          s1 = termination_observed now conn p 2 s;
          s2 = s1\<lparr>inbox_state := totem_security_tx_queued now conn p (inbox_state s1)\<rparr>;
          (r, w') = real arg w
      in (r, s2, w'))"

definition wrap_llcp_lp_comm_tx_ack ::
  "(lll_conn \<times> pdu_data \<Rightarrow> 'w \<Rightarrow> unit \<times> 'w) \<Rightarrow> u32 \<Rightarrow> lll_conn \<times> pdu_data \<Rightarrow> handoff \<times> 'w \<Rightarrow> unit \<times> handoff \<times> 'w" where
  "wrap_llcp_lp_comm_tx_ack real now arg sw =
     (let (s, w) = sw; (conn, p) = arg;
          s1 = termination_observed now conn p 3 s;
          (r, w') = real arg w
      in (r, s1, w'))"

text \<open>
  The procedure timer. What the wrapper reads of the connection is a function of the controller's
  state: the local timer \<^emph>\<open>before\<close> the real call; the connection, the error code and whether the
  procedure in front of the local queue is the termination procedure after it.
\<close>

record prt_view =
  prt_expire :: u16
  prt_conn :: lll_conn
  prt_error :: u8
  prt_terminating :: bool

definition ETIMEDOUT :: int where [simp]: "ETIMEDOUT = 116"

definition prt_observed :: "u32 \<Rightarrow> u16 \<Rightarrow> u16 \<Rightarrow> int \<Rightarrow> prt_view \<Rightarrow> handoff \<Rightarrow> handoff" where
  "prt_observed now local_expire elapsed_event result v s =
     (let handle = lll_handle (prt_conn v) in
      if result \<noteq> - ETIMEDOUT \<or> local_expire = 0 \<or> local_expire > elapsed_event
         \<or> lll_role (prt_conn v) \<noteq> BT_CONN_ROLE_PERIPHERAL \<or> \<not> in_range handle s
      then s
      else if prt_terminating v \<and> armed (radio_at handle s)
      then capture now TOTEM_HEVT_HANDOFF_TERM handle 4 0 (prt_error v) s
      else s)"

definition wrap_ull_cp_prt_elapse ::
  "(u16 \<Rightarrow> 'w \<Rightarrow> int \<times> 'w) \<Rightarrow> ('w \<Rightarrow> prt_view) \<Rightarrow> u32 \<Rightarrow> u16 \<Rightarrow> handoff \<times> 'w \<Rightarrow> int \<times> handoff \<times> 'w" where
  "wrap_ull_cp_prt_elapse real view now elapsed_event sw =
     (let (s, w) = sw;
          local_expire = prt_expire (view w);
          (result, w') = real elapsed_event w
      in (result, prt_observed now local_expire elapsed_event result (view w') s, w'))"

section \<open>Radio events\<close>

datatype lll_conn_mic = LLL_CONN_MIC_NONE | LLL_CONN_MIC_PASS | LLL_CONN_MIC_FAIL

text \<open>
  What a completed radio event tells: the connection and the \<open>extra\<close> part of the event. Two of the
  controller's options decide what is counted.
\<close>

record radio_event =
  re_conn :: lll_conn
  re_crc_valid :: bool
  re_aborted :: bool
  re_trx_cnt :: u16
  re_mic :: lll_conn_mic
  re_lazy_prepare :: u16
  re_latency_event :: u16
  re_must_expire :: bool

record ctlr_config =
  CONFIG_BT_CTLR_LE_ENC :: bool
  CONFIG_BT_CTLR_CONN_META :: bool

definition re_valid :: "radio_event \<Rightarrow> bool" where
  "re_valid d \<longleftrightarrow> re_crc_valid d \<and> \<not> re_aborted d"

definition re_skipped :: "ctlr_config \<Rightarrow> radio_event \<Rightarrow> u32" where
  "re_skipped k d = ucast (re_lazy_prepare d)
     + (if CONFIG_BT_CTLR_CONN_META k \<and> re_must_expire d then 0 else ucast (re_latency_event d))"

definition bool_u32 :: "bool \<Rightarrow> u32" where
  "bool_u32 b = (if b then 1 else 0)"

definition radio_done :: "ctlr_config \<Rightarrow> u32 \<Rightarrow> radio_event \<Rightarrow> handoff_radio \<Rightarrow> handoff_radio" where
  "radio_done k now d r0 =
     (let valid = re_valid d;
          r = (if valid then r0\<lparr>rx_known := True, last_rx := now\<rparr> else r0)
      in if \<not> armed r then r
         else r\<lparr>r_done := add_count (r_done r) 1,
                r_bad := add_count (r_bad r) (bool_u32 (\<not> valid)),
                r_aborted := add_count (r_aborted r) (bool_u32 (re_aborted d)),
                rx_packets := add_count (rx_packets r) (ucast (re_trx_cnt d)),
                no_rx := add_count (no_rx r) (bool_u32 (\<not> re_aborted d \<and> re_trx_cnt d = 0)),
                invalid_rx := add_count (invalid_rx r) (bool_u32 (\<not> re_aborted d \<and> re_trx_cnt d \<noteq> 0 \<and> \<not> re_crc_valid d)),
                mic_pass := (if CONFIG_BT_CTLR_LE_ENC k then add_count (mic_pass r) (bool_u32 (re_mic d = LLL_CONN_MIC_PASS))
                             else mic_pass r),
                mic_fail := (if CONFIG_BT_CTLR_LE_ENC k then add_count (mic_fail r) (bool_u32 (re_mic d = LLL_CONN_MIC_FAIL))
                             else mic_fail r),
                r_skipped := add_count (r_skipped r) (re_skipped k d),
                first_bad := (first_bad r \<or> \<not> valid)\<rparr>)"

definition conn_done_observed :: "ctlr_config \<Rightarrow> u32 \<times> radio_event \<Rightarrow> handoff \<Rightarrow> handoff" where
  "conn_done_observed k x s =
     (let (now, d) = x; handle = lll_handle (re_conn d) in
      if in_range handle s \<and> lll_role (re_conn d) = BT_CONN_ROLE_PERIPHERAL
      then
        let r = radio_at handle s;
            bad_first = (armed r \<and> \<not> re_valid d \<and> \<not> first_bad r);
            s1 = set_radio handle (radio_done k now d r) s
        in if bad_first then capture now TOTEM_HEVT_HANDOFF_RADIO handle 6 0 (bool_u8 (re_aborted d)) s1 else s1
      else s)"

definition wrap_ull_conn_done ::
  "(radio_event \<Rightarrow> 'w \<Rightarrow> unit \<times> 'w) \<Rightarrow> ctlr_config \<Rightarrow> u32 \<Rightarrow> radio_event \<Rightarrow> handoff \<times> 'w \<Rightarrow> unit \<times> handoff \<times> 'w" where
  "wrap_ull_conn_done real k now d sw =
     (let (s, w) = sw;
          s1 = conn_done_observed k (now, d) s;
          (r, w') = real d w
      in (r, s1, w'))"

section \<open>The wrappers are passive\<close>

lemmas wrapper_defs = wrap_bt_conn_disconnect_def wrap_bt_conn_set_state_def wrap_llcp_tx_enqueue_def
  wrap_llcp_lp_comm_tx_ack_def wrap_ull_cp_prt_elapse_def wrap_ull_conn_done_def

interpretation disconnect_call: passive_observer real "wrap_bt_conn_disconnect real e get_handle now now'"
  for real :: "bt_conn \<times> u8 \<Rightarrow> 'w \<Rightarrow> int \<times> 'w" and e get_handle now now'
  by unfold_locales (simp add: wrapper_defs Let_def case_prod_beta)

interpretation set_state_call: passive_observer real "wrap_bt_conn_set_state real ll_sw_split active now"
  for real :: "host_conn \<times> bt_conn_state \<Rightarrow> 'w \<Rightarrow> unit \<times> 'w" and ll_sw_split active now
  by unfold_locales (simp add: wrapper_defs Let_def case_prod_beta prod_eq_iff)

interpretation tx_enqueue_call: passive_observer real "wrap_llcp_tx_enqueue real now"
  for real :: "lll_conn \<times> pdu_data \<Rightarrow> 'w \<Rightarrow> unit \<times> 'w" and now
  by unfold_locales (simp add: wrapper_defs Let_def case_prod_beta prod_eq_iff)

interpretation tx_ack_call: passive_observer real "wrap_llcp_lp_comm_tx_ack real now"
  for real :: "lll_conn \<times> pdu_data \<Rightarrow> 'w \<Rightarrow> unit \<times> 'w" and now
  by unfold_locales (simp add: wrapper_defs Let_def case_prod_beta prod_eq_iff)

interpretation prt_elapse_call: passive_observer real "wrap_ull_cp_prt_elapse real view now"
  for real :: "u16 \<Rightarrow> 'w \<Rightarrow> int \<times> 'w" and view now
  by unfold_locales (simp add: wrapper_defs Let_def case_prod_beta)

interpretation conn_done_call: passive_observer real "wrap_ull_conn_done real k now"
  for real :: "radio_event \<Rightarrow> 'w \<Rightarrow> unit \<times> 'w" and k now
  by unfold_locales (simp add: wrapper_defs Let_def case_prod_beta prod_eq_iff)

section \<open>The counters saturate\<close>

lemma unat_add_count:
  assumes "unat count < 4294901760"
  shows "unat (add_count v count) = min 65535 (unat v + unat count)"
proof -
  have v: "unat v < 2 ^ 16" using unat_word_bound [of v] by simp
  have uc: "unat (ucast v :: u32) = unat v" using v by (simp add: unsigned_ucast_eq take_bit_nat_eq_self)
  have sum: "unat (ucast v + count) = unat v + unat count" using assms v by (simp add: unat_word_ariths uc)
  show ?thesis
  proof (cases "ucast v + count \<le> (65535 :: u32)")
    case True
    then have le: "unat v + unat count \<le> 65535" by (simp add: word_le_nat_alt sum)
    then show ?thesis using True by (simp add: add_count_def min_def unsigned_ucast_eq sum take_bit_nat_eq_self)
  next
    case False
    then have "65535 < unat v + unat count" by (simp add: word_le_nat_alt sum)
    with False show ?thesis by (simp add: add_count_def min_def)
  qed
qed

lemma unat_bool_u32 [simp]: "unat (bool_u32 b) = of_bool b"
  by (simp add: bool_u32_def)

lemma unat_re_skipped:
  "unat (re_skipped k d) = unat (re_lazy_prepare d)
     + (if CONFIG_BT_CTLR_CONN_META k \<and> re_must_expire d then 0 else unat (re_latency_event d))"
  "unat (re_skipped k d) < 4294901760"
proof -
  have b: "unat (re_lazy_prepare d) < 2 ^ 16" "unat (re_latency_event d) < 2 ^ 16"
    using unat_word_bound [of "re_lazy_prepare d"] unat_word_bound [of "re_latency_event d"] by simp_all
  have uc: "unat (ucast (re_lazy_prepare d) :: u32) = unat (re_lazy_prepare d)"
    "unat (ucast (re_latency_event d) :: u32) = unat (re_latency_event d)"
    using b by (simp_all add: unsigned_ucast_eq take_bit_nat_eq_self)
  show eq: "unat (re_skipped k d) = unat (re_lazy_prepare d)
     + (if CONFIG_BT_CTLR_CONN_META k \<and> re_must_expire d then 0 else unat (re_latency_event d))"
    using b by (simp add: re_skipped_def unat_word_ariths uc)
  show "unat (re_skipped k d) < 4294901760" using b by (simp add: eq)
qed

lemma unat_trx_cnt: "unat (ucast (re_trx_cnt d) :: u32) = unat (re_trx_cnt d)" "unat (re_trx_cnt d) < 4294901760"
  using unat_word_bound [of "re_trx_cnt d"] by (simp_all add: unsigned_ucast_eq take_bit_nat_eq_self)

definition radio_step :: "ctlr_config \<Rightarrow> u32 \<times> radio_event \<Rightarrow> handoff_radio \<Rightarrow> handoff_radio" where
  "radio_step k x = radio_done k (fst x) (snd x)"

lemma radio_step_armed [simp]: "armed (radio_step k x r) = armed r"
  by (simp add: radio_step_def radio_done_def Let_def)

lemmas radio_counts = radio_step_def radio_done_def Let_def unat_add_count unat_re_skipped(2) unat_trx_cnt

lemma unat_u16_bound: "unat v \<le> 65535" for v :: u16
  using unat_word_bound [of v] by simp

interpretation done_count: saturating_counter "radio_step k" "\<lambda>r. unat (r_done r)" "\<lambda>_. 1" 65535 armed for k
  by unfold_locales (simp_all add: radio_counts unat_u16_bound)

interpretation bad_count: saturating_counter "radio_step k" "\<lambda>r. unat (r_bad r)"
    "\<lambda>x. of_bool (\<not> re_valid (snd x))" 65535 armed for k
  by unfold_locales (simp_all add: radio_counts unat_u16_bound)

interpretation aborted_count: saturating_counter "radio_step k" "\<lambda>r. unat (r_aborted r)"
    "\<lambda>x. of_bool (re_aborted (snd x))" 65535 armed for k
  by unfold_locales (simp_all add: radio_counts unat_u16_bound)

interpretation rx_count: saturating_counter "radio_step k" "\<lambda>r. unat (rx_packets r)"
    "\<lambda>x. unat (re_trx_cnt (snd x))" 65535 armed for k
  by unfold_locales (simp_all add: radio_counts unat_u16_bound)

interpretation no_rx_count: saturating_counter "radio_step k" "\<lambda>r. unat (no_rx r)"
    "\<lambda>x. of_bool (\<not> re_aborted (snd x) \<and> re_trx_cnt (snd x) = 0)" 65535 armed for k
  by unfold_locales (simp_all add: radio_counts unat_u16_bound)

interpretation invalid_rx_count: saturating_counter "radio_step k" "\<lambda>r. unat (invalid_rx r)"
    "\<lambda>x. of_bool (\<not> re_aborted (snd x) \<and> re_trx_cnt (snd x) \<noteq> 0 \<and> \<not> re_crc_valid (snd x))" 65535 armed for k
  by unfold_locales (simp_all add: radio_counts unat_u16_bound)

interpretation skipped_count: saturating_counter "radio_step k" "\<lambda>r. unat (r_skipped r)"
    "\<lambda>x. unat (re_skipped k (snd x))" 65535 armed for k
  by unfold_locales (simp_all add: radio_counts unat_u16_bound)

interpretation mic_pass_count: saturating_counter "radio_step k" "\<lambda>r. unat (mic_pass r)"
    "\<lambda>x. of_bool (CONFIG_BT_CTLR_LE_ENC k \<and> re_mic (snd x) = LLL_CONN_MIC_PASS)" 65535 armed for k
  by unfold_locales (simp_all add: radio_counts unat_u16_bound)

interpretation mic_fail_count: saturating_counter "radio_step k" "\<lambda>r. unat (mic_fail r)"
    "\<lambda>x. of_bool (CONFIG_BT_CTLR_LE_ENC k \<and> re_mic (snd x) = LLL_CONN_MIC_FAIL)" 65535 armed for k
  by unfold_locales (simp_all add: radio_counts unat_u16_bound)

lemma own_count: "length (filter P (map snd xs)) = sum_list (map (\<lambda>x. of_bool (P (snd x))) xs)"
  by (induction xs) auto

lemma own_sum: "(\<Sum>d\<leftarrow>map snd xs. f d) = sum_list (map (\<lambda>x. f (snd x)) xs)"
  by (simp add: o_def)

section \<open>Slots are independent\<close>

lemma capture_fields [simp]: "radios (capture t ty h st lo hi s) = radios s" "radios (capture_value t ty h st v s) = radios s"
  by (simp_all add: capture_def capture_value_def)

lemma radio_at_simps [simp]:
  "radio_at h (capture t ty h' st lo hi s) = radio_at h s"
  "radio_at h (capture_value t ty h' st v s) = radio_at h s"
  "in_range h (capture t ty h' st lo hi s) = in_range h s"
  "in_range h (capture_value t ty h' st v s) = in_range h s"
  "in_range h (set_radio h' r s) = in_range h s"
  "radio_at h (s\<lparr>inbox_state := ti\<rparr>) = radio_at h s"
  "in_range h (s\<lparr>inbox_state := ti\<rparr>) = in_range h s"
  by (simp_all add: radio_at_def in_range_def set_radio_def)

lemma radio_at_set_radio [simp]:
  "in_range h s \<Longrightarrow> radio_at h' (set_radio h r s) = (if h' = h then r else radio_at h' s)"
  by (auto simp: radio_at_def set_radio_def in_range_def nth_list_update word_unat_eq_iff)

definition own_event :: "u16 \<Rightarrow> u32 \<times> radio_event \<Rightarrow> bool" where
  "own_event handle x \<longleftrightarrow> lll_handle (re_conn (snd x)) = handle \<and> lll_role (re_conn (snd x)) = BT_CONN_ROLE_PERIPHERAL"

lemma conn_done_radio:
  assumes "in_range handle s"
  shows "radio_at handle (conn_done_observed k x s)
      = (if own_event handle x then radio_step k x (radio_at handle s) else radio_at handle s)"
    and "in_range handle (conn_done_observed k x s)"
  using assms by (auto simp: conn_done_observed_def own_event_def radio_step_def Let_def case_prod_beta)

lemma conn_dones_radio:
  "in_range handle s \<Longrightarrow> radio_at handle (fold (conn_done_observed k) xs s)
      = fold (radio_step k) (filter (own_event handle) xs) (radio_at handle s)
    \<and> in_range handle (fold (conn_done_observed k) xs s)"
  by (induction xs arbitrary: s) (auto simp: conn_done_radio)

lemma handoff_request_radio:
  assumes "handoff_request e get_handle now arg s0 = (Some handle, s)"
  shows "in_range handle s \<and> radio_at handle s
      = zero_radio\<lparr>armed := True, rx_known := rx_known (radio_at handle s0), last_rx := last_rx (radio_at handle s0)\<rparr>"
proof -
  obtain conn reason where arg: "arg = (conn, reason)" by (cases arg)
  from assms obtain info where t: "handoff_target e get_handle conn s0 = Some (info, handle)"
    by (auto simp: handoff_request_def arg Let_def split: option.splits)
  then have "in_range handle s0" by (auto simp: handoff_target_def Let_def split: option.splits if_splits)
  with assms t show ?thesis by (auto simp: handoff_request_def arg Let_def)
qed

section \<open>The summary reaches the inbox\<close>

definition timing_rec :: "u32 \<Rightarrow> totem_host_evt \<Rightarrow> u16 \<Rightarrow> u8 \<Rightarrow> u8 \<Rightarrow> u8 \<Rightarrow> timing_record" where
  "timing_rec time t handle stage low high = \<lparr>tr_uptime_ms = time, tr_type = t, tr_idx = handle_low handle,
     tr_active = handle_high handle, tr_reason = stage, tr_pair = low, tr_extra = high\<rparr>"

definition value_rec :: "u32 \<Rightarrow> totem_host_evt \<Rightarrow> u16 \<Rightarrow> u8 \<times> u16 \<Rightarrow> timing_record" where
  "value_rec now t handle x = timing_rec now t handle (fst x) (ucast (snd x)) (ucast (drop_bit 8 (snd x)))"

definition radio_values :: "handoff_radio \<Rightarrow> (u8 \<times> u16) list" where
  "radio_values r = [(0, r_done r), (1, r_bad r), (2, r_aborted r), (3, r_skipped r), (7, rx_packets r),
     (8, no_rx r), (9, invalid_rx r), (10, mic_pass r), (11, mic_fail r)]"

definition tx_values :: "handoff_radio \<Rightarrow> (u8 \<times> u16) list" where
  "tx_values r = [(0, tx_setups r), (1, tx_completed r), (2, tx_uncompleted r)]"

definition summary_records :: "u32 \<Rightarrow> u16 \<Rightarrow> handoff_radio \<Rightarrow> timing_record list" where
  "summary_records now handle r =
     map (value_rec now TOTEM_HEVT_HANDOFF_RADIO handle) (radio_values r)
     @ [timing_rec (known_time (rx_known r) (last_rx r) now) TOTEM_HEVT_HANDOFF_RADIO handle 5 0 (bool_u8 (rx_known r))]
     @ map (value_rec now TOTEM_HEVT_HANDOFF_TX handle) (tx_values r)
     @ [timing_rec (known_time (tx_setups r \<noteq> 0) (first_tx_setup r) now) TOTEM_HEVT_HANDOFF_TX handle 3 0 (bool_u8 (tx_setups r \<noteq> 0)),
        timing_rec (known_time (tx_completed r \<noteq> 0) (first_tx_end r) now) TOTEM_HEVT_HANDOFF_TX handle 4 0 (bool_u8 (tx_completed r \<noteq> 0)),
        timing_rec (known_time (tx_completed r \<noteq> 0) (last_tx_end r) now) TOTEM_HEVT_HANDOFF_TX handle 5 0 (bool_u8 (tx_completed r \<noteq> 0))]"

lemma handoff_summary_captures:
  "handoff_summary now handle r s = s\<lparr>inbox_state := fold totem_diagnostic_timing_capture (summary_records now handle r) (inbox_state s)\<rparr>"
  by (simp add: handoff_summary_def summary_records_def radio_values_def tx_values_def value_rec_def timing_rec_def
      capture_value_def capture_def timing_capture_def Let_def)

lemma handle_low_masked [simp]: "handle_low (h AND 0xFF) = handle_low h"
proof -
  have m: "(0xFF :: u16) = mask 8" by (simp add: mask_eq_exp_minus_1)
  show ?thesis unfolding handle_low_def m by (rule bit_word_eqI) (auto simp: bit_simps)
qed

text \<open>The 16-bit values a reader of the records rebuilds for one kind and stage.\<close>

definition summary_value :: "timing_record list \<Rightarrow> totem_host_evt \<Rightarrow> u8 \<Rightarrow> u16 list" where
  "summary_value recs t stage =
     map (\<lambda>r. le16 (tr_pair r) (tr_extra r)) (filter (\<lambda>r. tr_type r = t \<and> tr_reason r = stage) recs)"

lemma le16_split [simp]: "le16 (ucast v) (ucast (drop_bit 8 v)) = v" for v :: u16
  using le16_handle [of v] by (simp add: handle_low_def handle_high_def)

lemma summary_values:
  "map (\<lambda>x. summary_value (rec # summary_records now handle r) TOTEM_HEVT_HANDOFF_RADIO (fst x)) (radio_values r)
     = map (\<lambda>x. [snd x]) (radio_values r)"
  "map (\<lambda>x. summary_value (rec # summary_records now handle r) TOTEM_HEVT_HANDOFF_TX (fst x)) (tx_values r)
     = map (\<lambda>x. [snd x]) (tx_values r)"
  if "tr_type rec = TOTEM_HEVT_HCI_DISC"
  using that by (simp_all add: summary_value_def summary_records_def radio_values_def tx_values_def value_rec_def timing_rec_def)

lemma length_summary_records [simp]: "length (summary_records now handle r) = 16"
  by (simp add: summary_records_def radio_values_def tx_values_def)

lemma disconnect_captures:
  assumes "in_range (hc_handle conn) s" and "hc_le conn" and "armed (radio_at (hc_handle conn) s)"
  shows "set_state_observed True active now conn BT_CONN_DISCONNECT_COMPLETE s
    = (set_radio (hc_handle conn) zero_radio s)\<lparr>inbox_state := fold totem_diagnostic_timing_capture
        (timing_rec now TOTEM_HEVT_HCI_DISC (hc_handle conn) (hc_err conn) 0 (to_u8 active)
          # summary_records now (hc_handle conn) (radio_at (hc_handle conn) s)) (inbox_state s)\<rparr>"
  using assms
  by (simp add: set_state_observed_def totem_handoff_disconnected_def handoff_summary_captures Let_def
      timing_rec_def timing_capture_def set_radio_def)

section \<open>Properties\<close>

text \<open>
  C33. The radio summary of a handoff is exact: from the moment the disconnect was requested, after
  any sequence of completed radio events (of this and other connections), each counter of the
  connection's slot is the number of its own events with that outcome, its packet and skip counts
  are the sums over its own events, and each stops at 65535 instead of wrapping.
\<close>

theorem radio_summary_exact:
  assumes "handoff_request e get_handle now arg s0 = (Some handle, s)"
    and "r = radio_at handle (fold (conn_done_observed k) xs s)"
    and "own = map snd (filter (own_event handle) xs)"
  shows "armed r
    \<and> unat (r_done r) = min 65535 (length own)
    \<and> unat (r_bad r) = min 65535 (length (filter (\<lambda>d. \<not> re_valid d) own))
    \<and> unat (r_aborted r) = min 65535 (length (filter re_aborted own))
    \<and> unat (rx_packets r) = min 65535 (\<Sum>d\<leftarrow>own. unat (re_trx_cnt d))
    \<and> unat (no_rx r) = min 65535 (length (filter (\<lambda>d. \<not> re_aborted d \<and> re_trx_cnt d = 0) own))
    \<and> unat (invalid_rx r) = min 65535 (length (filter (\<lambda>d. \<not> re_aborted d \<and> re_trx_cnt d \<noteq> 0 \<and> \<not> re_crc_valid d) own))
    \<and> unat (r_skipped r) = min 65535 (\<Sum>d\<leftarrow>own. unat (re_lazy_prepare d)
         + (if CONFIG_BT_CTLR_CONN_META k \<and> re_must_expire d then 0 else unat (re_latency_event d)))
    \<and> (if CONFIG_BT_CTLR_LE_ENC k
       then unat (mic_pass r) = min 65535 (length (filter (\<lambda>d. re_mic d = LLL_CONN_MIC_PASS) own))
          \<and> unat (mic_fail r) = min 65535 (length (filter (\<lambda>d. re_mic d = LLL_CONN_MIC_FAIL) own))
       else mic_pass r = 0 \<and> mic_fail r = 0)"
proof -
  let ?ys = "filter (own_event handle) xs" and ?z = "radio_at handle s"
  from handoff_request_radio [OF assms(1)] have rng: "in_range handle s" and arm: "armed ?z"
    and z: "r_done ?z = 0" "r_bad ?z = 0" "r_aborted ?z = 0" "rx_packets ?z = 0" "no_rx ?z = 0" "invalid_rx ?z = 0"
      "r_skipped ?z = 0" "mic_pass ?z = 0" "mic_fail ?z = 0"
    by (simp_all add: zero_radio_def)
  have r: "r = fold (radio_step k) ?ys ?z" using conn_dones_radio [OF rng] assms(2) by simp
  note own = r assms(3) z unat_0 add_0 own_count own_sum
  have c1: "unat (r_done r) = min 65535 (length own)"
    using done_count.steps_count [OF arm, of k ?ys] by (simp add: r assms(3) z sum_list_triv)
  have c2: "unat (r_bad r) = min 65535 (length (filter (\<lambda>d. \<not> re_valid d) own))"
    using bad_count.steps_count [OF arm, of k ?ys] by (simp only: own)
  have c3: "unat (r_aborted r) = min 65535 (length (filter re_aborted own))"
    using aborted_count.steps_count [OF arm, of k ?ys] by (simp only: own)
  have c4: "unat (rx_packets r) = min 65535 (\<Sum>d\<leftarrow>own. unat (re_trx_cnt d))"
    using rx_count.steps_count [OF arm, of k ?ys] by (simp only: own)
  have c5: "unat (no_rx r) = min 65535 (length (filter (\<lambda>d. \<not> re_aborted d \<and> re_trx_cnt d = 0) own))"
    using no_rx_count.steps_count [OF arm, of k ?ys] by (simp only: own)
  have c6: "unat (invalid_rx r) = min 65535 (length (filter (\<lambda>d. \<not> re_aborted d \<and> re_trx_cnt d \<noteq> 0 \<and> \<not> re_crc_valid d) own))"
    using invalid_rx_count.steps_count [OF arm, of k ?ys] by (simp only: own)
  have c7: "unat (r_skipped r) = min 65535 (\<Sum>d\<leftarrow>own. unat (re_lazy_prepare d)
         + (if CONFIG_BT_CTLR_CONN_META k \<and> re_must_expire d then 0 else unat (re_latency_event d)))"
    using skipped_count.steps_count [OF arm, of k ?ys] by (simp only: own unat_re_skipped(1))
  have c8: "unat (mic_pass r) = min 65535 (length (filter (\<lambda>d. CONFIG_BT_CTLR_LE_ENC k \<and> re_mic d = LLL_CONN_MIC_PASS) own))"
    using mic_pass_count.steps_count [OF arm, of k ?ys] by (simp only: own)
  have c9: "unat (mic_fail r) = min 65535 (length (filter (\<lambda>d. CONFIG_BT_CTLR_LE_ENC k \<and> re_mic d = LLL_CONN_MIC_FAIL) own))"
    using mic_fail_count.steps_count [OF arm, of k ?ys] by (simp only: own)
  have c10: "armed r" using done_count.steps_invar [OF arm, of k ?ys] by (simp only: r)
  have mic: "if CONFIG_BT_CTLR_LE_ENC k
       then unat (mic_pass r) = min 65535 (length (filter (\<lambda>d. re_mic d = LLL_CONN_MIC_PASS) own))
          \<and> unat (mic_fail r) = min 65535 (length (filter (\<lambda>d. re_mic d = LLL_CONN_MIC_FAIL) own))
       else mic_pass r = 0 \<and> mic_fail r = 0"
    using c8 c9 by (cases "CONFIG_BT_CTLR_LE_ENC k") (simp_all add: unat_eq_zero)
  show ?thesis by (intro conjI c1 c2 c3 c4 c5 c6 c7 c10 mic)
qed

definition handoff_env :: ble_env where
  "handoff_env = \<lparr>k_uptime_get = 5, zmk_ble_active_profile_index = 0, zmk_ble_active_profile_is_open = False,
     zmk_ble_active_profile_is_connected = True, zmk_ble_host_adv_suppressed = False, zmk_ble_profile_index = int,
     zmk_endpoint_selected_transport = ZMK_TRANSPORT_BLE, zmk_usb_is_powered = False, bt_conn_disconnect = (\<lambda>_ _. 0)\<rparr>"

definition background_conn :: bt_conn where
  "background_conn = \<lparr>conn_index = 1, conn_dst = 1, conn_info = Some \<lparr>info_le = True, info_role = BT_CONN_ROLE_PERIPHERAL,
     info_state = BT_CONN_STATE_CONNECTED, info_interval = 12, info_latency = 0, info_timeout = 400\<rparr>, conn_security = 2\<rparr>"

definition demo_request :: handoff where
  "demo_request = snd (handoff_request handoff_env (\<lambda>_. Some 1) 5 (background_conn, 0x13) (handoff_boot totem_left_config))"

definition demo_radio_event :: "bool \<Rightarrow> u16 \<Rightarrow> u16 \<Rightarrow> radio_event" where
  "demo_radio_event crc_ok packets handle = \<lparr>re_conn = \<lparr>lll_handle = handle, lll_role = BT_CONN_ROLE_PERIPHERAL, lll_enc_tx = True\<rparr>,
     re_crc_valid = crc_ok, re_aborted = False, re_trx_cnt = packets, re_mic = (if crc_ok then LLL_CONN_MIC_PASS else LLL_CONN_MIC_NONE),
     re_lazy_prepare = 3, re_latency_event = 0, re_must_expire = False\<rparr>"

lemma demo_request_eq:
  "handoff_request handoff_env (\<lambda>_. Some 1) 5 (background_conn, 0x13) (handoff_boot totem_left_config) = (Some 1, demo_request)"
  by (simp add: demo_request_def handoff_request_def handoff_target_def background_conn_def handoff_env_def in_range_def
      handoff_boot_def totem_left_config_def Let_def)

theorem radio_summary_exact_witness:
  "let r = radio_at 1 (fold (conn_done_observed \<lparr>CONFIG_BT_CTLR_LE_ENC = True, CONFIG_BT_CTLR_CONN_META = True\<rparr>)
         [(6, demo_radio_event True 2 1), (7, demo_radio_event True 9 4), (8, demo_radio_event False 0 1)] demo_request)
   in unat (r_done r) = 2 \<and> unat (r_bad r) = 1 \<and> unat (rx_packets r) = 2 \<and> unat (r_skipped r) = 6 \<and> unat (mic_pass r) = 1"
  using radio_summary_exact [OF demo_request_eq refl refl, of "\<lparr>CONFIG_BT_CTLR_LE_ENC = True, CONFIG_BT_CTLR_CONN_META = True\<rparr>"
      "[(6, demo_radio_event True 2 1), (7, demo_radio_event True 9 4), (8, demo_radio_event False 0 1)]"]
  by (simp add: own_event_def demo_radio_event_def re_valid_def)

text \<open>
  C39. A finished handoff is reported completely: when the connection of an armed slot reports its
  disconnect and the inbox has room for 17 records (24 less what waits there), the inbox gains
  exactly 17 records, nothing is dropped, each carries the connection's handle, each of the twelve
  counters can be rebuilt from exactly one record, and the slot is cleared for the next connection.
\<close>

theorem handoff_report_complete:
  assumes "timing_inv (inbox_state s)" and "timing_count (inbox_state s) \<le> 7"
    and "in_range (hc_handle conn) s" and "hc_le conn" and "r = radio_at (hc_handle conn) s" and "armed r"
    and "s' = set_state_observed True active now conn BT_CONN_DISCONNECT_COMPLETE s"
  shows "\<exists>recs. timing_contents (inbox_state s') = timing_contents (inbox_state s) @ recs \<and> length recs = 17
    \<and> timing_dropped (inbox_state s') = timing_dropped (inbox_state s)
    \<and> list_all (\<lambda>x. le16 (tr_idx x) (tr_active x) = hc_handle conn) recs
    \<and> map (summary_value recs TOTEM_HEVT_HANDOFF_RADIO) [0, 1, 2, 3, 7, 8, 9, 10, 11]
        = [[r_done r], [r_bad r], [r_aborted r], [r_skipped r], [rx_packets r], [no_rx r], [invalid_rx r], [mic_pass r], [mic_fail r]]
    \<and> map (summary_value recs TOTEM_HEVT_HANDOFF_TX) [0, 1, 2] = [[tx_setups r], [tx_completed r], [tx_uncompleted r]]
    \<and> radio_at (hc_handle conn) s' = zero_radio"
proof -
  let ?h = "hc_handle conn" and ?i = "inbox_state s"
  let ?d = "timing_rec now TOTEM_HEVT_HCI_DISC ?h (hc_err conn) 0 (to_u8 active)"
  let ?recs = "?d # summary_records now ?h r"
  have d: "tr_type ?d = TOTEM_HEVT_HCI_DISC" by (simp add: timing_rec_def)
  have s': "s' = (set_radio ?h zero_radio s)\<lparr>inbox_state := fold totem_diagnostic_timing_capture ?recs ?i\<rparr>"
    using disconnect_captures [OF assms(3,4), of active now] assms(5,6,7) by simp
  have len: "length ?recs = 17" by simp
  have "timing_contents (fold totem_diagnostic_timing_capture ?recs ?i) = timing_contents ?i @ ?recs"
    using inbox.puts_contents [OF assms(1), of ?recs] assms(2) len by (simp add: TIMING_CAP_def)
  moreover have "unat (timing_dropped (fold totem_diagnostic_timing_capture ?recs ?i)) = unat (timing_dropped ?i)"
    using inbox.puts_refused [OF assms(1), of ?recs] inbox.refused_bound [OF assms(1)] assms(2) len by (simp add: TIMING_CAP_def)
  moreover have "list_all (\<lambda>x. le16 (tr_idx x) (tr_active x) = ?h) ?recs"
    by (simp add: summary_records_def radio_values_def tx_values_def value_rec_def timing_rec_def)
  ultimately show ?thesis
    using summary_values [OF d, of now ?h r] assms(3) len
    by (intro exI [of _ ?recs]) (simp add: s' word_unat_eq_iff radio_values_def tx_values_def)
qed

theorem handoff_report_complete_witness:
  "\<exists>recs. timing_contents (inbox_state (set_state_observed True 0 9 \<lparr>hc_le = True, hc_handle = 1, hc_err = 0x13\<rparr>
         BT_CONN_DISCONNECT_COMPLETE demo_request)) = timing_contents (inbox_state demo_request) @ recs
     \<and> length recs = 17 \<and> summary_value recs TOTEM_HEVT_HANDOFF_RADIO 0 = [0]"
proof -
  let ?c = "\<lparr>hc_le = True, hc_handle = 1, hc_err = 0x13\<rparr> :: host_conn"
  have inv: "timing_inv (inbox_state demo_request)" "timing_count (inbox_state demo_request) \<le> 7" by code_simp+
  have rng: "in_range (hc_handle ?c) demo_request" "hc_le ?c"
    and r: "armed (radio_at (hc_handle ?c) demo_request)" "r_done (radio_at (hc_handle ?c) demo_request) = 0"
    using handoff_request_radio [OF demo_request_eq] by (simp_all add: zero_radio_def)
  show ?thesis
    using handoff_report_complete [OF inv rng refl r(1) refl, of 0 9] r(2) by auto
qed

text \<open>
  The handoff observers never change what they observe: over any sequence of calls, each of the
  six wrapped functions returns the same results and takes the stack through the same states as
  the real function alone, whatever the observers' own state is.
\<close>

lemma handoff_wrappers_passive:
  fixes disconnect :: "bt_conn \<times> u8 \<Rightarrow> 'w \<Rightarrow> int \<times> 'w"
    and set_state :: "host_conn \<times> bt_conn_state \<Rightarrow> 'w \<Rightarrow> unit \<times> 'w"
    and enqueue ack :: "lll_conn \<times> pdu_data \<Rightarrow> 'w \<Rightarrow> unit \<times> 'w"
    and elapse :: "u16 \<Rightarrow> 'w \<Rightarrow> int \<times> 'w"
    and conn_done :: "radio_event \<Rightarrow> 'w \<Rightarrow> unit \<times> 'w"
  shows "transparent disconnect (wrap_bt_conn_disconnect disconnect e get_handle now now')
    \<and> transparent set_state (wrap_bt_conn_set_state set_state split_ll active now)
    \<and> transparent enqueue (wrap_llcp_tx_enqueue enqueue now)
    \<and> transparent ack (wrap_llcp_lp_comm_tx_ack ack now)
    \<and> transparent elapse (wrap_ull_cp_prt_elapse elapse view now)
    \<and> transparent conn_done (wrap_ull_conn_done conn_done k now)"
  by (intro conjI disconnect_call.wrap_transparent set_state_call.wrap_transparent tx_enqueue_call.wrap_transparent tx_ack_call.wrap_transparent prt_elapse_call.wrap_transparent conn_done_call.wrap_transparent)

end
