(* ===== verification/Handoff_Radio_Tx.thy ===== *)
theory Handoff_Radio_Tx
  imports Handoff_Diagnostics
begin

text \<open>
  Radio observers, \<open>src/handoff_radio_tx.c\<close>: which of the radio's transmissions are the
  termination packet of an armed handoff, and whether each of them ended. Pointers are numbers
  (0 is \<open>NULL\<close>), compared and never followed except for the packet header passed beside them; the
  hardware's \<open>END\<close> event is a function of the radio's state.
\<close>

section \<open>State\<close>

record tx_radio =
  tx_param :: nat
  tx_handle :: u16
  tx_active :: bool
  tx_encrypted :: bool
  tx_pending :: bool
  encrypted_packet :: nat
  encrypted_term :: bool

definition tx_radio_boot :: tx_radio where
  "tx_radio_boot = \<lparr>tx_param = 0, tx_handle = 0, tx_active = False, tx_encrypted = False, tx_pending = False,
     encrypted_packet = 0, encrypted_term = False\<rparr>"

type_synonym tx_state = "tx_radio \<times> handoff"

datatype radio_isr = lll_conn_isr_rx | lll_conn_isr_tx | Other_isr

definition is_termination :: "pdu_data \<Rightarrow> bool" where
  "is_termination p \<longleftrightarrow> ll_id p = PDU_DATA_LLID_CTRL \<and> pdu_len p \<ge> 2
     \<and> llctrl_opcode p = PDU_DATA_LLCTRL_TYPE_TERMINATE_IND"

section \<open>Observers\<close>

definition finish_pending :: "u32 \<Rightarrow> bool \<Rightarrow> tx_state \<Rightarrow> tx_state" where
  "finish_pending now end_event ts =
     (let (t, h) = ts in
      if tx_pending t then (t\<lparr>tx_pending := False\<rparr>, totem_handoff_tx_result now (tx_handle t) end_event h)
      else (t, h))"

definition radio_isr_observed ::
  "ctlr_config \<Rightarrow> u32 \<Rightarrow> bool \<Rightarrow> radio_isr \<times> nat \<times> lll_conn \<Rightarrow> tx_state \<Rightarrow> tx_state" where
  "radio_isr_observed k now end_event arg ts0 =
     (let (cb, param, lll) = arg in
      if cb = lll_conn_isr_rx \<or> cb = lll_conn_isr_tx then
        let ts1 = (if cb = lll_conn_isr_rx then finish_pending now end_event ts0 else ts0);
            (t2, h2) = (if param \<noteq> tx_param (fst ts1)
                        then (let (t, h) = finish_pending now end_event ts1 in (t\<lparr>encrypted_packet := 0\<rparr>, h))
                        else ts1)
        in (t2\<lparr>tx_param := param, tx_handle := lll_handle lll,
               tx_active := (lll_role lll = BT_CONN_ROLE_PERIPHERAL \<and> totem_handoff_tx_armed (lll_handle lll) h2),
               tx_encrypted := (CONFIG_BT_CTLR_LE_ENC k \<and> lll_enc_tx lll)\<rparr>, h2)
      else if param \<noteq> tx_param (fst ts0) then
        let (t, h) = finish_pending now end_event ts0
        in (t\<lparr>tx_active := False, encrypted_packet := 0, tx_param := 0\<rparr>, h)
      else ts0)"

text \<open>Around \<open>radio_ccm_tx_pkt_set\<close>: \<open>encrypted\<close> is the pointer it returned.\<close>

definition ccm_tx_observed :: "pdu_data \<Rightarrow> nat \<Rightarrow> tx_state \<Rightarrow> tx_state" where
  "ccm_tx_observed p encrypted ts =
     (let (t, h) = ts in (t\<lparr>encrypted_packet := encrypted, encrypted_term := (tx_active t \<and> is_termination p)\<rparr>, h))"

text \<open>Before and after \<open>radio_pkt_tx_set\<close>.\<close>

definition pkt_tx_before :: "u32 \<Rightarrow> bool \<Rightarrow> nat \<times> pdu_data \<Rightarrow> tx_state \<Rightarrow> bool \<times> tx_state" where
  "pkt_tx_before now end_event arg ts =
     (let (packet, p) = arg; (t, h) = ts;
          is_term = (tx_active t \<and> (if tx_encrypted t then encrypted_packet t = packet \<and> encrypted_term t
                                    else is_termination p))
      in (is_term, finish_pending now end_event (t\<lparr>encrypted_packet := 0\<rparr>, h)))"

definition pkt_tx_after :: "u32 \<Rightarrow> bool \<Rightarrow> tx_state \<Rightarrow> tx_state" where
  "pkt_tx_after now is_term ts =
     (let (t, h) = ts in
      if is_term then (t\<lparr>tx_pending := True\<rparr>, totem_handoff_tx_setup now (tx_handle t) h) else (t, h))"

section \<open>Wrappers\<close>

definition wrap_radio_isr_set ::
  "(radio_isr \<times> nat \<times> lll_conn \<Rightarrow> 'w \<Rightarrow> unit \<times> 'w) \<Rightarrow> ('w \<Rightarrow> bool) \<Rightarrow> ctlr_config \<Rightarrow> u32
   \<Rightarrow> radio_isr \<times> nat \<times> lll_conn \<Rightarrow> tx_state \<times> 'w \<Rightarrow> unit \<times> tx_state \<times> 'w" where
  "wrap_radio_isr_set real end_event k now arg sw =
     (let (s, w) = sw;
          s1 = radio_isr_observed k now (end_event w) arg s;
          (r, w') = real arg w
      in (r, s1, w'))"

definition wrap_radio_ccm_tx_pkt_set ::
  "(nat \<times> pdu_data \<Rightarrow> 'w \<Rightarrow> nat \<times> 'w) \<Rightarrow> nat \<times> pdu_data \<Rightarrow> tx_state \<times> 'w \<Rightarrow> nat \<times> tx_state \<times> 'w" where
  "wrap_radio_ccm_tx_pkt_set real arg sw =
     (let (s, w) = sw;
          (encrypted, w') = real arg w
      in (encrypted, ccm_tx_observed (snd arg) encrypted s, w'))"

definition wrap_radio_pkt_tx_set ::
  "(nat \<times> pdu_data \<Rightarrow> 'w \<Rightarrow> unit \<times> 'w) \<Rightarrow> ('w \<Rightarrow> bool) \<Rightarrow> u32 \<Rightarrow> u32
   \<Rightarrow> nat \<times> pdu_data \<Rightarrow> tx_state \<times> 'w \<Rightarrow> unit \<times> tx_state \<times> 'w" where
  "wrap_radio_pkt_tx_set real end_event now now' arg sw =
     (let (s, w) = sw;
          (is_term, s1) = pkt_tx_before now (end_event w) arg s;
          (r, w') = real arg w
      in (r, pkt_tx_after now' is_term s1, w'))"

definition wrap_radio_status_reset ::
  "(unit \<Rightarrow> 'w \<Rightarrow> unit \<times> 'w) \<Rightarrow> ('w \<Rightarrow> bool) \<Rightarrow> u32 \<Rightarrow> unit \<Rightarrow> tx_state \<times> 'w \<Rightarrow> unit \<times> tx_state \<times> 'w" where
  "wrap_radio_status_reset real end_event now arg sw =
     (let (s, w) = sw;
          s1 = finish_pending now (end_event w) s;
          (r, w') = real arg w
      in (r, s1, w'))"

interpretation isr_set_call: passive_observer real "wrap_radio_isr_set real end_event k now"
  for real :: "radio_isr \<times> nat \<times> lll_conn \<Rightarrow> 'w \<Rightarrow> unit \<times> 'w" and end_event k now
  by unfold_locales (simp add: wrap_radio_isr_set_def Let_def case_prod_beta prod_eq_iff)

interpretation ccm_call: passive_observer real "wrap_radio_ccm_tx_pkt_set real"
  for real :: "nat \<times> pdu_data \<Rightarrow> 'w \<Rightarrow> nat \<times> 'w"
  by unfold_locales (simp add: wrap_radio_ccm_tx_pkt_set_def Let_def case_prod_beta)

interpretation pkt_tx_call: passive_observer real "wrap_radio_pkt_tx_set real end_event now now'"
  for real :: "nat \<times> pdu_data \<Rightarrow> 'w \<Rightarrow> unit \<times> 'w" and end_event now now'
  by unfold_locales (simp add: wrap_radio_pkt_tx_set_def Let_def case_prod_beta prod_eq_iff)

interpretation status_reset_call: passive_observer real "wrap_radio_status_reset real end_event now"
  for real :: "unit \<Rightarrow> 'w \<Rightarrow> unit \<times> 'w" and end_event now
  by unfold_locales (simp add: wrap_radio_status_reset_def Let_def case_prod_beta prod_eq_iff)

section \<open>Runs of the radio\<close>

text \<open>
  One entry per observed event, with the clock and the state of the hardware's \<open>END\<close> event; the
  radio events of \<open>Handoff_Diagnostics\<close> come in between.
\<close>

datatype radio_op =
    R_isr u32 bool radio_isr nat lll_conn
  | R_ccm pdu_data nat
  | R_pkt_tx u32 bool nat pdu_data
  | R_status_reset u32 bool
  | R_done u32 radio_event

primrec radio_op_step :: "ctlr_config \<Rightarrow> radio_op \<Rightarrow> tx_state \<Rightarrow> tx_state" where
  "radio_op_step k (R_isr now ended cb param lll) ts = radio_isr_observed k now ended (cb, param, lll) ts"
| "radio_op_step k (R_ccm p encrypted) ts = ccm_tx_observed p encrypted ts"
| "radio_op_step k (R_pkt_tx now ended packet p) ts =
     (let (is_term, ts1) = pkt_tx_before now ended (packet, p) ts in pkt_tx_after now is_term ts1)"
| "radio_op_step k (R_status_reset now ended) ts = finish_pending now ended ts"
| "radio_op_step k (R_done now d) ts = (fst ts, conn_done_observed k (now, d) (snd ts))"

text \<open>A connection object keeps its handle: the handle is a function of the pointer.\<close>

primrec handle_stable :: "(nat \<Rightarrow> u16) \<Rightarrow> radio_op \<Rightarrow> bool" where
  "handle_stable handle_of (R_isr now ended cb param lll) = (lll_handle lll = handle_of param)"
| "handle_stable handle_of (R_ccm p encrypted) = True"
| "handle_stable handle_of (R_pkt_tx now ended packet p) = True"
| "handle_stable handle_of (R_status_reset now ended) = True"
| "handle_stable handle_of (R_done now d) = True"

section \<open>Every transmission is resolved once\<close>

text \<open>
  The balance for the slot of \<open>handle\<close>: setups so far (at most \<open>n\<close>) are the completed and the
  uncompleted ones and the one in flight, if it belongs to the slot.
\<close>

definition tx_inv :: "(nat \<Rightarrow> u16) \<Rightarrow> u16 \<Rightarrow> nat \<Rightarrow> tx_state \<Rightarrow> bool" where
  "tx_inv handle_of handle n ts \<longleftrightarrow> (let (t, h) = ts; r = radio_at handle h in
     in_range handle h \<and> armed r \<and> (tx_active t \<or> tx_pending t \<longrightarrow> tx_handle t = handle_of (tx_param t))
     \<and> unat (tx_setups r) \<le> n
     \<and> unat (tx_setups r) = unat (tx_completed r) + unat (tx_uncompleted r) + of_bool (tx_pending t \<and> tx_handle t = handle))"

lemma add_count_one: "unat v < 65535 \<Longrightarrow> unat (add_count v 1) = unat v + 1"
  by (simp add: unat_add_count)

lemma tx_result_radio:
  assumes "in_range handle h"
  shows "radio_at handle (totem_handoff_tx_result now handle' completed h)
    = (let r = radio_at handle h in
       if handle' = handle \<and> armed r then
         if completed then r\<lparr>first_tx_end := (if tx_completed r = 0 then now else first_tx_end r), last_tx_end := now,
           tx_completed := add_count (tx_completed r) 1\<rparr>
         else r\<lparr>tx_uncompleted := add_count (tx_uncompleted r) 1\<rparr>
       else r)"
    and "in_range handle (totem_handoff_tx_result now handle' completed h)"
  using assms by (auto simp: totem_handoff_tx_result_def Let_def)

lemma tx_setup_radio:
  assumes "in_range handle h"
  shows "radio_at handle (totem_handoff_tx_setup now handle' h)
    = (let r = radio_at handle h in
       if handle' = handle \<and> armed r
       then r\<lparr>first_tx_setup := (if tx_setups r = 0 then now else first_tx_setup r), tx_setups := add_count (tx_setups r) 1\<rparr>
       else r)"
    and "in_range handle (totem_handoff_tx_setup now handle' h)"
  using assms by (auto simp: totem_handoff_tx_setup_def Let_def)

lemma conn_done_tx:
  assumes "in_range handle h"
  shows "tx_setups (radio_at handle (conn_done_observed k x h)) = tx_setups (radio_at handle h)"
    and "tx_completed (radio_at handle (conn_done_observed k x h)) = tx_completed (radio_at handle h)"
    and "tx_uncompleted (radio_at handle (conn_done_observed k x h)) = tx_uncompleted (radio_at handle h)"
    and "armed (radio_at handle (conn_done_observed k x h)) = armed (radio_at handle h)"
  using assms by (simp_all add: conn_done_radio radio_step_def radio_done_def Let_def)

lemma finish_pending_inv:
  assumes "tx_inv handle_of handle n ts" and "n \<le> 65535"
  shows "tx_inv handle_of handle n (finish_pending now ended ts)"
    and "\<not> tx_pending (fst (finish_pending now ended ts))"
    and "tx_param (fst (finish_pending now ended ts)) = tx_param (fst ts)"
    and "tx_active (fst (finish_pending now ended ts)) = tx_active (fst ts)"
proof -
  obtain t h where ts: "ts = (t, h)" by (cases ts)
  have rng: "in_range handle h" using assms(1) by (simp add: tx_inv_def ts Let_def)
  show "tx_inv handle_of handle n (finish_pending now ended ts)"
  proof (cases "tx_pending t \<and> tx_handle t = handle")
    case True
    then have "unat (tx_setups (radio_at handle h)) = unat (tx_completed (radio_at handle h)) + unat (tx_uncompleted (radio_at handle h)) + 1"
      "unat (tx_setups (radio_at handle h)) \<le> 65535"
      using assms by (auto simp: tx_inv_def ts Let_def)
    then have "unat (tx_completed (radio_at handle h)) < 65535" "unat (tx_uncompleted (radio_at handle h)) < 65535"
      by simp_all
    with True assms rng show ?thesis
      by (auto simp: finish_pending_def tx_inv_def ts Let_def tx_result_radio add_count_one)
  next
    case False
    with assms rng show ?thesis
      by (auto simp: finish_pending_def tx_inv_def ts Let_def tx_result_radio)
  qed
qed (auto simp: finish_pending_def Let_def split: prod.splits)

lemma tx_inv_encrypted [simp]:
  "tx_inv handle_of handle n (t\<lparr>encrypted_packet := p, encrypted_term := b\<rparr>, h) = tx_inv handle_of handle n (t, h)"
  "tx_inv handle_of handle n (t\<lparr>encrypted_packet := p\<rparr>, h) = tx_inv handle_of handle n (t, h)"
  by (simp_all add: tx_inv_def)

lemma isr_inv:
  assumes "tx_inv handle_of handle n ts" and "n \<le> 65535" and "lll_handle lll = handle_of param"
  shows "tx_inv handle_of handle n (radio_isr_observed k now ended (cb, param, lll) ts)"
proof -
  note fin = finish_pending_inv [OF _ assms(2), of handle_of handle]
  have upd: "tx_inv handle_of handle n (t\<lparr>tx_param := param, tx_handle := lll_handle lll, tx_active := a, tx_encrypted := e\<rparr>, h)"
    if "tx_inv handle_of handle n (t, h)" "tx_pending t \<Longrightarrow> tx_param t = param" for t h a e
    using that assms(3) by (auto simp: tx_inv_def Let_def)
  have drop: "tx_inv handle_of handle n (t\<lparr>tx_active := False, encrypted_packet := 0, tx_param := 0\<rparr>, h)"
    if "tx_inv handle_of handle n (t, h)" "\<not> tx_pending t" for t h
    using that by (auto simp: tx_inv_def Let_def)
  show ?thesis
  proof (cases "cb = Other_isr")
    case True
    with assms(1) fin(1,2) [OF assms(1)] drop show ?thesis
      by (auto simp: radio_isr_observed_def Let_def case_prod_beta)
  next
    case False
    define ts1 where "ts1 = (if cb = lll_conn_isr_rx then finish_pending now ended ts else ts)"
    have inv1: "tx_inv handle_of handle n ts1" using fin(1) assms(1) by (simp add: ts1_def)
    obtain t h where ts2: "(if param \<noteq> tx_param (fst ts1)
        then (case finish_pending now ended ts1 of (t, h) \<Rightarrow> (t\<lparr>encrypted_packet := 0\<rparr>, h)) else ts1) = (t, h)"
      by (metis prod.exhaust)
    have "tx_inv handle_of handle n (t, h)" "tx_pending t \<Longrightarrow> tx_param t = param"
      using ts2 [symmetric] inv1 fin(1,2) [OF inv1] by (auto simp: case_prod_beta Let_def split: if_splits)
    note new = upd [OF this]
    have "cb = lll_conn_isr_rx \<or> cb = lll_conn_isr_tx" using False by (cases cb) auto
    then have "radio_isr_observed k now ended (cb, param, lll) ts
        = (t\<lparr>tx_param := param, tx_handle := lll_handle lll,
              tx_active := (lll_role lll = BT_CONN_ROLE_PERIPHERAL \<and> totem_handoff_tx_armed (lll_handle lll) h),
              tx_encrypted := (CONFIG_BT_CTLR_LE_ENC k \<and> lll_enc_tx lll)\<rparr>, h)"
      by (simp only: radio_isr_observed_def Let_def prod.case ts1_def [symmetric] ts2 if_True)
    with new show ?thesis by simp
  qed
qed

lemma pkt_tx_inv:
  assumes "tx_inv handle_of handle n ts" and "n < 65535"
  shows "tx_inv handle_of handle (Suc n) (radio_op_step k (R_pkt_tx now ended packet p) ts)"
proof -
  obtain t h where ts: "ts = (t, h)" by (cases ts)
  let ?f = "finish_pending now ended (t\<lparr>encrypted_packet := 0\<rparr>, h)"
  have inv0: "tx_inv handle_of handle n (t\<lparr>encrypted_packet := 0\<rparr>, h)" using assms(1) by (simp add: ts)
  note fin = finish_pending_inv [OF inv0, of now ended]
  obtain t2 h2 where f: "?f = (t2, h2)" by (cases ?f)
  have inv: "tx_inv handle_of handle n (t2, h2)" and np: "\<not> tx_pending t2" and act: "tx_active t2 = tx_active t"
    using fin assms(2) by (simp_all add: f)
  have rng: "in_range handle h2" using inv by (simp add: tx_inv_def Let_def)
  have lim: "unat (tx_setups (radio_at handle h2)) < 65535" using inv assms(2) by (simp add: tx_inv_def Let_def)
  have begun: "tx_inv handle_of handle (Suc n) (t2\<lparr>tx_pending := True\<rparr>, totem_handoff_tx_setup now (tx_handle t2) h2)" if "tx_active t2"
    using inv np that rng lim by (auto simp: tx_inv_def Let_def tx_setup_radio add_count_one)
  have keep: "tx_inv handle_of handle (Suc n) (t2, h2)" using inv by (auto simp: tx_inv_def Let_def)
  show ?thesis using begun keep act by (auto simp: ts f pkt_tx_before_def pkt_tx_after_def Let_def)
qed

lemma radio_op_inv:
  assumes "tx_inv handle_of handle n ts" and "n < 65535" and "handle_stable handle_of x"
  shows "tx_inv handle_of handle (Suc n) (radio_op_step k x ts)"
proof -
  have mono: "tx_inv handle_of handle n ts' \<Longrightarrow> tx_inv handle_of handle (Suc n) ts'" for ts'
    by (auto simp: tx_inv_def Let_def)
  obtain t h where ts: "ts = (t, h)" by (cases ts)
  show ?thesis
  proof (cases x)
    case (R_isr now ended cb param lll)
    with isr_inv [OF assms(1)] assms(2,3) mono show ?thesis by simp
  next
    case (R_ccm p encrypted)
    with assms(1) mono show ?thesis by (simp add: ts ccm_tx_observed_def)
  next
    case (R_pkt_tx now ended packet p)
    with pkt_tx_inv [OF assms(1,2)] show ?thesis by blast
  next
    case (R_status_reset now ended)
    with finish_pending_inv(1) [OF assms(1)] assms(2) mono show ?thesis by simp
  next
    case (R_done now d)
    moreover have "in_range handle h" using assms(1) by (simp add: tx_inv_def ts Let_def)
    ultimately show ?thesis
      using assms(1) by (auto simp: tx_inv_def ts Let_def conn_done_tx conn_done_radio(2))
  qed
qed

lemma radio_ops_inv:
  "tx_inv handle_of handle n ts \<Longrightarrow> list_all (handle_stable handle_of) ops \<Longrightarrow> n + length ops \<le> 65535
   \<Longrightarrow> tx_inv handle_of handle (n + length ops) (fold (radio_op_step k) ops ts)"
proof (induction ops arbitrary: n ts)
  case Nil
  then show ?case by simp
next
  case (Cons x ops)
  then have "tx_inv handle_of handle (Suc n) (radio_op_step k x ts)" by (intro radio_op_inv) simp_all
  from Cons.IH [OF this] Cons.prems show ?case by simp
qed

section \<open>Properties\<close>

text \<open>
  C34. The transmission counts of a handoff balance: from the disconnect request on, whatever the
  radio does (interrupts of this and other connections, encryption, packet setups, resets, radio
  events), the setups counted for the connection are its completed and its uncompleted
  transmissions plus the one in flight, if there is one; after the next status reset every setup
  has been resolved exactly once. (For up to 65535 callbacks, so that no count saturates, with no transmission in
  flight at the request and connections that keep their handles.)
\<close>

theorem tx_counts_balance:
  assumes "handoff_request e get_handle now arg h0 = (Some handle, h)"
    and "\<not> tx_pending t" and "tx_active t \<longrightarrow> tx_handle t = handle_of (tx_param t)"
    and "list_all (handle_stable handle_of) ops" and "length ops \<le> 65535"
    and "fold (radio_op_step k) ops (t, h) = (t', h')" and "r = radio_at handle h'"
    and "r'' = radio_at handle (snd (radio_op_step k (R_status_reset now2 ended) (t', h')))"
  shows "unat (tx_setups r) = unat (tx_completed r) + unat (tx_uncompleted r) + of_bool (tx_pending t' \<and> tx_handle t' = handle)
    \<and> tx_setups r'' = tx_setups r
    \<and> unat (tx_setups r'') = unat (tx_completed r'') + unat (tx_uncompleted r'')"
proof -
  from handoff_request_radio [OF assms(1)] have "tx_inv handle_of handle 0 (t, h)"
    using assms(2,3) by (simp add: tx_inv_def Let_def zero_radio_def)
  from radio_ops_inv [OF this assms(4), of k] assms(5,6)
  have inv: "tx_inv handle_of handle (length ops) (t', h')" by simp
  note fin = finish_pending_inv [OF inv assms(5), of now2 ended]
  have "in_range handle h'" using inv by (simp add: tx_inv_def Let_def)
  then have "tx_setups r'' = tx_setups r"
    by (auto simp: assms(7,8) finish_pending_def Let_def tx_result_radio)
  with inv fin(1,2) show ?thesis by (auto simp: tx_inv_def Let_def assms(7,8) case_prod_beta)
qed

definition term_pdu :: pdu_data where
  "term_pdu = \<lparr>ll_id = 3, pdu_len = 2, llctrl_opcode = 2\<rparr>"

definition demo_radio_ops :: "radio_op list" where
  "demo_radio_ops = (let lll = \<lparr>lll_handle = 1, lll_role = BT_CONN_ROLE_PERIPHERAL, lll_enc_tx = False\<rparr> in
     [R_isr 6 False lll_conn_isr_rx 100 lll, R_pkt_tx 7 False 20 term_pdu, R_isr 8 False lll_conn_isr_tx 100 lll,
      R_status_reset 9 True, R_pkt_tx 10 False 20 term_pdu])"

theorem tx_counts_balance_witness:
  "let (t', h') = fold (radio_op_step \<lparr>CONFIG_BT_CTLR_LE_ENC = True, CONFIG_BT_CTLR_CONN_META = True\<rparr>) demo_radio_ops
         (tx_radio_boot, demo_request);
       r = radio_at 1 h'
   in unat (tx_setups r) = 2 \<and> unat (tx_completed r) + unat (tx_uncompleted r) = 1 \<and> tx_pending t' \<and> tx_handle t' = 1"
proof -
  let ?k = "\<lparr>CONFIG_BT_CTLR_LE_ENC = True, CONFIG_BT_CTLR_CONN_META = True\<rparr>"
  let ?res = "fold (radio_op_step ?k) demo_radio_ops (tx_radio_boot, demo_request)"
  have st: "list_all (handle_stable (\<lambda>_. 1)) demo_radio_ops" "length demo_radio_ops \<le> 65535"
    by (simp_all add: demo_radio_ops_def Let_def)
  have t0: "\<not> tx_pending tx_radio_boot" "tx_active tx_radio_boot \<longrightarrow> tx_handle tx_radio_boot = 1"
    by (simp_all add: tx_radio_boot_def)
  have r: "unat (tx_setups (radio_at 1 (snd ?res))) = 2" "tx_pending (fst ?res)" "tx_handle (fst ?res) = 1" by code_simp+
  show ?thesis
    using tx_counts_balance [OF demo_request_eq t0 st prod.collapse [symmetric] refl refl, of ?k 0 True] r
    by (simp add: case_prod_beta Let_def)
qed

text \<open>
  The radio observers never change the radio: over any sequence of calls, the four wrapped
  radio functions return the same results and take the hardware through the same states as the
  real functions alone.
\<close>

lemma radio_wrappers_passive:
  fixes isr_set :: "radio_isr \<times> nat \<times> lll_conn \<Rightarrow> 'w \<Rightarrow> unit \<times> 'w"
    and ccm :: "nat \<times> pdu_data \<Rightarrow> 'w \<Rightarrow> nat \<times> 'w"
    and pkt_tx :: "nat \<times> pdu_data \<Rightarrow> 'w \<Rightarrow> unit \<times> 'w"
    and status_reset :: "unit \<Rightarrow> 'w \<Rightarrow> unit \<times> 'w"
  shows "transparent isr_set (wrap_radio_isr_set isr_set end_event k now)
    \<and> transparent ccm (wrap_radio_ccm_tx_pkt_set ccm)
    \<and> transparent pkt_tx (wrap_radio_pkt_tx_set pkt_tx end_event now now')
    \<and> transparent status_reset (wrap_radio_status_reset status_reset end_event now)"
  by (intro conjI isr_set_call.wrap_transparent ccm_call.wrap_transparent pkt_tx_call.wrap_transparent status_reset_call.wrap_transparent)

end
