(* ===== verification/Security_Timing.thy ===== *)
theory Security_Timing
  imports Security_Controller "HOL-Library.Monad_Syntax"
begin

text \<open>
  The host side of the security observers, \<open>src/security_timing.c\<close>: wrappers that note encryption
  events entering and leaving the host's receive queue, the pairing request on its way out, and
  the host's handling of a security change. Event buffers are byte lists and every read of one is
  checked: a read outside the buffer is \<open>None\<close>.
\<close>

section \<open>Reading an event buffer\<close>

text \<open>
  Event codes of the Bluetooth core specification and the sizes of the packed structures: header
  2, LE meta header 1, LTK request 12, encryption change 4 (status, handle, enabled), key refresh
  3 (status, handle).
\<close>

definition BT_HCI_EVT_ENCRYPT_CHANGE :: u8 where [simp]: "BT_HCI_EVT_ENCRYPT_CHANGE = 0x08"
definition BT_HCI_EVT_ENCRYPT_KEY_REFRESH_COMPLETE :: u8 where [simp]: "BT_HCI_EVT_ENCRYPT_KEY_REFRESH_COMPLETE = 0x30"
definition BT_HCI_EVT_LE_META_EVENT :: u8 where [simp]: "BT_HCI_EVT_LE_META_EVENT = 0x3E"
definition BT_HCI_EVT_LE_LTK_REQUEST :: u8 where [simp]: "BT_HCI_EVT_LE_LTK_REQUEST = 0x05"
definition BT_L2CAP_CID_SMP :: u16 where [simp]: "BT_L2CAP_CID_SMP = 6"
definition BT_SMP_CMD_SECURITY_REQUEST :: u8 where [simp]: "BT_SMP_CMD_SECURITY_REQUEST = 0x0B"

definition read_at :: "u8 list \<Rightarrow> nat \<Rightarrow> u8 option" where
  "read_at data i = (if i < length data then Some (data ! i) else None)"

definition sys_get_le16 :: "u8 list \<Rightarrow> nat \<Rightarrow> u16 option" where
  "sys_get_le16 data i = do { lo \<leftarrow> read_at data i; hi \<leftarrow> read_at data (i + 1); Some (le16 lo hi) }"

record net_buf =
  buf_is_evt :: bool
  buf_data :: "u8 list"

definition capture_handle :: "u32 \<Rightarrow> totem_host_evt \<Rightarrow> u16 \<Rightarrow> u8 \<Rightarrow> u8 \<Rightarrow> u8 \<Rightarrow> timing \<Rightarrow> timing" where
  "capture_handle now ev handle stage w x = timing_capture now ev (handle_low handle) (handle_high handle) stage w x"

text \<open>
  \<open>rx_queue\<close> tells whether the list is the host's receive queue; the result is the observer's new
  state, or \<open>None\<close> if the code read outside the buffer.
\<close>

definition encryption_observed :: "bool \<Rightarrow> net_buf option \<Rightarrow> u8 \<Rightarrow> u32 \<Rightarrow> timing \<Rightarrow> timing option" where
  "encryption_observed rx_queue buf stage now t =
     (case buf of
        None \<Rightarrow> Some t
      | Some b \<Rightarrow>
          let d = buf_data b in
          if \<not> rx_queue \<or> \<not> buf_is_evt b \<or> length d < 2 then Some t
          else do {
            evt \<leftarrow> read_at d 0;
            hlen \<leftarrow> read_at d 1;
            if length d < 2 + unat hlen then Some t
            else do {
              ltk \<leftarrow> (if evt = BT_HCI_EVT_LE_META_EVENT \<and> unat hlen \<ge> 1 + 12
                     then do { sub \<leftarrow> read_at d 2; Some (sub = BT_HCI_EVT_LE_LTK_REQUEST) }
                     else Some False);
              if ltk then do {
                handle \<leftarrow> sys_get_le16 d 3;
                Some (capture_handle now TOTEM_HEVT_SECURITY_EXCHANGE handle (6 + stage) 0 0 t)
              }
              else
                let refresh = (evt = BT_HCI_EVT_ENCRYPT_KEY_REFRESH_COMPLETE) in
                if evt \<noteq> BT_HCI_EVT_ENCRYPT_CHANGE \<and> \<not> refresh then Some t
                else if unat hlen < (if refresh then 3 else 4) \<or> length d < 2 + unat hlen then Some t
                else do {
                  handle \<leftarrow> sys_get_le16 d 3;
                  status \<leftarrow> read_at d 2;
                  enabled \<leftarrow> (if refresh then Some 255 else read_at d 5);
                  Some (capture_handle now TOTEM_HEVT_ENCRYPT_EVENT handle (stage + (if refresh then 2 else 0)) status enabled t)
                }
            }
          })"

section \<open>Wrappers\<close>

record sec_conn =
  sc_le :: bool
  sc_role :: bt_role
  sc_handle :: u16

record l2cap_send =
  chan_conn :: "sec_conn option"
  chan_cid :: u16
  send_data :: "u8 list"

definition security_request :: "l2cap_send \<Rightarrow> bool" where
  "security_request a =
     (case chan_conn a of
        None \<Rightarrow> False
      | Some conn \<Rightarrow> chan_cid a = BT_L2CAP_CID_SMP \<and> length (send_data a) = 2
          \<and> send_data a ! 0 = BT_SMP_CMD_SECURITY_REQUEST \<and> sc_le conn \<and> sc_role conn = BT_CONN_ROLE_PERIPHERAL)"

definition wrap_bt_l2cap_send_pdu ::
  "(l2cap_send \<Rightarrow> 'w \<Rightarrow> int \<times> 'w) \<Rightarrow> u32 \<Rightarrow> u32 \<Rightarrow> l2cap_send \<Rightarrow> timing \<times> 'w \<Rightarrow> int \<times> timing \<times> 'w" where
  "wrap_bt_l2cap_send_pdu real now now' arg sw =
     (let (t, w) = sw;
          trace = security_request arg;
          handle = (if trace then sc_handle (the (chan_conn arg)) else 0);
          t1 = (if trace then capture_handle now TOTEM_HEVT_SECURITY_EXCHANGE handle 0 0 0 t else t);
          (err, w') = real arg w;
          t2 = (if trace then capture_handle now' TOTEM_HEVT_SECURITY_EXCHANGE handle 1 (err_class err) (err_abs_u8 err) t1 else t1)
      in (err, t2, w'))"

text \<open>
  The queue wrappers stop at a faulting read. \<open>rx_queue\<close> says of a list whether it is the receive
  queue.
\<close>

definition wrap_net_buf_slist_put ::
  "('l \<times> net_buf \<Rightarrow> 'w \<Rightarrow> unit \<times> 'w) \<Rightarrow> ('l \<Rightarrow> bool) \<Rightarrow> u32 \<Rightarrow> 'l \<times> net_buf \<Rightarrow> timing \<times> 'w \<Rightarrow> (unit \<times> timing \<times> 'w) option" where
  "wrap_net_buf_slist_put real rx_queue now arg sw =
     (let (t, w) = sw in do {
        t1 \<leftarrow> encryption_observed (rx_queue (fst arg)) (Some (snd arg)) 0 now t;
        let (r, w') = real arg w in Some (r, t1, w')
      })"

definition wrap_net_buf_slist_get ::
  "('l \<Rightarrow> 'w \<Rightarrow> net_buf option \<times> 'w) \<Rightarrow> ('l \<Rightarrow> bool) \<Rightarrow> u32 \<Rightarrow> 'l \<Rightarrow> timing \<times> 'w \<Rightarrow> (net_buf option \<times> timing \<times> 'w) option" where
  "wrap_net_buf_slist_get real rx_queue now l sw =
     (let (t, w) = sw; (buf, w') = real l w in do {
        t1 \<leftarrow> encryption_observed (rx_queue l) buf 1 now t;
        Some (buf, t1, w')
      })"

definition security_observed :: "u32 \<Rightarrow> sec_conn \<Rightarrow> u8 \<Rightarrow> u8 \<Rightarrow> u8 \<Rightarrow> timing \<Rightarrow> timing" where
  "security_observed now conn stage hci_status sec_level t =
     (if sc_le conn \<and> sc_role conn = BT_CONN_ROLE_PERIPHERAL
      then capture_handle now TOTEM_HEVT_SECURITY_TIMING (sc_handle conn) stage hci_status sec_level t else t)"

text \<open>\<open>level\<close> reads the connection's security level in the stack's state.\<close>

definition wrap_bt_conn_security_changed ::
  "(sec_conn \<times> u8 \<times> u8 \<Rightarrow> 'w \<Rightarrow> unit \<times> 'w) \<Rightarrow> (sec_conn \<Rightarrow> 'w \<Rightarrow> u8) \<Rightarrow> u32 \<Rightarrow> u32
   \<Rightarrow> sec_conn \<times> u8 \<times> u8 \<Rightarrow> timing \<times> 'w \<Rightarrow> unit \<times> timing \<times> 'w" where
  "wrap_bt_conn_security_changed real level now now' arg sw =
     (let (t, w) = sw; (conn, hci_err, err) = arg;
          t1 = security_observed now conn 0 hci_err (level conn w) t;
          (r, w') = real arg w;
          t2 = security_observed now' conn 2 hci_err (level conn w') t1
      in (r, t2, w'))"

definition wrap_bt_l2cap_security_changed ::
  "(sec_conn \<times> u8 \<Rightarrow> 'w \<Rightarrow> unit \<times> 'w) \<Rightarrow> (sec_conn \<Rightarrow> 'w \<Rightarrow> u8) \<Rightarrow> u32
   \<Rightarrow> sec_conn \<times> u8 \<Rightarrow> timing \<times> 'w \<Rightarrow> unit \<times> timing \<times> 'w" where
  "wrap_bt_l2cap_security_changed real level now arg sw =
     (let (t, w) = sw; (conn, hci_status) = arg;
          (r, w') = real arg w;
          t1 = security_observed now conn 1 hci_status (level conn w') t
      in (r, t1, w'))"

section \<open>No read leaves the buffer\<close>

lemma read_at_some [simp]: "i < length d \<Longrightarrow> read_at d i = Some (d ! i)"
  by (simp add: read_at_def)

lemma encryption_observed_total: "\<exists>t'. encryption_observed rx_queue buf stage now t = Some t'"
proof (cases buf)
  case None
  then show ?thesis by (simp add: encryption_observed_def)
next
  case (Some b)
  let ?d = "buf_data b"
  show ?thesis
  proof (cases "rx_queue \<and> buf_is_evt b \<and> 2 \<le> length ?d \<and> 2 + unat (?d ! 1) \<le> length ?d")
    case True
    then have rd: "read_at ?d i = Some (?d ! i)" if "i < 2 + unat (?d ! 1)" for i using that by simp
    from True show ?thesis
      by (auto simp: Some encryption_observed_def Let_def sys_get_le16_def rd)
  next
    case False
    have "read_at ?d 0 = Some (?d ! 0)" "read_at ?d 1 = Some (?d ! 1)" if "\<not> length ?d < 2"
      using that by (auto simp: read_at_def)
    with False show ?thesis by (auto simp: Some encryption_observed_def Let_def)
  qed
qed

interpretation l2cap_send_call: passive_observer real "wrap_bt_l2cap_send_pdu real now now'"
  for real :: "l2cap_send \<Rightarrow> 'w \<Rightarrow> int \<times> 'w" and now now'
  by unfold_locales (simp add: wrap_bt_l2cap_send_pdu_def Let_def case_prod_beta)

interpretation slist_put_call: passive_observer real "\<lambda>a s. the (wrap_net_buf_slist_put real rx_queue now a s)"
  for real :: "'l \<times> net_buf \<Rightarrow> 'w \<Rightarrow> unit \<times> 'w" and rx_queue now
proof unfold_locales
  show "(fst (the (wrap_net_buf_slist_put real rx_queue now a (d, w))), snd (snd (the (wrap_net_buf_slist_put real rx_queue now a (d, w))))) = real a w"
    for a d w
    using encryption_observed_total [of "rx_queue (fst a)" "Some (snd a)" 0 now d]
    by (auto simp: wrap_net_buf_slist_put_def Let_def case_prod_beta prod_eq_iff)
qed

interpretation slist_get_call: passive_observer real "\<lambda>a s. the (wrap_net_buf_slist_get real rx_queue now a s)"
  for real :: "'l \<Rightarrow> 'w \<Rightarrow> net_buf option \<times> 'w" and rx_queue now
proof unfold_locales
  show "(fst (the (wrap_net_buf_slist_get real rx_queue now a (d, w))), snd (snd (the (wrap_net_buf_slist_get real rx_queue now a (d, w))))) = real a w"
    for a d w
    using encryption_observed_total [of "rx_queue a" "fst (real a w)" 1 now d]
    by (auto simp: wrap_net_buf_slist_get_def Let_def case_prod_beta)
qed

interpretation security_changed_call: passive_observer real "wrap_bt_conn_security_changed real level now now'"
  for real :: "sec_conn \<times> u8 \<times> u8 \<Rightarrow> 'w \<Rightarrow> unit \<times> 'w" and level now now'
  by unfold_locales (simp add: wrap_bt_conn_security_changed_def Let_def case_prod_beta prod_eq_iff)

interpretation l2cap_security_call: passive_observer real "wrap_bt_l2cap_security_changed real level now"
  for real :: "sec_conn \<times> u8 \<Rightarrow> 'w \<Rightarrow> unit \<times> 'w" and level now
  by unfold_locales (simp add: wrap_bt_l2cap_security_changed_def Let_def case_prod_beta prod_eq_iff)

section \<open>Properties\<close>

text \<open>The three events as the controller encodes them.\<close>

definition encrypt_change_bytes :: "u8 \<Rightarrow> u16 \<Rightarrow> u8 \<Rightarrow> u8 list" where
  "encrypt_change_bytes status handle enabled =
     [BT_HCI_EVT_ENCRYPT_CHANGE, 4, status] @ bytes16 handle @ [enabled]"

definition key_refresh_bytes :: "u8 \<Rightarrow> u16 \<Rightarrow> u8 list" where
  "key_refresh_bytes status handle = [BT_HCI_EVT_ENCRYPT_KEY_REFRESH_COMPLETE, 3, status] @ bytes16 handle"

definition ltk_request_bytes :: "u16 \<Rightarrow> u8 list \<Rightarrow> u8 list" where
  "ltk_request_bytes handle rand_ediv = [BT_HCI_EVT_LE_META_EVENT, 13, BT_HCI_EVT_LE_LTK_REQUEST] @ bytes16 handle @ rand_ediv"

text \<open>
  C37. The observer of the receive queue is memory-safe and exact: whatever bytes a buffer holds it
  never reads outside it; a complete encryption change, key refresh or key request (possibly
  followed by other bytes) is recorded with its handle and status and nothing else of its contents;
  an event cut short at any point, another queue or another kind of buffer records nothing.
\<close>

theorem encryption_events_parsed:
  "(\<exists>t'. encryption_observed rx_queue buf stage now t = Some t')
   \<and> encryption_observed True (Some \<lparr>buf_is_evt = True, buf_data = encrypt_change_bytes status handle enabled @ tl1\<rparr>) stage now t
       = Some (capture_handle now TOTEM_HEVT_ENCRYPT_EVENT handle stage status enabled t)
   \<and> encryption_observed True (Some \<lparr>buf_is_evt = True, buf_data = key_refresh_bytes status handle @ tl1\<rparr>) stage now t
       = Some (capture_handle now TOTEM_HEVT_ENCRYPT_EVENT handle (stage + 2) status 255 t)
   \<and> encryption_observed True (Some \<lparr>buf_is_evt = True, buf_data = ltk_request_bytes handle (map f [0..<10]) @ tl1\<rparr>) stage now t
       = Some (capture_handle now TOTEM_HEVT_SECURITY_EXCHANGE handle (6 + stage) 0 0 t)
   \<and> list_all (\<lambda>k. encryption_observed True (Some \<lparr>buf_is_evt = True, buf_data = take k (encrypt_change_bytes status handle enabled)\<rparr>)
         stage now t = Some t) [0..<6]
   \<and> list_all (\<lambda>k. encryption_observed True (Some \<lparr>buf_is_evt = True, buf_data = take k (key_refresh_bytes status handle)\<rparr>)
         stage now t = Some t) [0..<5]
   \<and> list_all (\<lambda>k. encryption_observed True (Some \<lparr>buf_is_evt = True, buf_data = take k (ltk_request_bytes handle (map f [0..<10]))\<rparr>)
         stage now t = Some t) [0..<15]
   \<and> encryption_observed False buf stage now t = Some t
   \<and> encryption_observed True (Some \<lparr>buf_is_evt = False, buf_data = d\<rparr>) stage now t = Some t"
proof -
  note defs = encryption_observed_def encrypt_change_bytes_def key_refresh_bytes_def ltk_request_bytes_def bytes16_def
    sys_get_le16_def read_at_def Let_def
  have upt: "[0..<6] = [0, 1, 2, 3, 4, 5]" "[0..<5] = [0, 1, 2, 3, 4]"
    "[0..<10] = [0, 1, 2, 3, 4, 5, 6, 7, 8, 9]" "[0..<15] = [0, 1, 2, 3, 4, 5, 6, 7, 8, 9, 10, 11, 12, 13, 14]" by (simp_all add: upt_rec)
  show ?thesis
    by (intro conjI encryption_observed_total; simp add: defs upt split: option.split)
qed

text \<open>
  The security observers keep buffers, results and security policy as they are: over any
  sequence of calls each of the eight wrapped functions of host and controller returns the same
  results and takes the stack through the same states as the real function alone.
\<close>

lemma security_wrappers_passive:
  fixes send :: "l2cap_send \<Rightarrow> 'w \<Rightarrow> int \<times> 'w"
    and put :: "'l \<times> net_buf \<Rightarrow> 'w \<Rightarrow> unit \<times> 'w"
    and get :: "'l \<Rightarrow> 'w \<Rightarrow> net_buf option \<times> 'w"
    and sec_changed :: "sec_conn \<times> u8 \<times> u8 \<Rightarrow> 'w \<Rightarrow> unit \<times> 'w"
    and l2cap_changed :: "sec_conn \<times> u8 \<Rightarrow> 'w \<Rightarrow> unit \<times> 'w"
    and cp_rx :: "lll_conn \<times> pdu_data \<Rightarrow> 'w \<Rightarrow> unit \<times> 'w"
    and reply :: "lll_conn \<times> u8 list \<Rightarrow> 'w \<Rightarrow> u8 \<times> 'w"
    and neq_reply :: "lll_conn \<Rightarrow> 'w \<Rightarrow> u8 \<times> 'w"
  shows "transparent send (wrap_bt_l2cap_send_pdu send now now')
    \<and> transparent put (\<lambda>a s. the (wrap_net_buf_slist_put put rx_queue now a s))
    \<and> transparent get (\<lambda>a s. the (wrap_net_buf_slist_get get rx_queue now a s))
    \<and> transparent sec_changed (wrap_bt_conn_security_changed sec_changed level now now')
    \<and> transparent l2cap_changed (wrap_bt_l2cap_security_changed l2cap_changed level now)
    \<and> transparent cp_rx (wrap_ull_cp_rx cp_rx now)
    \<and> transparent reply (wrap_ull_cp_ltk_req_reply reply now now')
    \<and> transparent neq_reply (wrap_ull_cp_ltk_req_neq_reply neq_reply now now')"
  by (intro conjI l2cap_send_call.wrap_transparent slist_put_call.wrap_transparent slist_get_call.wrap_transparent security_changed_call.wrap_transparent l2cap_security_call.wrap_transparent cp_rx.wrap_transparent ltk_reply.wrap_transparent ltk_neq_reply.wrap_transparent)

end
