(* ===== verification/Spec2Isabelle.thy ===== *)
theory Spec2Isabelle
  imports Journal_History Journal_Restore Journal_Rate Journal_Drain Dump_Session Dump_Contents Watchdog_Feed Boot_Sequence Event_Dispatch
    Timing_Queue Handoff_Radio_Tx Security_Timing Battery_Log Studio_Extras
begin

text \<open>
  Verification of the firmware module of the Totem keyboard, a split keyboard on ZMK and Zephyr
  whose left half holds the links to up to five computers, the USB port and the link to the right
  half. The repository's own C code (\<open>src/\<close>, \<open>include/\<close>) has two jobs: deciding which computer stays
  connected, and recording what happened so that a failure can be explained after a reset. All of
  it runs in callbacks, work items and link-time wrappers of ZMK and Zephyr.

  \<^bold>\<open>Conventions.\<close> Every C function is a definition of the same name on an explicit state, a record
  with the module's static variables; a wrapper \<open>__wrap_f\<close> is \<open>wrap_f\<close>. Effects that leave the
  module (journal calls, disconnects, work items) are appended to an output list of the state or
  passed to the journal's own operations. What ZMK and Zephyr return is an environment record
  (\<open>ble_env\<close> and others) or a function argument; \<open>CONFIG_*\<close> options are the record \<open>totem_config\<close>,
  whose \<open>Kconfig\<close> ranges are \<open>kconfig_ok\<close>. Machine integers are words, \<open>int64_t\<close> uptimes are
  integers. A section under a lock is one atomic step; where the flash writer and the drain of the
  timing inbox give up their lock in the middle the model has separate steps, and the theorems hold
  for every interleaving. Two other functions that take their lock more than once are one step:
  \<open>record_event\<close> with its two sections (append, then the persist request) and \<open>flush_counts\<close>, which
  releases the lock between slots. A handler reads the clock once. Each module's work items are
  part of its state; the order in which items of different modules share Zephyr's queues is not kept.

  \<^bold>\<open>Shared theories.\<close> \<open>Prelude\<close>: casts, byte strings, rings, and the interfaces as locales
  (\<open>bounded_log\<close>, \<open>bounded_fifo\<close>, \<open>sealed_store\<close>, \<open>rate_limited\<close>, \<open>one_shot\<close>, \<open>saturating_counter\<close>,
  \<open>passive_observer\<close>), each interpreted on the model of a component, as is \<open>independent_steps\<close> of
  \<open>Independent_Steps\<close>. \<open>Platform\<close>: event numbers of \<open>totem_host_event_log.h\<close>, configuration, Bluetooth
  data, \<open>totem_usb_quiet.h\<close>. \<open>Format\<close>: the part of \<open>snprintk\<close> that is used; \<open>Line_Scan\<close>: reading it
  back.

  \<^bold>\<open>The journal\<close> (\<open>host_event_log.c\<close>). \<open>Host_Event_Log\<close> has the RAM ring, the coalesced block
  writer and the settings loader; \<open>Journal_History\<close> shows over every run, with records and failures
  between the copy of a block and the end of its write, that saved events keep their sequence
  numbers, that nothing is saved twice and that without overrun the saved numbers are gapless;
  \<open>Journal_Restore\<close> has the layout of a stored block, stated without the loader,
  and shows that exactly the blocks of that layout are restored and numbering resumes;
  \<open>Journal_Rate\<close> that writes keep their distance and that a refused one leaves the work item scheduled
  and is retried with the same events; \<open>Journal_Drain\<close> that a backlog is handed to the storage
  completely, each event once. The storage is a function on a state of its own that each save
  returns updated, so that what a theorem says of saved bytes is said of the calls made;
  \<open>Journal_Dump\<close> (with the sender of \<open>totem_studio_extras.c\<close>) that an end marker means a complete,
  ordered dump, that the dump completes on a link that accepts each line within its forty
  attempts, and that every line fits its buffer; \<open>Dump_Request\<close> has the key behavior and the work
  item that ask for a dump, and shows that presses coalesce into one complete dump and that a dump
  after a fault contains it. The other end is \<open>tools/read_diag_dump.py\<close>: \<open>Studio_Frames\<close> has its
  framing and \<open>Dump_Receiver\<close> its patterns, verifier and loop, with the theorem that it succeeds
  exactly on the complete dumps the firmware sent, in whatever chunks and among whatever other
  frames they arrive; \<open>Dump_Contents\<close> shows that the text of a dump determines the stored blocks
  and the ring; \<open>Dump_Session\<close> goes from a fault over the reset, the reader's request and the dump
  to what the reader prints. \<open>Journal_Calls\<close> is the journal as its clients see it: a sequence of
  timed record calls.

  \<^bold>\<open>Boot and faults.\<close> \<open>Fault\<close> (\<open>totem_fault.c\<close>): a hang is reported once, garbage never.
  \<open>Boot_Diagnostics\<close> (\<open>boot_diagnostics.c\<close>): the boot counter from the save over the storage to the
  next boot, and the summary of the previous boot. \<open>Watchdog\<close> and \<open>Watchdog_Feed\<close> (\<open>totem_watchdog.c\<close>): the reset cause, arming, and
  that the channel that expires names the context that stopped. \<open>Boot_Sequence\<close> composes them in
  the order of the init levels, with the settings callbacks of both modules in any order: a hang or
  crash is still known, numbered and on its way to flash after the reset it ended in. Checksums are
  parameters: the theorems need no property of CRC-32 except that it is a function.

  \<^bold>\<open>Host links.\<close> \<open>Exclusive_Host\<close> (\<open>exclusive_host.c\<close>): who may be evicted, the storm cap in every
  window of every run, profile switches included, the ignore time, the class A alarm; \<open>Exclusive_Host_Runs\<close>: array bounds over every run, the
  early-exit eviction count against the count over the whole history, and exactly whom a scan
  disconnects; \<open>Exclusive_Host_Work\<close>: the module with its four work items, in which no connection
  event is left without a pending scan and a profile switch is not held back by the past.
  \<open>Reconnect_Watch\<close> (\<open>reconnect_watch.c\<close>): the recovery ladder as an inductive set of reachable
  states, armed exactly when its timer is pending, finished after three expiries, with balanced
  references on connection objects. \<open>Host_Links\<close> (\<open>usb_host_quiet.c\<close>, \<open>lazy_inactive_host.c\<close>) and
  \<open>Studio_Usb\<close> (\<open>totem_studio_usb.c\<close>, a retry that ends after 21 runs). \<open>Left_Half\<close> runs exclusive
  host, the watch and the USB quiet host as one system, in any interleaving of their handlers, with
  all their records going to one journal: each module's part is a run of that module alone, and the
  eviction records are the evictions. \<open>Event_Dispatch\<close> has the callback structures and event
  subscriptions and shows what every module does on a profile switch, a lost link, a new link and an
  endpoint change, in whatever order the linker placed them. This
  theory adds that no module ever drops the right half.

  \<^bold>\<open>Observers.\<close> \<open>Diagnostic_Timing\<close> and \<open>Timing_Queue\<close> (\<open>diagnostic_timing.c\<close>): the inbox that
  interrupts fill, refined to a bounded queue. \<open>Handoff_Diagnostics\<close>, \<open>Handoff_Radio_Tx\<close>,
  \<open>Security_Controller\<close>, \<open>Security_Timing\<close>, \<open>Hid_Report_Diagnostics\<close>, \<open>Hid_Connection_Log\<close> (files
  of the same names; \<open>security_controller_timing.c\<close> for the third): exact counters and summaries,
  balances, a bounds-checked parser, one-shot records. This theory adds that all 25 wrappers are
  transparent.

  \<^bold>\<open>Console.\<close> \<open>Battery_Log\<close> (\<open>totem_battery_log.c\<close>), \<open>Endpoint_Log\<close> (\<open>totem_endpoint_log.c\<close>,
  \<open>conn_params_log.c\<close>) and \<open>Studio_Extras\<close> (\<open>totem_studio_extras.c\<close>).

  \<^bold>\<open>Bounds.\<close> No definition uses fuel: loops are structural recursion, folds, or have a termination
  proof (\<open>timing_drain\<close> by the fill level). A run of a theorem about event sequences is a list of
  any length. Statements about 16-bit counts name their saturation or are modulo 65536, as the
  code counts; sequence numbers of the journal are 32 bits wide and a run is assumed not to wrap
  them.

  \<^bold>\<open>Not modelled.\<close> ZMK, Zephyr and the \<open>zmk-studio-log\<close> module are not in the repository and are
  parameters; the two patches under \<open>patches/\<close> change their code and cannot be read without it. Left out
  are the text of console lines in the host-link modules, \<open>SYS_INIT\<close> except for the order it gives
  the boot, thread stacks and priorities, the empty stand-ins that headers define for modules a
  build leaves out, the serial port and command line of the reader, and the keymap, board files and
  the other tools.
\<close>

section \<open>The split half\<close>

text \<open>
  C11. No module of this firmware ever disconnects the right half: in every run of the left half, with the
  handlers of exclusive host, the reconnect watch and the USB quiet host in any interleaving, whatever
  the stack reports and whatever profile is selected, a link in the central role is never among
  the disconnected ones.
\<close>

theorem split_link_kept:
  assumes "conn_info conn = Some info" and "info_role info = BT_CONN_ROLE_CENTRAL" and "s = lh_run c evs (lh_boot c e0)"
  shows "(t, conn, err) \<notin> set (disconnects (x_out (lh_excl s)))
    \<and> conn \<notin> set (watch_disconnects (w_out (lh_watch s)))
    \<and> Q_disconnect conn r err \<notin> set (q_out (lh_quiet s))"
proof -
  have no: "\<not> computer_link conn" using assms(1,2) by (simp add: computer_link_def)
  have x: "lh_excl s = excl_run c (excl_events evs) (excl_boot c)"
    by (simp add: assms(3) project_excl) (simp add: lh_boot_def)
  have q: "lh_quiet s = quiet_run (quiet_events evs)"
    by (simp add: assms(3) project_quiet quiet_run_def) (simp add: lh_boot_def)
  have w: "watch_reach c (lh_watch s)"
    unfolding assms(3) by (rule project_watch) (simp add: lh_boot_def watch_reach.init)
  show ?thesis unfolding x q
    using no run_disconnects_computers [of t conn err c "excl_events evs"] reach_disconnects_computers [OF w, of conn]
      quiet_run_computers [of conn r err "quiet_events evs"] by blast
qed

text \<open>The right half next to a computer on another profile; each module drops the computer only.\<close>

definition right_half :: bt_conn where
  "right_half = \<lparr>conn_index = 3, conn_dst = 42,
     conn_info = Some \<lparr>info_le = True, info_role = BT_CONN_ROLE_CENTRAL, info_state = BT_CONN_STATE_CONNECTED,
       info_interval = 6, info_latency = 30, info_timeout = 400\<rparr>, conn_security = 2\<rparr>"

theorem split_link_kept_witness:
  "let conns = [right_half, demo_conn 1]; docked = (demo_env 5)\<lparr>zmk_usb_is_powered := True\<rparr>;
       s = lh_run totem_left_config [(demo_env 5, H_excl (X_scan conns)), (docked, H_quiet conns)] (lh_boot totem_left_config lost_env)
   in disconnects (x_out (lh_excl s)) = [(5, demo_conn 1, 0)]
      \<and> q_out (lh_quiet s) = [Q_disconnect (demo_conn 1) 0x13 0, Q_log (log_args TOTEM_HEVT_ADV (- 1) (- 1) 0 0 1)]
      \<and> (5, right_half, 0) \<notin> set (disconnects (x_out (lh_excl s))) \<and> Q_disconnect right_half 0x13 0 \<notin> set (q_out (lh_quiet s))"
proof -
  let ?c = totem_left_config and ?conns = "[right_half, demo_conn 1]" and ?docked = "(demo_env 5)\<lparr>zmk_usb_is_powered := True\<rparr>"
  let ?evs = "[(demo_env 5, H_excl (X_scan ?conns)), (?docked, H_quiet ?conns)]"
  let ?s = "lh_run ?c ?evs (lh_boot ?c lost_env)"
  have x: "disconnects (x_out (lh_excl ?s)) = [(5, demo_conn 1, 0)]" unfolding project_excl by code_simp
  have q: "q_out (lh_quiet ?s) = [Q_disconnect (demo_conn 1) 0x13 0, Q_log (log_args TOTEM_HEVT_ADV (- 1) (- 1) 0 0 1)]"
    unfolding project_quiet by code_simp
  obtain info where i: "conn_info right_half = Some info" "info_role info = BT_CONN_ROLE_CENTRAL"
    by (simp add: right_half_def)
  from split_link_kept [OF i refl, of 5 0 ?c ?evs lost_env "0x13"] x q show ?thesis unfolding Let_def by blast
qed

section \<open>Two modules and one background host\<close>

text \<open>
  Exclusive host spares a background computer while the selected host is down (with the guard
  configured), but the reconnect watch's second step disconnects the same computer in the same
  situation.
\<close>

lemma watch_overrides_spared_host:
  "let e = lost_env; conn = demo_conn 1;
       w = \<lparr>next_step = RECONNECT_STEP_EVICT, ladder_from_active_down = True, watch_profile_index = 0,
            watch_timer = None, w_out = []\<rparr>
   in CONFIG_TOTEM_EVICT_REQUIRES_BONDED_ACTIVE totem_left_config
      \<and> evict_verdict totem_left_config e False conn (excl_boot totem_left_config) = Active_down
      \<and> watch_disconnects (w_out (reconnect_watch_work_handler totem_left_config e [conn] w)) = [conn]"
  by code_simp

section \<open>Observers\<close>

text \<open>
  C13. The diagnostics never change the program they observe: each of the 25 functions of Zephyr and
  ZMK that is replaced at link time behaves, over every sequence of calls, exactly as the original
  alone: same results, same effect on the outside world, each call made once with its own
  arguments. What the observers record goes to their own state only.
\<close>

theorem observers_passive:
  fixes disconnect :: "bt_conn \<times> u8 \<Rightarrow> 'w \<Rightarrow> int \<times> 'w"
    and set_state :: "host_conn \<times> bt_conn_state \<Rightarrow> 'w \<Rightarrow> unit \<times> 'w"
    and enqueue ack cp_rx :: "lll_conn \<times> pdu_data \<Rightarrow> 'w \<Rightarrow> unit \<times> 'w"
    and elapse :: "u16 \<Rightarrow> 'w \<Rightarrow> int \<times> 'w"
    and conn_done :: "radio_event \<Rightarrow> 'w \<Rightarrow> unit \<times> 'w"
    and isr_set :: "radio_isr \<times> nat \<times> lll_conn \<Rightarrow> 'w \<Rightarrow> unit \<times> 'w"
    and ccm :: "nat \<times> pdu_data \<Rightarrow> 'w \<Rightarrow> nat \<times> 'w"
    and pkt_tx :: "nat \<times> pdu_data \<Rightarrow> 'w \<Rightarrow> unit \<times> 'w"
    and status_reset :: "unit \<Rightarrow> 'w \<Rightarrow> unit \<times> 'w"
    and send :: "l2cap_send \<Rightarrow> 'w \<Rightarrow> int \<times> 'w"
    and buf_put :: "'l \<times> net_buf \<Rightarrow> 'w \<Rightarrow> unit \<times> 'w"
    and buf_get :: "'l \<Rightarrow> 'w \<Rightarrow> net_buf option \<times> 'w"
    and sec_changed :: "sec_conn \<times> u8 \<times> u8 \<Rightarrow> 'w \<Rightarrow> unit \<times> 'w"
    and l2cap_changed :: "sec_conn \<times> u8 \<Rightarrow> 'w \<Rightarrow> unit \<times> 'w"
    and reply :: "lll_conn \<times> u8 list \<Rightarrow> 'w \<Rightarrow> u8 \<times> 'w"
    and neq_reply :: "lll_conn \<Rightarrow> 'w \<Rightarrow> u8 \<times> 'w"
    and release :: "u32 \<Rightarrow> 'w \<Rightarrow> int \<times> 'w"
    and msg_put :: "bool \<times> (u8 \<times> u8 list) \<Rightarrow> 'w \<Rightarrow> int \<times> 'w"
    and msg_get :: "bool \<Rightarrow> 'w \<Rightarrow> (int \<times> (u8 \<times> u8 list)) \<times> 'w"
    and profile_conn :: "unit \<Rightarrow> 'w \<Rightarrow> bt_conn option \<times> 'w"
    and notify :: "'n \<Rightarrow> 'w \<Rightarrow> int \<times> 'w"
    and save_one :: "string \<times> u8 list \<Rightarrow> 'w \<Rightarrow> int \<times> 'w"
    and set_security :: "bt_conn \<times> u8 \<Rightarrow> 'w \<Rightarrow> int \<times> 'w"
  shows "transparent disconnect (wrap_bt_conn_disconnect disconnect e get_handle now now')
    \<and> transparent set_state (wrap_bt_conn_set_state set_state split_ll active now)
    \<and> transparent enqueue (wrap_llcp_tx_enqueue enqueue now)
    \<and> transparent ack (wrap_llcp_lp_comm_tx_ack ack now)
    \<and> transparent elapse (wrap_ull_cp_prt_elapse elapse view now)
    \<and> transparent conn_done (wrap_ull_conn_done conn_done k now)
    \<and> transparent isr_set (wrap_radio_isr_set isr_set end_event k now)
    \<and> transparent ccm (wrap_radio_ccm_tx_pkt_set ccm)
    \<and> transparent pkt_tx (wrap_radio_pkt_tx_set pkt_tx end_event now now')
    \<and> transparent status_reset (wrap_radio_status_reset status_reset end_event now)
    \<and> transparent send (wrap_bt_l2cap_send_pdu send now now')
    \<and> transparent buf_put (\<lambda>a s. the (wrap_net_buf_slist_put buf_put rx_queue now a s))
    \<and> transparent buf_get (\<lambda>a s. the (wrap_net_buf_slist_get buf_get rx_queue now a s))
    \<and> transparent sec_changed (wrap_bt_conn_security_changed sec_changed level now now')
    \<and> transparent l2cap_changed (wrap_bt_l2cap_security_changed l2cap_changed level now)
    \<and> transparent cp_rx (wrap_ull_cp_rx cp_rx now)
    \<and> transparent reply (wrap_ull_cp_ltk_req_reply reply now now')
    \<and> transparent neq_reply (wrap_ull_cp_ltk_req_neq_reply neq_reply now now')
    \<and> transparent release (wrap_zmk_hid_release release usage_page c he hnow)
    \<and> transparent msg_put (wrap_z_impl_k_msgq_put msg_put c he hnow)
    \<and> transparent msg_get (wrap_z_impl_k_msgq_get msg_get c he hnow worker)
    \<and> transparent profile_conn (wrap_zmk_ble_active_profile_conn profile_conn c he hnow worker)
    \<and> transparent notify (wrap_bt_gatt_notify_cb notify c hnow worker)
    \<and> transparent save_one (wrap_settings_save_one save_one active' now now')
    \<and> transparent set_security (wrap_bt_conn_set_security set_security ce hnow)"
  using handoff_wrappers_passive [of disconnect e get_handle now now' set_state split_ll active enqueue ack elapse view conn_done k]
    radio_wrappers_passive [of isr_set end_event k now ccm pkt_tx now' status_reset]
    security_wrappers_passive [of send now now' buf_put rx_queue buf_get sec_changed level l2cap_changed cp_rx reply neq_reply]
    hid_wrappers_passive [of release usage_page c he hnow msg_put msg_get worker profile_conn notify]
    settings_save.wrap_transparent [of save_one active' now now'] set_security_call.wrap_transparent [of set_security ce hnow]
  by (elim conjE) (intro conjI)

end
